(* ===== verification/Prelude.thy ===== *)
theory Prelude
  imports Main "HOL-Library.Word" "HOL-Library.Sublist"
begin

text \<open>
  Shared vocabulary of the development: the byte and time types, Go's string helpers
  that several packages use (\<open>strings.TrimSpace\<close>, \<open>strings.ToLower\<close>, \<open>strings.TrimRight\<close>,
  \<open>strings.Split\<close>, \<open>strconv.Atoi\<close>), fixed-width big-endian integers
  (\<open>encoding/binary\<close>), and two interfaces used all over: \<open>codec\<close>, an encoder with its
  decoder, and \<open>row_update\<close>, a keyed SQL \<open>UPDATE ... WHERE\<close> over a list of rows.

  A Go string is a byte sequence, so a \<open>string\<close> (list of 8-bit characters) is exactly a
  Go string, and \<open>length\<close> is Go's \<open>len\<close>.
\<close>

named_theorems row_simps \<open>field equations of row updates\<close>
named_theorems step_invs \<open>preservation of an invariant by one operation\<close>

section \<open>Types shared by the components\<close>

type_synonym byte = "8 word"
type_synonym bytes = "8 word list"
type_synonym int64 = "64 word"
type_synonym uuid = "128 word"

text \<open>An instant (\<open>time.Time\<close>, \<open>timestamptz\<close>): nanoseconds since the Unix epoch. Durations too.\<close>

type_synonym time = int

definition second :: int where "second = 1000000000"
definition minute :: int where "minute = 60 * second"
definition day :: int where "day = 24 * 60 * minute"

text \<open>Go's zero \<open>time.Time\<close> is January 1 of year 1.\<close>

definition zero_time :: time where "zero_time = - 62135596800 * second"

text \<open>\<open>t.Unix()\<close>: whole seconds, rounded towards the past.\<close>

definition unix_seconds :: "time \<Rightarrow> int" where
  "unix_seconds t = t div second"

lemma second_pos [simp]: "0 < second" by (simp add: second_def)

lemma unix_seconds_mono: "s \<le> t \<Longrightarrow> unix_seconds s \<le> unix_seconds t"
  by (simp add: unix_seconds_def zdiv_mono1)

lemma sint_int64: "- (2 ^ 63) \<le> n \<Longrightarrow> n < 2 ^ 63 \<Longrightarrow> sint (word_of_int n :: int64) = n"
  by (simp add: signed_of_int signed_take_bit_int_eq_self)

text \<open>A Go panic, kept as a value.\<close>

datatype panic = Panic string

section \<open>Strings\<close>

definition char_byte :: "char \<Rightarrow> byte" where
  "char_byte c = word_of_nat (of_char c)"

definition byte_char :: "byte \<Rightarrow> char" where
  "byte_char b = char_of (unat b)"

definition bytes_of_string :: "string \<Rightarrow> bytes" where
  "bytes_of_string s = map char_byte s"

definition string_of_bytes :: "bytes \<Rightarrow> string" where
  "string_of_bytes bs = map byte_char bs"

lemma unat_char_byte [simp]: "unat (char_byte c) = of_char c"
  using nat_of_char_less_256 [of c]
  by (simp add: char_byte_def unat_of_nat)

lemma byte_char_inverse [simp]: "byte_char (char_byte c) = c"
  by (simp add: byte_char_def)

lemma char_byte_inverse [simp]: "char_byte (byte_char b) = b"
proof -
  have "unat b < 256" using unsigned_less [of b] by simp
  then have "unat (char_byte (byte_char b)) = unat b"
    by (simp add: byte_char_def)
  then show ?thesis by (simp add: word_unat_eq_iff)
qed

lemma string_of_bytes_of_string [simp]: "string_of_bytes (bytes_of_string s) = s"
  by (simp add: string_of_bytes_def bytes_of_string_def comp_def)

lemma bytes_of_string_of_bytes [simp]: "bytes_of_string (string_of_bytes b) = b"
  by (simp add: string_of_bytes_def bytes_of_string_def comp_def)

definition is_ascii :: "char \<Rightarrow> bool" where
  "is_ascii c \<longleftrightarrow> of_char c < (128 :: nat)"

definition ascii_lower :: "char \<Rightarrow> char" where
  "ascii_lower c =
     (if 65 \<le> (of_char c :: nat) \<and> (of_char c :: nat) \<le> 90
      then char_of (of_char c + 32 :: nat) else c)"

text \<open>
  \<open>strings.ToLower\<close>: byte-wise on an ASCII string. On any other string Go applies the
  Unicode case table, a parameter here (\<open>ul\<close>).
\<close>

definition to_lower :: "(string \<Rightarrow> string) \<Rightarrow> string \<Rightarrow> string" where
  "to_lower ul s = (if list_all is_ascii s then map ascii_lower s else ul s)"

lemma of_char_ascii_lower:
  "of_char (ascii_lower c) =
     (if 65 \<le> (of_char c :: nat) \<and> (of_char c :: nat) \<le> 90 then of_char c + 32 else of_char c :: nat)"
  by (simp add: ascii_lower_def)

lemma ascii_lower_idem [simp]: "ascii_lower (ascii_lower c) = ascii_lower c"
  by (auto simp: ascii_lower_def)

lemma is_ascii_lower [simp]: "is_ascii (ascii_lower c) = is_ascii c"
  by (auto simp: is_ascii_def of_char_ascii_lower)

lemma to_lower_ascii_idem:
  "list_all is_ascii s \<Longrightarrow> to_lower ul (to_lower ul s) = to_lower ul s"
  by (simp add: to_lower_def list_all_iff comp_def)

text \<open>
  \<open>unicode.IsSpace\<close>, as the UTF-8 encodings of the white-space code points: the ASCII ones,
  U+0085, U+00A0, U+1680, U+2000 to U+200A, U+2028, U+2029, U+202F, U+205F and U+3000.
  A byte sequence ends (or starts) with a white-space rune exactly if one of these is its
  suffix (or prefix), because an incomplete encoding decodes to U+FFFD, which is none.
\<close>

definition ascii_spaces :: "char list" where
  "ascii_spaces = map char_of [9, 10, 11, 12, 13, 32 :: nat]"

definition space_runes :: "string list" where
  "space_runes =
     map (\<lambda>c. [c]) ascii_spaces @
     map (map char_of)
       ([[194, 133], [194, 160], [225, 154, 128]] @
        map (\<lambda>b. [226, 128, b]) ([128..<139] @ [168, 169, 175]) @
        [[226, 129, 159], [227, 128, 128 :: nat]])"

text \<open>
  Well-formed UTF-8, byte by byte (RFC 3629: no overlong forms, no surrogates, at most
  U+10FFFF). A slice \<open>s[:n]\<close> counts bytes and may cut a character in two.
\<close>

definition utf8_cont :: "char \<Rightarrow> bool" where
  "utf8_cont c \<longleftrightarrow> 128 \<le> (of_char c :: nat) \<and> (of_char c :: nat) < 192"

definition utf8_second :: "nat \<Rightarrow> char \<Rightarrow> bool" where
  "utf8_second lead c \<longleftrightarrow>
     (let lo = (if lead = 224 then 160 else if lead = 240 then 144 else 128);
          hi = (if lead = 237 then 160 else if lead = 244 then 144 else 192)
      in lo \<le> (of_char c :: nat) \<and> (of_char c :: nat) < hi)"

fun utf8_valid :: "string \<Rightarrow> bool" where
  "utf8_valid [] \<longleftrightarrow> True"
| "utf8_valid (c # cs) \<longleftrightarrow>
     (let b = of_char c :: nat
      in if b < 128 then utf8_valid cs
         else if 194 \<le> b \<and> b < 224 then
           (case cs of x # r \<Rightarrow> utf8_cont x \<and> utf8_valid r | _ \<Rightarrow> False)
         else if 224 \<le> b \<and> b < 240 then
           (case cs of x # y # r \<Rightarrow> utf8_second b x \<and> utf8_cont y \<and> utf8_valid r | _ \<Rightarrow> False)
         else if 240 \<le> b \<and> b < 245 then
           (case cs of x # y # z # r \<Rightarrow> utf8_second b x \<and> utf8_cont y \<and> utf8_cont z \<and> utf8_valid r
            | _ \<Rightarrow> False)
         else False)"

lemma utf8_valid_ascii: "list_all is_ascii s \<Longrightarrow> utf8_valid s"
  by (induction s) (auto simp: is_ascii_def Let_def)

text \<open>Strip leading runes of a list; \<open>TrimSpace\<close> strips at the left, then at the right.\<close>

function trim_runes :: "string list \<Rightarrow> string \<Rightarrow> string" where
  "trim_runes rs s =
     (case find (\<lambda>p. p \<noteq> [] \<and> prefix p s) rs of
        None \<Rightarrow> s
      | Some p \<Rightarrow> trim_runes rs (drop (length p) s))"
  by pat_completeness auto
termination
  by (relation "measure (\<lambda>(rs, s). length s)") (auto simp: find_Some_iff prefix_def)

declare trim_runes.simps [simp del]

definition trim_space :: "string \<Rightarrow> string" where
  "trim_space s = rev (trim_runes (map rev space_runes) (rev (trim_runes space_runes s)))"

lemma trim_runes_clean: "\<not> (\<exists>p\<in>set rs. p \<noteq> [] \<and> prefix p (trim_runes rs s))"
proof (induction rs s rule: trim_runes.induct)
  case (1 rs s)
  show ?case
  proof (cases "find (\<lambda>p. p \<noteq> [] \<and> prefix p s) rs")
    case None
    then have "trim_runes rs s = s" by (simp add: trim_runes.simps [of rs s])
    with None show ?thesis by (auto simp: find_None_iff)
  next
    case (Some p)
    with "1.IH" show ?thesis by (simp add: trim_runes.simps [of rs s])
  qed
qed

lemma trim_runes_suffix: "suffix (trim_runes rs s) s"
proof (induction rs s rule: trim_runes.induct)
  case (1 rs s)
  then show ?case
    by (cases "find (\<lambda>p. p \<noteq> [] \<and> prefix p s) rs")
      (auto simp: trim_runes.simps [of rs s] intro: suffix_order.trans suffix_drop)
qed

lemma trim_runes_fixed:
  assumes "\<not> (\<exists>p\<in>set rs. p \<noteq> [] \<and> prefix p s)"
  shows "trim_runes rs s = s"
proof -
  have "find (\<lambda>p. p \<noteq> [] \<and> prefix p s) rs = None"
    using assms by (auto simp: find_None_iff)
  then show ?thesis by (simp add: trim_runes.simps [of rs s])
qed

lemma trim_space_idem [simp]: "trim_space (trim_space s) = trim_space s"
proof -
  let ?l = "trim_runes space_runes s"
  let ?r = "trim_runes (map rev space_runes) (rev ?l)"
  have "suffix ?r (rev ?l)" by (rule trim_runes_suffix)
  then have pre: "prefix (rev ?r) ?l"
    by (metis rev_rev_ident suffix_to_prefix)
  have "\<not> (\<exists>p\<in>set space_runes. p \<noteq> [] \<and> prefix p (rev ?r))"
    using trim_runes_clean [of space_runes s] pre by (meson prefix_order.trans)
  then have "trim_runes space_runes (rev ?r) = rev ?r" by (rule trim_runes_fixed)
  moreover have "trim_runes (map rev space_runes) ?r = ?r"
    by (rule trim_runes_fixed) (rule trim_runes_clean)
  ultimately show ?thesis by (simp add: trim_space_def)
qed

text \<open>Nothing is trimmed off a string that starts and ends with a visible ASCII character.\<close>

definition visible :: "char \<Rightarrow> bool" where
  "visible c \<longleftrightarrow> 33 \<le> (of_char c :: nat) \<and> (of_char c :: nat) < 127"

lemma space_runes_invisible:
  "p \<in> set space_runes \<Longrightarrow> \<not> visible (hd p) \<and> \<not> visible (last p)"
  by (auto simp: space_runes_def ascii_spaces_def visible_def)

lemma prefix_hd: "p \<noteq> [] \<Longrightarrow> prefix p s \<Longrightarrow> hd p = hd s"
  by (auto simp: prefix_def)

lemma trim_space_visible:
  assumes "s \<noteq> []" and "visible (hd s)" and "visible (last s)"
  shows "trim_space s = s"
proof -
  have 1: "trim_runes space_runes s = s"
    using assms(2) space_runes_invisible by (intro trim_runes_fixed) (metis prefix_hd)
  have "last p = last s" if "p \<noteq> []" "prefix (rev p) (rev s)" for p
    using prefix_hd [OF _ that(2)] that(1) assms(1) by (simp add: hd_rev)
  then have "p = [] \<or> \<not> prefix (rev p) (rev s)" if "p \<in> set space_runes" for p
    using assms(3) space_runes_invisible [OF that] by metis
  then have "trim_runes (map rev space_runes) (rev s) = rev s"
    by (intro trim_runes_fixed) auto
  with 1 show ?thesis by (simp add: trim_space_def)
qed

text \<open>\<open>strings.TrimRight(s, cutset)\<close> for an ASCII cutset.\<close>

definition trim_right_chars :: "string \<Rightarrow> string \<Rightarrow> string" where
  "trim_right_chars cutset s = rev (dropWhile (\<lambda>c. c \<in> set cutset) (rev s))"

text \<open>\<open>strings.Split(s, sep)\<close> for a one-byte separator: always at least one part.\<close>

fun split_on :: "char \<Rightarrow> string \<Rightarrow> string list" where
  "split_on c [] = [[]]"
| "split_on c (x # xs) =
     (if x = c then [] # split_on c xs
      else (case split_on c xs of [] \<Rightarrow> [[x]] | p # ps \<Rightarrow> (x # p) # ps))"

lemma split_on_nonempty [simp]: "split_on c s \<noteq> []"
  by (induction s) (auto split: list.splits)

lemma split_on_append_sep: "split_on c (s @ c # t) = split_on c s @ split_on c t"
  by (induction s) (auto split: list.splits simp: Cons_eq_append_conv append_eq_Cons_conv)

section \<open>Decimal integers\<close>

definition digit_of :: "char \<Rightarrow> nat option" where
  "digit_of c = (let n = of_char c in if 48 \<le> n \<and> n \<le> 57 then Some (n - 48) else None)"

fun digits_value :: "nat \<Rightarrow> string \<Rightarrow> nat option" where
  "digits_value n [] = Some n"
| "digits_value n (c # cs) =
     (case digit_of c of None \<Rightarrow> None | Some d \<Rightarrow> digits_value (10 * n + d) cs)"

definition parse_digits :: "string \<Rightarrow> nat option" where
  "parse_digits s = (if s = [] then None else digits_value 0 s)"

text \<open>\<open>strconv.Atoi\<close>: an optional sign, digits, and the value must fit 64 bits.\<close>

definition atoi :: "string \<Rightarrow> int option" where
  "atoi s =
     (let signed = (case s of [] \<Rightarrow> None
                    | c # cs \<Rightarrow> if c = CHR ''-'' then map_option (\<lambda>n. - int n) (parse_digits cs)
                                else if c = CHR ''+'' then map_option int (parse_digits cs)
                                else map_option int (parse_digits s))
      in case signed of
           None \<Rightarrow> None
         | Some n \<Rightarrow> if - (2 ^ 63) \<le> n \<and> n < 2 ^ 63 then Some n else None)"

text \<open>\<open>strconv.Itoa\<close> and \<open>%d\<close>.\<close>

fun nat_digits :: "nat \<Rightarrow> string" where
  "nat_digits n =
     (if n < 10 then [char_of (48 + n)] else nat_digits (n div 10) @ [char_of (48 + n mod 10)])"

declare nat_digits.simps [simp del]

definition int_text :: "int \<Rightarrow> string" where
  "int_text i = (if i < 0 then CHR ''-'' # nat_digits (nat (- i)) else nat_digits (nat i))"

text \<open>A conversion \<open>int32(n)\<close> keeps the low 32 bits, read as two's complement.\<close>

definition to_int32 :: "int \<Rightarrow> int" where
  "to_int32 n = sint (word_of_int n :: 32 word)"

lemma to_int32_id: "- (2 ^ 31) \<le> n \<Longrightarrow> n < 2 ^ 31 \<Longrightarrow> to_int32 n = n"
  by (simp add: to_int32_def signed_of_int signed_take_bit_int_eq_self)

lemma to_int32_range: "- (2 ^ 31) \<le> to_int32 n \<and> to_int32 n < 2 ^ 31"
  using sint_ge [of "word_of_int n :: 32 word"] sint_lt [of "word_of_int n :: 32 word"]
  by (simp add: to_int32_def)

subsection \<open>Hexadecimal and quoted text\<close>

definition hex_digit :: "nat \<Rightarrow> char" where
  "hex_digit n = ''0123456789abcdef'' ! n"

text \<open>\<open>hex.EncodeToString\<close>.\<close>

definition hex_encode :: "bytes \<Rightarrow> string" where
  "hex_encode bs = concat (map (\<lambda>b. [hex_digit (unat b div 16), hex_digit (unat b mod 16)]) bs)"

lemma nth_hex_digit: "n < 16 \<Longrightarrow> hex_digit n \<in> set ''0123456789abcdef''"
  unfolding hex_digit_def by (rule nth_mem) simp

text \<open>
  \<open>strconv.Quote\<close> (the verb \<open>%q\<close>) on an ASCII string; on any other string it consults the
  Unicode tables, a parameter here (\<open>uq\<close>).
\<close>

definition quote_char :: "char \<Rightarrow> string" where
  "quote_char c =
     (if c = CHR 0x22 then [CHR 0x5C, CHR 0x22]
      else if c = CHR 0x5C then [CHR 0x5C, CHR 0x5C]
      else if 32 \<le> (of_char c :: nat) \<and> (of_char c :: nat) < 127 then [c]
      else if c = CHR 0x07 then [CHR 0x5C, CHR ''a'']
      else if c = CHR 0x08 then [CHR 0x5C, CHR ''b'']
      else if c = CHR 0x0C then [CHR 0x5C, CHR ''f'']
      else if c = CHR 0x0A then [CHR 0x5C, CHR ''n'']
      else if c = CHR 0x0D then [CHR 0x5C, CHR ''r'']
      else if c = CHR 0x09 then [CHR 0x5C, CHR ''t'']
      else if c = CHR 0x0B then [CHR 0x5C, CHR ''v'']
      else CHR 0x5C # CHR ''x'' # hex_encode [char_byte c])"

definition go_quote :: "(string \<Rightarrow> string) \<Rightarrow> string \<Rightarrow> string" where
  "go_quote uq s =
     (if list_all is_ascii s then CHR 0x22 # concat (map quote_char s) @ [CHR 0x22] else uq s)"

section \<open>Encoders and their decoders\<close>

text \<open>
  The interface every encoding of the program meets: decoding what was encoded gives the
  value back. Clients use the injectivity that follows; a fixed-width encoding can also be
  split off the front of a longer message.
\<close>

locale codec =
  fixes enc :: "'a \<Rightarrow> 'b" and dec :: "'b \<Rightarrow> 'a option"
  assumes dec_enc: "dec (enc x) = Some x"
begin

lemma enc_eq_iff: "enc x = enc y \<longleftrightarrow> x = y"
  by (metis dec_enc option.inject)

lemma inj_enc: "inj enc"
  by (simp add: inj_def enc_eq_iff)

end

locale fixed_codec = codec enc dec for enc :: "'a \<Rightarrow> 'b list" and dec :: "'b list \<Rightarrow> 'a option" +
  fixes width :: nat
  assumes length_enc: "length (enc x) = width"
begin

lemma split_front: "take width (enc x @ r) = enc x" "drop width (enc x @ r) = r"
  by (simp_all add: length_enc)

lemma dec_front: "dec (take width (enc x @ r)) = Some x"
  by (simp add: length_enc dec_enc)

lemma append_eq_iff: "enc x @ r = enc y @ s \<longleftrightarrow> x = y \<and> r = s"
  by (simp add: append_eq_append_conv length_enc enc_eq_iff)

end

subsection \<open>Big-endian words\<close>

text \<open>
  \<open>binary.BigEndian.PutUint64\<close> and \<open>Uint64\<close>, for any number of bytes; also the bytes of a
  SHA-256 digest, which Go returns as a \<open>[32]byte\<close> and we keep as a \<open>256 word\<close>.
\<close>

fun be_bytes :: "nat \<Rightarrow> 'a::len word \<Rightarrow> bytes" where
  "be_bytes 0 w = []"
| "be_bytes (Suc n) w = ucast (drop_bit (8 * n) w) # be_bytes n w"

fun of_be_bytes :: "'a::len word \<Rightarrow> bytes \<Rightarrow> 'a word" where
  "of_be_bytes acc [] = acc"
| "of_be_bytes acc (b # bs) = of_be_bytes (or (push_bit 8 acc) (ucast b)) bs"

lemma length_be_bytes [simp]: "length (be_bytes n w) = n"
  by (induction n) auto

lemma be_bytes_step:
  fixes w acc :: "'a::len word"
  shows "or (push_bit m (or (push_bit 8 acc) (ucast (ucast (drop_bit m w) :: byte))))
            (take_bit m w)
       = or (push_bit (m + 8) acc) (take_bit (m + 8) w)"
proof (rule bit_word_eqI)
  fix i assume i: "i < LENGTH('a)"
  consider "i < m" | "m \<le> i" "i < m + 8" | "m + 8 \<le> i" by linarith
  then show "bit (or (push_bit m (or (push_bit 8 acc) (ucast (ucast (drop_bit m w) :: byte))))
        (take_bit m w)) i = bit (or (push_bit (m + 8) acc) (take_bit (m + 8) w)) i"
  proof cases
    case 1 with i show ?thesis by (simp add: bit_or_iff bit_push_bit_iff bit_take_bit_iff)
  next
    case 2 
    then obtain j where "i = m + j" "j < 8" using le_Suc_ex by fastforce
    with i show ?thesis by (simp add: bit_or_iff bit_push_bit_iff bit_take_bit_iff bit_ucast_iff bit_drop_bit_eq)
  next
    case 3 
    then obtain j where "i = m + 8 + j" using le_Suc_ex by blast
    with i show ?thesis by (simp add: bit_or_iff bit_push_bit_iff bit_take_bit_iff bit_ucast_iff bit_drop_bit_eq)
  qed
qed

lemma of_be_bytes_be_bytes:
  "of_be_bytes acc (be_bytes n w) = or (push_bit (8 * n) acc) (take_bit (8 * n) w)"
proof (induction n arbitrary: acc)
  case 0
  show ?case by simp
next
  case (Suc n)
  have "8 * Suc n = 8 * n + 8" by simp
  then show ?case by (simp only: be_bytes.simps of_be_bytes.simps Suc.IH be_bytes_step)
qed

definition get_be :: "nat \<Rightarrow> bytes \<Rightarrow> ('a::len word) option" where
  "get_be n bs = (if length bs = n then Some (of_be_bytes 0 bs) else None)"

lemma get_be_bytes:
  "LENGTH('a::len) = 8 * n \<Longrightarrow> get_be n (be_bytes n (w :: 'a word)) = Some w"
  by (simp add: get_be_def of_be_bytes_be_bytes take_bit_word_eq_self)

text \<open>Every \<open>n\<close> bytes are the encoding of a word of that width: both sides count \<open>256 ^ n\<close>.\<close>

lemma be_bytes_surj:
  assumes "LENGTH('a::len) = 8 * n" and "length x = n"
  shows "\<exists>w :: 'a word. x = be_bytes n w"
proof -
  let ?B = "{xs :: bytes. set xs \<subseteq> UNIV \<and> length xs = n}"
  have inj: "inj (be_bytes n :: 'a word \<Rightarrow> bytes)"
    using get_be_bytes [OF assms(1)] by (metis injI option.inject)
  have "card (range (be_bytes n :: 'a word \<Rightarrow> bytes)) = 2 ^ (8 * n)"
    using inj by (simp add: card_image card_word assms(1))
  also have "\<dots> = card ?B"
    by (subst card_lists_length_eq) (simp_all add: card_word power_mult)
  finally have "range (be_bytes n :: 'a word \<Rightarrow> bytes) = ?B"
    by (intro card_subset_eq finite_lists_length_eq) auto
  with assms(2) show ?thesis by blast
qed

lemma int64_bytes: "length x = 8 \<Longrightarrow> \<exists>w :: int64. x = be_bytes 8 w"
  by (rule be_bytes_surj) simp_all

interpretation be64: fixed_codec "be_bytes 8 :: int64 \<Rightarrow> bytes" "get_be 8" 8
  by unfold_locales (simp_all add: get_be_bytes)

type_synonym digest = "256 word"

definition digest_bytes :: "digest \<Rightarrow> bytes" where
  "digest_bytes = be_bytes 32"

interpretation dig: fixed_codec digest_bytes "get_be 32" 32
  by unfold_locales (simp_all add: digest_bytes_def get_be_bytes)

section \<open>Updates of keyed rows\<close>

text \<open>An SQL \<open>UPDATE ... SET f WHERE p\<close> over the rows of a table, and a look-up by key.\<close>

definition update_where :: "('r \<Rightarrow> bool) \<Rightarrow> ('r \<Rightarrow> 'r) \<Rightarrow> 'r list \<Rightarrow> 'r list" where
  "update_where p f rows = map (\<lambda>r. if p r then f r else r) rows"

definition lookup_row :: "('r \<Rightarrow> 'k) \<Rightarrow> 'k \<Rightarrow> 'r list \<Rightarrow> 'r option" where
  "lookup_row key k rows = find (\<lambda>r. key r = k) rows"

lemma update_where_Nil [simp]: "update_where p f [] = []"
  by (simp add: update_where_def)

lemma update_where_Cons [simp]:
  "update_where p f (r # rs) = (if p r then f r else r) # update_where p f rs"
  by (simp add: update_where_def)

lemma length_update_where [simp]: "length (update_where p f rows) = length rows"
  by (simp add: update_where_def)

lemma update_where_append: "update_where p f (xs @ ys) = update_where p f xs @ update_where p f ys"
  by (simp add: update_where_def)

lemma set_update_where: "set (update_where p f rows) = (\<lambda>r. if p r then f r else r) ` set rows"
  by (simp add: update_where_def)

lemma in_update_where:
  "r \<in> set (update_where p f rows) \<Longrightarrow> \<exists>r0\<in>set rows. r = (if p r0 then f r0 else r0)"
  by (auto simp: update_where_def)

lemma update_where_cases:
  assumes "r \<in> set (update_where p f rows)"
  obtains (changed) r0 where "r0 \<in> set rows" "p r0" "r = f r0" | (kept) "r \<in> set rows" "\<not> p r"
  using in_update_where [OF assms] by (elim bexE) (metis changed kept)

lemma update_where_none: "(\<And>r. r \<in> set rows \<Longrightarrow> \<not> p r) \<Longrightarrow> update_where p f rows = rows"
  by (induction rows) auto

lemma lookup_row_Some: "lookup_row key k rows = Some r \<Longrightarrow> r \<in> set rows \<and> key r = k"
  by (auto simp: lookup_row_def find_Some_iff)

lemma lookup_row_None: "lookup_row key k rows = None \<longleftrightarrow> k \<notin> key ` set rows"
  by (auto simp: lookup_row_def find_None_iff)

lemma lookup_row_append:
  "lookup_row key k (xs @ ys) = (case lookup_row key k xs of Some r \<Rightarrow> Some r | None \<Rightarrow> lookup_row key k ys)"
  by (induction xs) (auto simp: lookup_row_def)

lemma lookup_row_unique:
  "distinct (map key rows) \<Longrightarrow> r \<in> set rows \<Longrightarrow> lookup_row key (key r) rows = Some r"
  by (induction rows) (auto simp: lookup_row_def)

lemma distinct_keys_eq:
  "distinct (map key rows) \<Longrightarrow> r \<in> set rows \<Longrightarrow> s \<in> set rows \<Longrightarrow> key r = key s \<Longrightarrow> r = s"
  by (metis lookup_row_unique option.inject)

locale row_update =
  fixes key :: "'r \<Rightarrow> 'k" and f :: "'r \<Rightarrow> 'r"
  assumes key_kept: "key (f r) = key r"
begin

lemma keys_update: "map key (update_where p f rows) = map key rows"
  by (induction rows) (auto simp: key_kept)

lemma distinct_update: "distinct (map key (update_where p f rows)) = distinct (map key rows)"
  by (simp add: keys_update)

lemma key_set_update: "key ` set (update_where p f rows) = key ` set rows"
  by (metis keys_update list.set_map)

lemma lookup_update:
  "lookup_row key k (update_where p f rows) =
     map_option (\<lambda>r. if p r then f r else r) (lookup_row key k rows)"
  by (induction rows) (auto simp: lookup_row_def key_kept)

lemma rows_update:
  assumes "\<And>r. r \<in> set rows \<Longrightarrow> I r" and "\<And>r. r \<in> set rows \<Longrightarrow> I r \<Longrightarrow> p r \<Longrightarrow> I (f r)"
    and "r \<in> set (update_where p f rows)"
  shows "I r"
  using assms by (auto simp: set_update_where)

end

end
