(* ===== verification/AppErr.thy ===== *)
theory AppErr
  imports Prelude
begin

text \<open>
  \<open>internal/apperr/apperr.go\<close> and the Go error values of the program. An error is a chain:
  plain messages, \<open>fmt.Errorf\<close> with \<open>%w\<close>, the typed \<open>apperr.Error\<close> with its hidden cause, the
  retryable wrapper of \<open>internal/email/sender.go\<close>, the sentinels that \<open>errors.Is\<close> looks for,
  and the failures PostgreSQL reports (by their SQLSTATE, the server's text is not kept).
\<close>

datatype code =
    CodeBadRequest | CodeUnauthorized | CodeForbidden | CodeNotFound | CodeConflict
  | CodeRateLimited | CodeInternal

fun code_text :: "code \<Rightarrow> string" where
  "code_text CodeBadRequest = ''bad_request''"
| "code_text CodeUnauthorized = ''unauthorized''"
| "code_text CodeForbidden = ''forbidden''"
| "code_text CodeNotFound = ''not_found''"
| "code_text CodeConflict = ''conflict''"
| "code_text CodeRateLimited = ''rate_limited''"
| "code_text CodeInternal = ''internal''"

datatype sentinel = ErrNoRows | ErrCanceled | ErrRetryable

datatype pg_error =
    UniqueViolation | CheckViolation | ForeignKeyViolation | RowSecurityViolation
  | PermissionDenied | InvalidTextRepresentation | InvalidRowCount
  | InvalidByteSequence | ConnectionFailure

datatype gerror =
    Sentinel sentinel
  | Msg string
  | Wrapped string gerror
  | AppError int code string "gerror option"
  | RetryableErr gerror
  | PgError pg_error

fun sentinel_text :: "sentinel \<Rightarrow> string" where
  "sentinel_text ErrNoRows = ''no rows in result set''"
| "sentinel_text ErrCanceled = ''context canceled''"
| "sentinel_text ErrRetryable = ''email: retryable''"

fun pg_error_text :: "pg_error \<Rightarrow> string" where
  "pg_error_text UniqueViolation = ''SQLSTATE 23505''"
| "pg_error_text CheckViolation = ''SQLSTATE 23514''"
| "pg_error_text ForeignKeyViolation = ''SQLSTATE 23503''"
| "pg_error_text RowSecurityViolation = ''SQLSTATE 42501''"
| "pg_error_text PermissionDenied = ''SQLSTATE 42501''"
| "pg_error_text InvalidTextRepresentation = ''SQLSTATE 22P02''"
| "pg_error_text InvalidRowCount = ''SQLSTATE 2201X''"
| "pg_error_text InvalidByteSequence = ''SQLSTATE 22021''"
| "pg_error_text ConnectionFailure = ''SQLSTATE 08006''"

text \<open>\<open>Error()\<close> along the chain, and for a possibly nil \<open>*apperr.Error\<close>.\<close>

fun error_text :: "gerror \<Rightarrow> string" where
  "error_text (Sentinel s) = sentinel_text s"
| "error_text (Msg m) = m"
| "error_text (Wrapped p e) = p @ '': '' @ error_text e"
| "error_text (AppError st c m None) = code_text c @ '': '' @ m"
| "error_text (AppError st c m (Some e)) = code_text c @ '': '' @ m @ '': '' @ error_text e"
| "error_text (RetryableErr e) = ''retryable: '' @ error_text e"
| "error_text (PgError k) = pg_error_text k"

definition app_error_text :: "gerror option \<Rightarrow> string" where
  "app_error_text e = (case e of None \<Rightarrow> ''<nil>'' | Some e \<Rightarrow> error_text e)"

fun app_wrap :: "gerror option \<Rightarrow> gerror option \<Rightarrow> gerror option" where
  "app_wrap (Some (AppError st c m cause)) err = Some (AppError st c m err)"
| "app_wrap e err = e"

fun unwrap :: "gerror \<Rightarrow> gerror option" where
  "unwrap (Wrapped p e) = Some e"
| "unwrap (AppError st c m cause) = cause"
| "unwrap (RetryableErr e) = Some e"
| "unwrap e = None"

definition bad_request :: "string \<Rightarrow> gerror" where "bad_request m = AppError 400 CodeBadRequest m None"
definition unauthorized :: "string \<Rightarrow> gerror" where "unauthorized m = AppError 401 CodeUnauthorized m None"
definition forbidden :: "string \<Rightarrow> gerror" where "forbidden m = AppError 403 CodeForbidden m None"
definition not_found :: "string \<Rightarrow> gerror" where "not_found m = AppError 404 CodeNotFound m None"
definition conflict :: "string \<Rightarrow> gerror" where "conflict m = AppError 409 CodeConflict m None"
definition rate_limited :: "string \<Rightarrow> gerror" where "rate_limited m = AppError 429 CodeRateLimited m None"
definition internal_error :: "string \<Rightarrow> gerror" where "internal_error m = AppError 500 CodeInternal m None"

lemmas app_error_defs = bad_request_def unauthorized_def forbidden_def not_found_def
  conflict_def rate_limited_def internal_error_def

text \<open>
  \<open>errors.Is(err, target)\<close> for a sentinel target, walking the chain; \<open>retryableErr\<close> has an
  \<open>Is\<close> method that answers for \<open>ErrRetryable\<close>.
\<close>

fun errors_is :: "sentinel \<Rightarrow> gerror \<Rightarrow> bool" where
  "errors_is t (Sentinel s) \<longleftrightarrow> s = t"
| "errors_is t (Msg m) \<longleftrightarrow> False"
| "errors_is t (Wrapped p e) \<longleftrightarrow> errors_is t e"
| "errors_is t (AppError st c m None) \<longleftrightarrow> False"
| "errors_is t (AppError st c m (Some e)) \<longleftrightarrow> errors_is t e"
| "errors_is t (RetryableErr e) \<longleftrightarrow> t = ErrRetryable \<or> errors_is t e"
| "errors_is t (PgError k) \<longleftrightarrow> False"

text \<open>\<open>apperr.As\<close>: the outermost \<open>apperr.Error\<close> of the chain.\<close>

fun app_as :: "gerror \<Rightarrow> (int \<times> code \<times> string) option" where
  "app_as (AppError st c m cause) = Some (st, c, m)"
| "app_as (Wrapped p e) = app_as e"
| "app_as (RetryableErr e) = app_as e"
| "app_as e = None"

definition retryable_error :: "gerror option \<Rightarrow> gerror option" where
  "retryable_error cause = map_option RetryableErr cause"

section \<open>Chains\<close>

text \<open>Both searches are the same walk over \<open>Unwrap\<close> that Go's \<open>errors\<close> package makes.\<close>

lemma errors_is_step:
  "errors_is t e \<longleftrightarrow>
     e = Sentinel t \<or> (t = ErrRetryable \<and> (\<exists>c. e = RetryableErr c)) \<or>
     (\<exists>c. unwrap e = Some c \<and> errors_is t c)"
  by (cases "(t, e)" rule: errors_is.cases) auto

lemma app_as_step:
  "app_as e = (case e of AppError st c m cause \<Rightarrow> Some (st, c, m)
               | _ \<Rightarrow> Option.bind (unwrap e) app_as)"
  by (cases e rule: app_as.cases) auto

lemma app_as_constructors [simp]:
  "app_as (bad_request m) = Some (400, CodeBadRequest, m)"
  "app_as (unauthorized m) = Some (401, CodeUnauthorized, m)"
  "app_as (forbidden m) = Some (403, CodeForbidden, m)"
  "app_as (not_found m) = Some (404, CodeNotFound, m)"
  "app_as (conflict m) = Some (409, CodeConflict, m)"
  "app_as (rate_limited m) = Some (429, CodeRateLimited, m)"
  "app_as (internal_error m) = Some (500, CodeInternal, m)"
  by (simp_all add: app_error_defs)

lemma app_wrap_wire: "Option.bind (app_wrap e err) app_as = Option.bind e app_as"
  by (cases "(e, err)" rule: app_wrap.cases) auto

lemma app_wrap_is:
  "app_wrap (Some (AppError st c m cause)) (Some err) = Some e \<Longrightarrow> errors_is t e = errors_is t err"
  by auto

end
