(* ===== verification/Http.thy ===== *)
theory Http
  imports AppErr
begin

text \<open>
  \<open>internal/httpx\<close>: responses and error envelopes, request ids, security headers, CORS, panic
  recovery and stack redaction, the client address behind trusted proxies, keyed e-mail
  hashes, the status recorder of the access log, and the probes. A handler maps a request
  and the state so far (the program's state and the response writer) to an outcome, which
  may be a panic.
\<close>

section \<open>Requests and the response writer\<close>

text \<open>JSON values; the byte encoding of \<open>encoding/json\<close> is not part of the model.\<close>

datatype json =
    JNull | JBool bool | JInt int | JStr string | JArr "json list" | JObj "(string \<times> json) list"

text \<open>\<open>auth.Claims\<close>, attached to the request's context by the middleware of \<open>internal/auth\<close>.\<close>

record claims =
  c_sub :: string
  c_email :: string
  c_role :: string

text \<open>
  A request: \<open>Header.Get\<close>, \<open>URL.Query().Get\<close>, \<open>FormValue\<close> and \<open>chi.URLParam\<close> answer the empty
  string when there is no value, so they are total functions.
\<close>

record request =
  rq_method :: string
  rq_path :: string
  rq_header :: "string \<Rightarrow> string"
  rq_query :: "string \<Rightarrow> string"
  rq_form :: "string \<Rightarrow> string"
  rq_url_param :: "string \<Rightarrow> string"
  rq_body :: string
  rq_remote_addr :: string
  rq_request_id :: "string option"
  rq_claims :: "claims option"

datatype body = JsonBody json | HtmlBody string

text \<open>
  The response writer of \<open>net/http\<close>: the header map under construction, the status line and
  headers once \<open>WriteHeader\<close> fixed them (a second call is ignored), and the body written; inside
  \<open>Logging\<close> also what its \<open>statusWriter\<close> has seen: the first status passed to \<open>WriteHeader\<close>. A body that
  is written first commits status 200 without the \<open>statusWriter\<close> noticing.
\<close>

record status_writer =
  sw_status :: int
  sw_wrote :: bool

definition new_status_writer :: status_writer where
  "new_status_writer = \<lparr>sw_status = 200, sw_wrote = False\<rparr>"

definition sw_write_header :: "int \<Rightarrow> status_writer \<Rightarrow> status_writer" where
  "sw_write_header st sw = (if sw_wrote sw then sw else sw\<lparr>sw_status := st, sw_wrote := True\<rparr>)"

record rw =
  rw_header :: "string \<rightharpoonup> string"
  rw_sent :: "(int \<times> (string \<rightharpoonup> string)) option"
  rw_body :: "body list"
  rw_watch :: "status_writer option"

definition new_rw :: rw where
  "new_rw = \<lparr>rw_header = Map.empty, rw_sent = None, rw_body = [], rw_watch = None\<rparr>"

definition set_header :: "string \<Rightarrow> string \<Rightarrow> rw \<Rightarrow> rw" where
  "set_header k v w = w\<lparr>rw_header := (rw_header w)(k \<mapsto> v)\<rparr>"

definition write_header :: "int \<Rightarrow> rw \<Rightarrow> rw" where
  "write_header st w =
     (let w' = w\<lparr>rw_watch := map_option (sw_write_header st) (rw_watch w)\<rparr>
      in if rw_sent w' = None then w'\<lparr>rw_sent := Some (st, rw_header w')\<rparr> else w')"

definition write_body :: "body \<Rightarrow> rw \<Rightarrow> rw" where
  "write_body b w =
     (let w' = (if rw_sent w = None then w\<lparr>rw_sent := Some (200, rw_header w)\<rparr> else w)
      in w'\<lparr>rw_body := rw_body w' @ [b]\<rparr>)"

text \<open>The status a client sees: 200 if the handler returned without writing.\<close>

definition rw_status :: "rw \<Rightarrow> int" where
  "rw_status w = (case rw_sent w of None \<Rightarrow> 200 | Some (st, h) \<Rightarrow> st)"

datatype 'a outcome = Done 'a | Panicked 'a

fun outcome_value :: "'a outcome \<Rightarrow> 'a" where
  "outcome_value (Done x) = x"
| "outcome_value (Panicked x) = x"

type_synonym 's handler = "request \<Rightarrow> 's \<times> rw \<Rightarrow> ('s \<times> rw) outcome"
type_synonym 's middleware = "'s handler \<Rightarrow> 's handler"

section \<open>Responses (response.go)\<close>

definition write_json :: "int \<Rightarrow> json \<Rightarrow> rw \<Rightarrow> rw" where
  "write_json st v w =
     write_body (JsonBody v)
       (write_header (if st = 0 then 200 else st)
         (set_header ''Content-Type'' ''application/json; charset=utf-8'' w))"

definition write_html :: "int \<Rightarrow> string \<Rightarrow> rw \<Rightarrow> rw" where
  "write_html st b w =
     write_body (HtmlBody b)
       (write_header (if st = 0 then 200 else st)
         (set_header ''X-Robots-Tag'' ''noindex, nofollow''
           (set_header ''Cache-Control'' ''no-store''
             (set_header ''Content-Type'' ''text/html; charset=utf-8'' w))))"

definition request_id_from_context :: "request \<Rightarrow> string" where
  "request_id_from_context r = (case rq_request_id r of None \<Rightarrow> '''' | Some i \<Rightarrow> i)"

definition error_envelope :: "code \<Rightarrow> string \<Rightarrow> string \<Rightarrow> json" where
  "error_envelope c m rid =
     JObj [(''code'', JStr (code_text c)), (''message'', JStr m), (''request_id'', JStr rid)]"

definition write_error :: "request \<Rightarrow> gerror \<Rightarrow> rw \<Rightarrow> rw" where
  "write_error r err w =
     (let (st, c, m) = (case app_as err of Some a \<Rightarrow> a | None \<Rightarrow> (500, CodeInternal, ''internal''))
      in write_json st (error_envelope c m (request_id_from_context r)) w)"

definition health_ok :: "'s handler" where
  "health_ok r sw = (case sw of (s, w) \<Rightarrow>
     Done (s, write_json 200 (JObj [(''status'', JStr ''ok'')]) w))"

text \<open>\<open>Readyz\<close>: each pool is nil, or answers the ping or not.\<close>

fun readyz :: "bool option list \<Rightarrow> 's handler" where
  "readyz [] r (s, w) = Done (s, write_json 200 (JObj [(''status'', JStr ''ready'')]) w)"
| "readyz (None # ps) r (s, w) = readyz ps r (s, w)"
| "readyz (Some True # ps) r (s, w) = readyz ps r (s, w)"
| "readyz (Some False # ps) r (s, w) =
     Done (s, write_json 503 (JObj [(''status'', JStr ''down'')]) w)"

section \<open>Request ids (requestid.go)\<close>

text \<open>
  The loop over runes: a byte below 128 is a rune of its own and every other rune is at least
  128, so checking bytes is the same.
\<close>

definition valid_request_id :: "string \<Rightarrow> bool" where
  "valid_request_id s \<longleftrightarrow> s \<noteq> [] \<and> length s \<le> 128 \<and>
     list_all (\<lambda>c. 32 \<le> (of_char c :: nat) \<and> (of_char c :: nat) \<noteq> 127) s"

text \<open>\<open>generateID\<close> reads 16 random bytes: an argument.\<close>

definition request_id :: "bytes \<Rightarrow> 's middleware" where
  "request_id random next_h r sw = (case sw of (s, w) \<Rightarrow>
     (let inbound = rq_header r ''X-Request-Id'';
          rid = (if valid_request_id inbound then inbound else hex_encode random)
      in next_h (r\<lparr>rq_request_id := Some rid\<rparr>) (s, set_header ''X-Request-Id'' rid w)))"

section \<open>Security headers and CORS\<close>

definition security_headers :: "'s middleware" where
  "security_headers next_h r sw = (case sw of (s, w) \<Rightarrow>
     next_h r (s,
       set_header ''Cross-Origin-Resource-Policy'' ''same-site''
      (set_header ''Permissions-Policy'' ''accelerometer=(), camera=(), geolocation=(), gyroscope=(), microphone=(), payment=(), usb=()''
      (set_header ''Referrer-Policy'' ''strict-origin-when-cross-origin''
      (set_header ''X-Frame-Options'' ''DENY''
      (set_header ''X-Content-Type-Options'' ''nosniff''
      (set_header ''Strict-Transport-Security'' ''max-age=63072000; includeSubDomains; preload'' w)))))))"

definition norm_origin :: "(string \<Rightarrow> string) \<Rightarrow> string \<Rightarrow> string" where
  "norm_origin ul o' = to_lower ul (trim_right_chars ''/'' o')"

definition cors_headers :: "(string \<Rightarrow> string) \<Rightarrow> string list \<Rightarrow> request \<Rightarrow> rw \<Rightarrow> rw" where
  "cors_headers ul allowed r w =
     (let allow = norm_origin ul ` set allowed;
          origin = norm_origin ul (rq_header r ''Origin'')
      in if origin \<noteq> '''' \<and> origin \<in> allow
         then set_header ''Access-Control-Max-Age'' ''600''
             (set_header ''Access-Control-Allow-Headers'' ''Authorization, Content-Type, X-Request-Id''
             (set_header ''Access-Control-Allow-Methods'' ''GET, POST, OPTIONS''
             (set_header ''Vary'' ''Origin''
             (set_header ''Access-Control-Allow-Origin'' (rq_header r ''Origin'') w))))
         else w)"

definition cors :: "(string \<Rightarrow> string) \<Rightarrow> string list \<Rightarrow> 's middleware" where
  "cors ul allowed next_h r sw = (case sw of (s, w) \<Rightarrow>
     (let w' = cors_headers ul allowed r w
      in if rq_method r = ''OPTIONS'' then Done (s, write_header 204 w')
         else next_h r (s, w')))"

section \<open>Panic recovery (recover.go)\<close>

definition recover_panics :: "'s middleware" where
  "recover_panics next_h r sw =
     (case next_h r sw of
        Done x \<Rightarrow> Done x
      | Panicked (s, w) \<Rightarrow> Done (s, write_error r (internal_error ''internal'') w))"

text \<open>
  \<open>argsRe\<close>, one line at a time: a first character that is not white space, then everything up
  to the next opening parenthesis, and a closing parenthesis at the end of the line.
\<close>

definition re_space :: "char \<Rightarrow> bool" where
  "re_space c \<longleftrightarrow> c \<in> {CHR 0x09, CHR 0x0A, CHR 0x0C, CHR 0x0D, CHR '' ''}"

definition redact_args :: "string \<Rightarrow> string" where
  "redact_args l =
     (case l of
        [] \<Rightarrow> []
      | c # cs \<Rightarrow>
          let name = takeWhile (\<lambda>x. x \<noteq> CHR ''('') cs;
              rest = dropWhile (\<lambda>x. x \<noteq> CHR ''('') cs
          in if \<not> re_space c \<and> 2 \<le> length rest \<and> last rest = CHR '')''
             then c # name @ ''(...)'' else l)"

text \<open>\<open>offsetRe\<close>: a trailing \<open> +0x\<close> and at least one hexadecimal digit.\<close>

definition is_hex :: "char \<Rightarrow> bool" where
  "is_hex c \<longleftrightarrow> c \<in> set ''0123456789abcdefABCDEF''"

definition strip_offset :: "string \<Rightarrow> string" where
  "strip_offset l =
     (let digits = takeWhile is_hex (rev l);
          rest = dropWhile is_hex (rev l)
      in if digits \<noteq> [] \<and> prefix ''x0+ '' rest then rev (drop 4 rest)
         else l)"

definition join :: "string \<Rightarrow> string list \<Rightarrow> string" where
  "join sep ps = (case ps of [] \<Rightarrow> [] | p # rest \<Rightarrow> p @ concat (map (\<lambda>q. sep @ q) rest))"

definition redact_stack :: "string \<Rightarrow> string" where
  "redact_stack raw = join [CHR 0x0A] (map (\<lambda>l. strip_offset (redact_args l)) (split_on (CHR 0x0A) raw))"

section \<open>The client address (logging.go)\<close>

text \<open>\<open>net.SplitHostPort\<close>: the host part, or \<open>None\<close> where Go returns an error.\<close>

definition index_of :: "char \<Rightarrow> string \<Rightarrow> nat option" where
  "index_of c s = (if c \<in> set s then Some (length (takeWhile (\<lambda>x. x \<noteq> c) s)) else None)"

definition last_index_of :: "char \<Rightarrow> string \<Rightarrow> nat option" where
  "last_index_of c s = map_option (\<lambda>i. length s - 1 - i) (index_of c (rev s))"

definition split_host_port :: "string \<Rightarrow> string option" where
  "split_host_port s =
     (case last_index_of (CHR '':'') s of
        None \<Rightarrow> None
      | Some i \<Rightarrow>
          if s ! 0 = CHR ''['' then
            (case index_of (CHR '']'') s of
               None \<Rightarrow> None
             | Some e \<Rightarrow>
                 if e + 1 = i \<and> CHR ''['' \<notin> set (drop 1 s) \<and> CHR '']'' \<notin> set (drop (e + 1) s)
                 then Some (drop 1 (take e s)) else None)
          else if CHR '':'' \<in> set (take i s) \<or> CHR ''['' \<in> set s \<or> CHR '']'' \<in> set s
          then None else Some (take i s))"

text \<open>
  Addresses are byte lists as in Go's \<open>net.IP\<close>. \<open>net.ParseIP\<close> and \<open>IP.String\<close> are parameters;
  \<open>To4\<close> and \<open>IPNet.Contains\<close> are modelled.
\<close>

type_synonym ip = bytes

record ipnet =
  net_ip :: ip
  net_mask :: bytes

record net_ops =
  parse_ip :: "string \<Rightarrow> ip option"
  ip_text :: "ip \<Rightarrow> string"

definition to4 :: "ip \<Rightarrow> ip option" where
  "to4 a =
     (if length a = 4 then Some a
      else if length a = 16 \<and> take 12 a = replicate 10 0 @ [255, 255] then Some (drop 12 a)
      else None)"

definition network_and_mask :: "ipnet \<Rightarrow> (ip \<times> bytes) option" where
  "network_and_mask n =
     (let a = (case to4 (net_ip n) of Some x \<Rightarrow> x | None \<Rightarrow> net_ip n);
          m = net_mask n
      in if length a \<noteq> 4 \<and> length a \<noteq> 16 then None
         else if length m = 4 then (if length a = 4 then Some (a, m) else None)
         else if length m = 16 then Some (a, if length a = 4 then drop 12 m else m)
         else None)"

definition net_contains :: "ipnet \<Rightarrow> ip \<Rightarrow> bool" where
  "net_contains n a =
     (let (nn, m) = (case network_and_mask n of Some x \<Rightarrow> x | None \<Rightarrow> ([], []));
          x = (case to4 a of Some y \<Rightarrow> y | None \<Rightarrow> a)
      in length x = length nn \<and>
         list_all (\<lambda>i. and (nn ! i) (m ! i) = and (x ! i) (m ! i)) [0..<length x])"

definition ip_in_cidrs :: "ip \<Rightarrow> ipnet list \<Rightarrow> bool" where
  "ip_in_cidrs a cidrs = list_ex (\<lambda>c. net_contains c a) cidrs"

text \<open>The right-to-left walk: the first hop that parses and is not a trusted proxy.\<close>

fun first_untrusted :: "net_ops \<Rightarrow> ipnet list \<Rightarrow> string list \<Rightarrow> string option" where
  "first_untrusted nt tp [] = None"
| "first_untrusted nt tp (h # hs) =
     (case parse_ip nt (trim_space h) of
        None \<Rightarrow> first_untrusted nt tp hs
      | Some a \<Rightarrow> if ip_in_cidrs a tp then first_untrusted nt tp hs else Some (ip_text nt a))"

text \<open>\<open>trusted\<close> is the process-wide set: \<open>None\<close> before \<open>InitTrustedProxies\<close>.\<close>

definition client_ip :: "net_ops \<Rightarrow> ipnet list option \<Rightarrow> request \<Rightarrow> string" where
  "client_ip nt trusted r =
     (let peer_host = (case split_host_port (rq_remote_addr r) of None \<Rightarrow> rq_remote_addr r | Some h \<Rightarrow> h)
      in case trusted of
           None \<Rightarrow> peer_host
         | Some tp \<Rightarrow>
             (case parse_ip nt peer_host of
                None \<Rightarrow> peer_host
              | Some peer \<Rightarrow>
                  if tp = [] \<or> \<not> ip_in_cidrs peer tp then peer_host
                  else
                    let xff = rq_header r ''X-Forwarded-For'';
                        hops = split_on (CHR '','') xff
                    in if xff = '''' then peer_host
                       else case first_untrusted nt tp (rev hops) of
                              Some c \<Rightarrow> c
                            | None \<Rightarrow>
                                (case find (\<lambda>h. trim_space h \<noteq> '''') hops of
                                   Some h \<Rightarrow> trim_space h
                                 | None \<Rightarrow> peer_host)))"

section \<open>Keyed e-mail hashes\<close>

text \<open>\<open>HashEmailBytes\<close> and \<open>HashEmail\<close>: a panic before \<open>InitEmailHash\<close> installed the key.\<close>

definition hash_email_bytes ::
  "(bytes \<Rightarrow> bytes \<Rightarrow> digest) \<Rightarrow> (string \<Rightarrow> string) \<Rightarrow> bytes option \<Rightarrow> string \<Rightarrow> panic + bytes" where
  "hash_email_bytes hmac ul key email =
     (case key of
        None \<Rightarrow> Inl (Panic ''httpx: HashEmailBytes called before InitEmailHash'')
      | Some k \<Rightarrow> Inr (digest_bytes (hmac k (bytes_of_string (to_lower ul (trim_space email))))))"

definition hash_email ::
  "(bytes \<Rightarrow> bytes \<Rightarrow> digest) \<Rightarrow> (string \<Rightarrow> string) \<Rightarrow> bytes option \<Rightarrow> string \<Rightarrow> panic + string" where
  "hash_email hmac ul key email =
     (case key of
        None \<Rightarrow> Inl (Panic ''httpx: HashEmail called before InitEmailHash'')
      | Some k \<Rightarrow> Inr (hex_encode (digest_bytes (hmac k (bytes_of_string (to_lower ul (trim_space email)))))))"

section \<open>The access log\<close>

text \<open>
  \<open>Logging\<close>: one line per request that returns; a panic passes by. \<open>emit\<close> appends the line to
  the log in the program's state. The status is the one \<open>statusWriter\<close> has recorded. Byte count and
  duration are not part of the model.
\<close>

record access_line =
  al_request_id :: string
  al_method :: string
  al_path :: string
  al_status :: int
  al_remote :: string

definition watched_status :: "rw \<Rightarrow> int" where
  "watched_status w = (case rw_watch w of None \<Rightarrow> 200 | Some sw \<Rightarrow> sw_status sw)"

definition logging ::
  "(access_line \<Rightarrow> 's \<Rightarrow> 's) \<Rightarrow> net_ops \<Rightarrow> ipnet list option \<Rightarrow> 's middleware" where
  "logging emit nt trusted next_h r sw = (case sw of (s, w) \<Rightarrow>
     (case next_h r (s, w\<lparr>rw_watch := Some new_status_writer\<rparr>) of
        Panicked (s', w') \<Rightarrow> Panicked (s', w'\<lparr>rw_watch := rw_watch w\<rparr>)
      | Done (s', w') \<Rightarrow>
          Done (emit \<lparr>al_request_id = request_id_from_context r, al_method = rq_method r,
                      al_path = rq_path r, al_status = watched_status w', al_remote = client_ip nt trusted r\<rparr> s',
                w'\<lparr>rw_watch := rw_watch w\<rparr>)))"

section \<open>Rate limiting (ratelimit.go)\<close>

text \<open>
  \<open>httprate\<close> is a parameter: for a limit, a window and a key, whether this request is over the
  limit, and the writer with the rate-limit headers it adds. A limit that is not positive
  disables it.
\<close>

type_synonym limiter = "int \<Rightarrow> time \<Rightarrow> string \<Rightarrow> rw \<Rightarrow> bool \<times> rw"

definition rate_limit ::
  "limiter \<Rightarrow> net_ops \<Rightarrow> ipnet list option \<Rightarrow> int \<Rightarrow> time \<Rightarrow> 's middleware" where
  "rate_limit lim nt trusted n window next_h r sw =
     (if n \<le> 0 then next_h r sw
      else case sw of (s, w) \<Rightarrow>
        (case lim n window (client_ip nt trusted r) w of
           (True, w') \<Rightarrow>
             Done (s, write_json 429
               (JObj [(''code'', JStr ''rate_limited''), (''message'', JStr ''too many requests'')])
               (set_header ''Retry-After'' ''60'' w'))
         | (False, w') \<Rightarrow> next_h r (s, w')))"

section \<open>Lemmas\<close>

named_theorems rw_simps \<open>what the response operations leave in the writer\<close>

lemma rw_sent_simps [rw_simps]:
  "rw_sent (set_header k v w) = rw_sent w"
  "rw_sent (write_header st w) = (case rw_sent w of None \<Rightarrow> Some (st, rw_header w) | Some x \<Rightarrow> Some x)"
  "rw_sent (write_body b w) = (case rw_sent w of None \<Rightarrow> Some (200, rw_header w) | Some x \<Rightarrow> Some x)"
  by (auto simp: set_header_def write_header_def write_body_def Let_def split: option.splits)

lemma rw_header_simps [rw_simps]:
  "rw_header (set_header k v w) = (rw_header w)(k \<mapsto> v)"
  "rw_header (write_header st w) = rw_header w"
  "rw_header (write_body b w) = rw_header w"
  by (auto simp: set_header_def write_header_def write_body_def Let_def)

lemma rw_body_simps [rw_simps]:
  "rw_body (set_header k v w) = rw_body w"
  "rw_body (write_header st w) = rw_body w"
  "rw_body (write_body b w) = rw_body w @ [b]"
  by (auto simp: set_header_def write_header_def write_body_def Let_def)

lemma rw_watch_simps [rw_simps]:
  "rw_watch (set_header k v w) = rw_watch w"
  "rw_watch (write_header st w) = map_option (sw_write_header st) (rw_watch w)"
  "rw_watch (write_body b w) = rw_watch w"
  by (auto simp: set_header_def write_header_def write_body_def Let_def)

lemma new_rw_simps [simp]:
  "rw_sent new_rw = None" "rw_header new_rw = Map.empty" "rw_body new_rw = []"
  by (simp_all add: new_rw_def)

lemma rw_status_set_header [rw_simps]: "rw_status (set_header k v w) = rw_status w"
  by (simp add: rw_status_def rw_simps)

lemma write_json_simps [rw_simps]:
  "rw_body (write_json st v w) = rw_body w @ [JsonBody v]"
  "rw_sent (write_json st v w) \<noteq> None"
  "rw_sent w = None \<Longrightarrow> rw_status (write_json st v w) = (if st = 0 then 200 else st)"
  "rw_sent w \<noteq> None \<Longrightarrow> rw_status (write_json st v w) = rw_status w"
  by (auto simp: write_json_def rw_simps rw_status_def split: option.splits)

lemma write_html_simps [rw_simps]:
  "rw_body (write_html st b w) = rw_body w @ [HtmlBody b]"
  "rw_sent (write_html st b w) \<noteq> None"
  "rw_sent w = None \<Longrightarrow> rw_status (write_html st b w) = (if st = 0 then 200 else st)"
  by (auto simp: write_html_def rw_simps rw_status_def split: option.splits)

lemma write_error_app [rw_simps]:
  "app_as e = Some (st, c, m) \<Longrightarrow>
     write_error r e w = write_json st (error_envelope c m (request_id_from_context r)) w"
  "app_as e = None \<Longrightarrow>
     write_error r e w = write_json 500 (error_envelope CodeInternal ''internal'' (request_id_from_context r)) w"
  by (simp_all add: write_error_def)

lemma first_untrusted_append:
  "first_untrusted nt tp (xs @ ys) =
     (case first_untrusted nt tp xs of Some c \<Rightarrow> Some c | None \<Rightarrow> first_untrusted nt tp ys)"
  by (induction xs) (auto split: option.splits)

lemma hex_encode_valid: "set (hex_encode bs) \<subseteq> set ''0123456789abcdef''" "length (hex_encode bs) = 2 * length bs"
proof -
  have "unat b div 16 < 16" for b :: byte
  proof -
    have "unat b < 256" using unsigned_less [of b] by simp
    then show ?thesis by (simp add: less_mult_imp_div_less)
  qed
  then have hd: "hex_digit (unat b div 16) \<in> set ''0123456789abcdef''"
    "hex_digit (unat b mod 16) \<in> set ''0123456789abcdef''" for b :: byte
    by (simp_all only: nth_hex_digit mod_less_divisor zero_less_numeral)
  show "set (hex_encode bs) \<subseteq> set ''0123456789abcdef''"
    using hd unfolding hex_encode_def by (induction bs) auto
  show "length (hex_encode bs) = 2 * length bs"
    unfolding hex_encode_def by (induction bs) auto
qed

lemma generated_id_valid: "length bs = 16 \<Longrightarrow> valid_request_id (hex_encode bs)"
proof -
  assume l: "length bs = 16"
  have "\<forall>c\<in>set ''0123456789abcdef''. 32 \<le> (of_char c :: nat) \<and> (of_char c :: nat) \<noteq> 127" by simp
  with hex_encode_valid [of bs] l show ?thesis
    by (auto simp: valid_request_id_def list_all_iff)
qed

section \<open>Properties\<close>

text \<open>
  No cause reaches the client: an application error's envelope has its code and message
  and nothing of the cause that \<open>Wrap\<close> attached, also when it is found inside a wrapped
  error; and an error of the database or of any library becomes the generic envelope.
\<close>

theorem write_error_hides_cause:
  "write_error r (AppError st c m cause) w = write_error r (AppError st c m None) w \<and>
   write_error r (Wrapped p (AppError st c m cause)) w = write_error r (AppError st c m None) w \<and>
   map_option (\<lambda>x. write_error r x w) (app_wrap (Some e) err) = Some (write_error r e w) \<and>
   write_error r (Wrapped p (PgError k)) w = write_error r (internal_error ''internal'') w \<and>
   write_error r (Msg p) w = write_error r (internal_error ''internal'') w"
proof (intro conjI)
  show "map_option (\<lambda>x. write_error r x w) (app_wrap (Some e) err) = Some (write_error r e w)"
    by (cases "(Some e, err)" rule: app_wrap.cases) (simp_all add: write_error_def)
qed (simp_all add: write_error_def internal_error_def)

text \<open>
  The recovery middleware never lets a panic through, and a handler that panics before
  it committed a status is answered with status 500 and the generic envelope.
\<close>

theorem recovered_panic_is_generic_500:
  assumes "h r (s, w0) = Panicked (s', w)" and "rw_sent w = None"
  shows "\<exists>w'. recover_panics h r (s, w0) = Done (s', w') \<and> rw_status w' = 500 \<and>
    rw_body w' = rw_body w @ [JsonBody (error_envelope CodeInternal ''internal'' (request_id_from_context r))]"
  using assms by (simp add: recover_panics_def rw_simps)

theorem recovered_panic_is_generic_500_witness:
  "\<exists>w'. recover_panics (\<lambda>r sw. Panicked sw) (undefined :: request) (0 :: nat, new_rw) = Done (0, w') \<and>
     rw_status w' = 500 \<and>
     rw_body w' = rw_body new_rw @
       [JsonBody (error_envelope CodeInternal ''internal'' (request_id_from_context (undefined :: request)))]"
  by (rule recovered_panic_is_generic_500) simp_all

text \<open>
  Without a trusted peer the forwarded header is ignored: if no proxy is configured, or
  the TCP peer is not one of them, the client address is the peer's whatever headers it sent.
\<close>

theorem untrusted_peer_header_ignored:
  assumes "trusted = None \<or> trusted = Some [] \<or>
      (\<exists>tp. trusted = Some tp \<and>
        (\<forall>a. parse_ip nt (case split_host_port (rq_remote_addr r) of None \<Rightarrow> rq_remote_addr r | Some h \<Rightarrow> h) = Some a
          \<longrightarrow> \<not> ip_in_cidrs a tp))"
  shows "client_ip nt trusted (r\<lparr>rq_header := hs\<rparr>) =
     (case split_host_port (rq_remote_addr r) of None \<Rightarrow> rq_remote_addr r | Some h \<Rightarrow> h)"
  using assms by (auto simp: client_ip_def Let_def split: option.splits)

definition sample_net :: net_ops where
  "sample_net = \<lparr>parse_ip = (\<lambda>s. if s = ''10.0.0.1'' then Some [10, 0, 0, 1]
                              else if s = ''9.9.9.9'' then Some [9, 9, 9, 9] else None),
    ip_text = (\<lambda>a. if a = [9, 9, 9, 9] then ''9.9.9.9'' else ''10.0.0.1'')\<rparr>"

definition sample_request :: request where
  "sample_request = \<lparr>rq_method = ''GET'', rq_path = ''/'', rq_header = (\<lambda>_. ''''), rq_query = (\<lambda>_. ''''),
     rq_form = (\<lambda>_. ''''), rq_url_param = (\<lambda>_. ''''), rq_body = '''', rq_remote_addr = ''9.9.9.9:80'',
     rq_request_id = None, rq_claims = None\<rparr>"

theorem untrusted_peer_header_ignored_witness:
  "client_ip sample_net (Some [\<lparr>net_ip = [10, 0, 0, 0], net_mask = [255, 0, 0, 0]\<rparr>])
     (sample_request\<lparr>rq_header := (\<lambda>_. ''1.2.3.4'')\<rparr>) = ''9.9.9.9''"
proof -
  have host: "split_host_port (rq_remote_addr sample_request) = Some ''9.9.9.9''"
    by (simp add: sample_request_def split_host_port_def last_index_of_def index_of_def)
  have out: "\<not> ip_in_cidrs [9, 9, 9, 9] [\<lparr>net_ip = [10, 0, 0, 0], net_mask = [255, 0, 0, 0]\<rparr>]"
    by (simp add: ip_in_cidrs_def net_contains_def network_and_mask_def to4_def upt_rec)
  show ?thesis
    using out
    by (subst untrusted_peer_header_ignored) (auto simp: host sample_net_def)
qed

text \<open>
  C39: behind a trusted peer the forged part of the header cannot choose the address: if some
  hop that the proxies appended (right of a comma) parses and is not a trusted proxy, then
  whatever stands left of that comma does not change the client address.
\<close>

theorem forged_prefix_ignored:
  assumes "first_untrusted nt tp (rev (split_on (CHR '','') appended)) = Some c"
    and "parse_ip nt (case split_host_port (rq_remote_addr r) of None \<Rightarrow> rq_remote_addr r | Some h \<Rightarrow> h) = Some peer"
    and "ip_in_cidrs peer tp" and "rq_header r ''X-Forwarded-For'' = forged @ CHR '','' # appended"
  shows "client_ip nt (Some tp) r = c"
proof -
  have "tp \<noteq> []" using assms(3) by (auto simp: ip_in_cidrs_def)
  moreover have "first_untrusted nt tp (rev (split_on (CHR '','') (forged @ CHR '','' # appended))) = Some c"
    by (simp only: split_on_append_sep rev_append first_untrusted_append assms(1)) simp
  ultimately show ?thesis
    using assms(2,3,4) by (simp add: client_ip_def)
qed

theorem forged_prefix_ignored_witness:
  "client_ip sample_net (Some [\<lparr>net_ip = [10, 0, 0, 0], net_mask = [255, 0, 0, 0]\<rparr>])
     (sample_request\<lparr>rq_remote_addr := ''10.0.0.1:80'', rq_header := (\<lambda>_. ''6.6.6.6,9.9.9.9,10.0.0.1'')\<rparr>) = ''9.9.9.9''"
proof -
  let ?tp = "[\<lparr>net_ip = [10, 0, 0, 0], net_mask = [255, 0, 0, 0]\<rparr>] :: ipnet list"
  let ?r = "sample_request\<lparr>rq_remote_addr := ''10.0.0.1:80'', rq_header := (\<lambda>_. ''6.6.6.6,9.9.9.9,10.0.0.1'')\<rparr>"
  have trim: "trim_space ''9.9.9.9'' = ''9.9.9.9''" "trim_space ''10.0.0.1'' = ''10.0.0.1''"
    by (simp_all add: trim_space_visible visible_def)
  have nets: "\<not> ip_in_cidrs [9, 9, 9, 9] ?tp" "ip_in_cidrs [10, 0, 0, 1] ?tp"
    by (simp_all add: ip_in_cidrs_def net_contains_def network_and_mask_def to4_def upt_rec)
  have "split_host_port ''10.0.0.1:80'' = Some ''10.0.0.1''"
    by (simp add: split_host_port_def last_index_of_def index_of_def)
  then show ?thesis
    using nets
    by (intro forged_prefix_ignored [where r = ?r and appended = "''9.9.9.9,10.0.0.1''" and forged = "''6.6.6.6''"
          and peer = "[10, 0, 0, 1]"]) (simp_all add: sample_net_def sample_request_def trim)
qed

text \<open>
  The CORS middleware grants an origin exactly if its normalised form is in the
  normalised allowlist, echoes the origin of the request itself, never allows credentials,
  and answers every preflight with 204 without running the handler behind it.
\<close>

theorem cors_allowlist:
  "\<exists>w'. cors ul allowed next_h r (s, w) =
       (if rq_method r = ''OPTIONS'' then Done (s, write_header 204 w') else next_h r (s, w')) \<and>
     rw_header w' ''Access-Control-Allow-Origin'' =
       (if norm_origin ul (rq_header r ''Origin'') \<noteq> '''' \<and>
           norm_origin ul (rq_header r ''Origin'') \<in> norm_origin ul ` set allowed
        then Some (rq_header r ''Origin'') else rw_header w ''Access-Control-Allow-Origin'') \<and>
     rw_header w' ''Access-Control-Allow-Credentials'' = rw_header w ''Access-Control-Allow-Credentials'' \<and>
     rw_sent w' = rw_sent w \<and> rw_body w' = rw_body w"
  by (rule exI [of _ "cors_headers ul allowed r w"])
    (simp add: cors_def cors_headers_def Let_def rw_simps)

text \<open>
  Every request gets a valid id: the middleware keeps a well-formed inbound id and
  otherwise makes one of 16 random bytes, and puts the same id in the context and in the
  response header.
\<close>

theorem request_id_valid:
  assumes "length random = 16"
  shows "\<exists>rid. valid_request_id rid \<and>
    request_id random next_h r (s, w) =
      next_h (r\<lparr>rq_request_id := Some rid\<rparr>) (s, set_header ''X-Request-Id'' rid w) \<and>
    (valid_request_id (rq_header r ''X-Request-Id'') \<longrightarrow> rid = rq_header r ''X-Request-Id'')"
  using generated_id_valid [OF assms] by (auto simp: request_id_def Let_def)

theorem request_id_valid_witness:
  "\<exists>rid. valid_request_id rid \<and>
    request_id (replicate 16 0) (\<lambda>r sw. Done sw) sample_request ((), new_rw) =
      Done ((), set_header ''X-Request-Id'' rid new_rw)"
proof -
  have "length (replicate 16 0 :: bytes) = 16" by simp
  from request_id_valid [OF this, of "\<lambda>r sw. Done sw" sample_request "()" new_rw]
  show ?thesis by blast
qed

text \<open>
  Redaction removes the arguments of a stack frame: a line that is a function name
  without parentheses followed by an argument list loses the whole list, so two frames of
  the same function read the same whatever was on the stack. For a method with a pointer
  receiver the name is cut at the receiver's parenthesis as well.
\<close>

theorem redact_args_hides_arguments:
  assumes "name \<noteq> []" and "\<not> re_space (hd name)" and "CHR ''('' \<notin> set (tl name)"
  shows "redact_args (name @ ''('' @ args @ '')'') = name @ ''(...)'' \<and>
    redact_args ''main.(*Server).Handle(0xc000)'' = ''main.(...)''"
proof -
  obtain c cs where n: "name = c # cs" using assms(1) by (cases name) auto
  have "takeWhile (\<lambda>x. x \<noteq> CHR ''('') (cs @ CHR ''('' # rest) = cs"
    "dropWhile (\<lambda>x. x \<noteq> CHR ''('') (cs @ CHR ''('' # rest) = CHR ''('' # rest" for rest
    using assms(3) n by (auto simp: takeWhile_append dropWhile_append takeWhile_eq_all_conv dropWhile_eq_Nil_conv)
  with assms(2) n show ?thesis by (simp add: redact_args_def re_space_def)
qed

theorem redact_args_hides_arguments_witness:
  "redact_args ''panic(0x1, 0x2)'' = ''panic(...)''"
  using redact_args_hides_arguments [of "''panic''" "''0x1, 0x2''"] by (simp add: re_space_def)

text \<open>
  Latent: for a handler that writes a body before the status, the access log shows that status
  although the client has been sent 200. (No handler of the program does this.)
\<close>

theorem logged_status_may_differ:
  "\<exists>w'. logging (\<lambda>l ls. ls @ [l]) nt trusted (\<lambda>r (s, w). Done (s, write_header st (write_body b w))) r ([], new_rw) =
     Done ([\<lparr>al_request_id = request_id_from_context r, al_method = rq_method r, al_path = rq_path r,
             al_status = st, al_remote = client_ip nt trusted r\<rparr>], w') \<and> rw_status w' = 200"
  by (simp add: logging_def watched_status_def rw_simps new_status_writer_def sw_write_header_def rw_status_def)

end
