(* ===== verification/Tables.thy ===== *)
theory Tables
  imports Http
begin

text \<open>
  The database state: the rows of \<open>public.subscribers\<close>, \<open>public.notifications\<close>,
  \<open>public.email_log\<close> and \<open>public.admins\<close> (with the users they refer to), as
  \<open>internal/db/dbq/models.go\<close> and the migrations declare them, the constraints the
  migrations put on them, and the invariant that every statement keeps. Text equality on a
  \<open>citext\<close> column compares lower-cased text; the server's \<open>lower\<close> and its reading of a uuid
  are parameters.
\<close>

record pg_ops =
  pg_lower :: "string \<Rightarrow> string"
  pg_uuid :: "string \<Rightarrow> uuid option"

section \<open>Subscribers\<close>

datatype sub_status = Pending | Confirmed | Unsubscribed

fun sub_status_text :: "sub_status \<Rightarrow> string" where
  "sub_status_text Pending = ''pending''"
| "sub_status_text Confirmed = ''confirmed''"
| "sub_status_text Unsubscribed = ''unsubscribed''"

lemma sub_status_text_inj [simp]: "sub_status_text a = sub_status_text b \<longleftrightarrow> a = b"
  by (cases a; cases b) auto

text \<open>The life cycle of a subscription only moves forward in this order.\<close>

fun sub_rank :: "sub_status \<Rightarrow> nat" where
  "sub_rank Pending = 0"
| "sub_rank Confirmed = 1"
| "sub_rank Unsubscribed = 2"

lemma sub_rank_inj: "sub_rank a = sub_rank b \<Longrightarrow> a = b"
  by (cases a; cases b) auto

instantiation sub_status :: linorder
begin

definition less_eq_sub_status :: "sub_status \<Rightarrow> sub_status \<Rightarrow> bool" where
  "less_eq_sub_status a b \<longleftrightarrow> sub_rank a \<le> sub_rank b"

definition less_sub_status :: "sub_status \<Rightarrow> sub_status \<Rightarrow> bool" where
  "less_sub_status a b \<longleftrightarrow> sub_rank a < sub_rank b"

instance
  by standard (auto simp: less_eq_sub_status_def less_sub_status_def intro: sub_rank_inj)

end

lemma sub_status_order [simp]:
  "Pending \<le> s" "s \<le> Unsubscribed" "s \<le> Pending \<longleftrightarrow> s = Pending"
  "Unsubscribed \<le> s \<longleftrightarrow> s = Unsubscribed" "\<not> Confirmed \<le> Pending"
  by (cases s; simp add: less_eq_sub_status_def)+

record subscriber =
  s_id :: uuid
  s_email :: string
  s_status :: sub_status
  s_token_hash :: "bytes option"
  s_token_expires :: "time option"
  s_confirmed_at :: "time option"
  s_unsubscribed_at :: "time option"
  s_source :: "string option"
  s_created_at :: time
  s_updated_at :: time
  s_user_id :: "uuid option"

text \<open>The table constraint \<open>subscribers_pending_clean\<close>.\<close>

definition pending_clean_constraint :: "subscriber \<Rightarrow> bool" where
  "pending_clean_constraint r \<longleftrightarrow>
     s_status r = Pending \<and> s_confirmed_at r = None \<and> s_unsubscribed_at r = None \<or>
     s_status r = Confirmed \<and> s_confirmed_at r \<noteq> None \<and> s_unsubscribed_at r = None \<or>
     s_status r = Unsubscribed \<and> s_unsubscribed_at r \<noteq> None"

section \<open>Notifications and the e-mail log\<close>

datatype notif_status = NPending | NSending | NSent | NFailed | NDead

fun notif_status_text :: "notif_status \<Rightarrow> string" where
  "notif_status_text NPending = ''pending''"
| "notif_status_text NSending = ''sending''"
| "notif_status_text NSent = ''sent''"
| "notif_status_text NFailed = ''failed''"
| "notif_status_text NDead = ''dead''"

lemma notif_status_text_inj [simp]: "notif_status_text a = notif_status_text b \<longleftrightarrow> a = b"
  by (cases a; cases b) auto

definition terminal_status :: "notif_status \<Rightarrow> bool" where
  "terminal_status s \<longleftrightarrow> s = NSent \<or> s = NFailed \<or> s = NDead"

record notification =
  n_id :: uuid
  n_kind :: string
  n_to_email :: string
  n_payload :: json
  n_status :: notif_status
  n_attempts :: int
  n_last_error :: "string option"
  n_next_attempt_at :: time
  n_locked_until :: "time option"
  n_created_at :: time
  n_updated_at :: time

text \<open>\<open>email_log.status\<close> has a check constraint of its own: sent, failed or dead.\<close>

datatype log_status = LSent | LFailed | LDead

fun log_status_text :: "log_status \<Rightarrow> string" where
  "log_status_text LSent = ''sent''"
| "log_status_text LFailed = ''failed''"
| "log_status_text LDead = ''dead''"

record email_log =
  l_id :: uuid
  l_notification_id :: "uuid option"
  l_to_email_hash :: bytes
  l_provider :: string
  l_provider_message_id :: "string option"
  l_status :: log_status
  l_error :: "string option"
  l_created_at :: time

record admin =
  a_user_id :: uuid
  a_created_at :: time

record db =
  db_subscribers :: "subscriber list"
  db_notifications :: "notification list"
  db_email_log :: "email_log list"
  db_admins :: "admin list"
  db_users :: "uuid list"

definition empty_db :: "uuid list \<Rightarrow> db" where
  "empty_db users = \<lparr>db_subscribers = [], db_notifications = [], db_email_log = [], db_admins = [],
     db_users = users\<rparr>"

section \<open>The invariant\<close>

text \<open>
  Primary keys and the unique e-mail, the check constraint, the foreign keys, and what the
  partial index on the token hash relies on: only a pending row carries a confirm token.
\<close>

definition subscriber_ok :: "db \<Rightarrow> subscriber \<Rightarrow> bool" where
  "subscriber_ok d r \<longleftrightarrow>
     pending_clean_constraint r \<and>
     (s_status r \<noteq> Pending \<longrightarrow> s_token_hash r = None \<and> s_token_expires r = None) \<and>
     (\<forall>u. s_user_id r = Some u \<longrightarrow> u \<in> set (db_users d))"

definition email_log_ok :: "db \<Rightarrow> email_log \<Rightarrow> bool" where
  "email_log_ok d l \<longleftrightarrow>
     (\<forall>n. l_notification_id l = Some n \<longrightarrow> n \<in> n_id ` set (db_notifications d))"

definition db_ok :: "pg_ops \<Rightarrow> db \<Rightarrow> bool" where
  "db_ok pg d \<longleftrightarrow>
     distinct (map s_id (db_subscribers d)) \<and>
     distinct (map (\<lambda>r. pg_lower pg (s_email r)) (db_subscribers d)) \<and>
     (\<forall>r\<in>set (db_subscribers d). subscriber_ok d r) \<and>
     distinct (map n_id (db_notifications d)) \<and>
     (\<forall>r\<in>set (db_notifications d). 0 \<le> n_attempts r) \<and>
     distinct (map l_id (db_email_log d)) \<and>
     (\<forall>l\<in>set (db_email_log d). email_log_ok d l) \<and>
     distinct (map a_user_id (db_admins d)) \<and>
     (\<forall>a\<in>set (db_admins d). a_user_id a \<in> set (db_users d))"

lemma db_ok_empty: "db_ok pg (empty_db users)"
  by (simp add: db_ok_def empty_db_def)

lemma db_ok_dest:
  assumes "db_ok pg d"
  shows "distinct (map s_id (db_subscribers d))"
    and "distinct (map (\<lambda>r. pg_lower pg (s_email r)) (db_subscribers d))"
    and "r \<in> set (db_subscribers d) \<Longrightarrow> subscriber_ok d r"
    and "distinct (map n_id (db_notifications d))"
    and "l \<in> set (db_email_log d) \<Longrightarrow> email_log_ok d l"
  using assms by (auto simp: db_ok_def)

text \<open>
  The two parts of the state the statements write: replacing the subscriber rows or the
  notification rows keeps the invariant if the new rows are fine.
\<close>

lemma db_ok_subscribers:
  assumes "db_ok pg d" and "distinct (map s_id rs)" and "distinct (map (\<lambda>r. pg_lower pg (s_email r)) rs)"
    and "\<And>r. r \<in> set rs \<Longrightarrow> subscriber_ok d r"
  shows "db_ok pg (d\<lparr>db_subscribers := rs\<rparr>)"
  using assms by (auto simp: db_ok_def subscriber_ok_def email_log_ok_def)

lemma db_ok_notifications:
  assumes "db_ok pg d" and "distinct (map n_id ns)" and "\<And>r. r \<in> set ns \<Longrightarrow> 0 \<le> n_attempts r"
    and "n_id ` set (db_notifications d) \<subseteq> n_id ` set ns"
  shows "db_ok pg (d\<lparr>db_notifications := ns\<rparr>)"
  using assms by (auto simp: db_ok_def subscriber_ok_def email_log_ok_def)

lemma db_ok_email_log:
  assumes "db_ok pg d" and "l_id l \<notin> l_id ` set (db_email_log d)" and "email_log_ok d l"
  shows "db_ok pg (d\<lparr>db_email_log := db_email_log d @ [l]\<rparr>)"
  using assms by (auto simp: db_ok_def subscriber_ok_def email_log_ok_def)

end
