(* ===== verification/Access.thy ===== *)
theory Access
  imports Tables
begin

text \<open>
  Who a statement runs as, and what the grants and row-level security policies of the
  migrations let that identity do. The policies are those in force after
  \<open>migrations/0006_audit_fixes.sql\<close>; every table forces row-level security, and only the
  service role bypasses it. How PostgreSQL combines policies is the documented rule: the
  permissive policies of a command are joined by "or", no policy means no row, and a
  statement that reads the rows it writes (\<open>RETURNING\<close>, \<open>ON CONFLICT DO UPDATE\<close>) must pass the
  \<open>SELECT\<close> policies on those rows too, with an error otherwise.
\<close>

datatype db_role = Anon | Authenticated

text \<open>\<open>request.jwt.claims\<close>, as \<open>WithUser\<close> sets it.\<close>

record jwt_claims =
  j_role :: string
  j_sub :: "string option"
  j_email :: "string option"

datatype actor = ServiceRole | UserRole db_role jwt_claims

text \<open>
  The identity the policies see. \<open>auth.uid()\<close> is the \<open>sub\<close> claim read as a uuid, null when it
  is absent or empty and an error when it is no uuid; the policies for \<open>anon\<close> never call it.
\<close>

datatype ident = IdService | IdAnon | IdUser "uuid option" string

definition auth_uid :: "pg_ops \<Rightarrow> jwt_claims \<Rightarrow> gerror + uuid option" where
  "auth_uid pg cl =
     (case j_sub cl of
        None \<Rightarrow> Inr None
      | Some s \<Rightarrow> if s = '''' then Inr None
                  else (case pg_uuid pg s of
                          None \<Rightarrow> Inl (PgError InvalidTextRepresentation)
                        | Some u \<Rightarrow> Inr (Some u)))"

definition jwt_email :: "jwt_claims \<Rightarrow> string" where
  "jwt_email cl = (case j_email cl of None \<Rightarrow> '''' | Some e \<Rightarrow> e)"

fun identify :: "pg_ops \<Rightarrow> actor \<Rightarrow> gerror + ident" where
  "identify pg ServiceRole = Inr IdService"
| "identify pg (UserRole Anon cl) = Inr IdAnon"
| "identify pg (UserRole Authenticated cl) =
     (case auth_uid pg cl of Inl e \<Rightarrow> Inl e | Inr u \<Rightarrow> Inr (IdUser u (jwt_email cl)))"

section \<open>Policies on \<open>public.subscribers\<close>\<close>

text \<open>\<open>subscribers_insert_pending\<close>, and the same condition in \<open>subscribers_update_pending\<close>.\<close>

definition pending_only :: "subscriber \<Rightarrow> bool" where
  "pending_only r \<longleftrightarrow> s_status r = Pending \<and> s_confirmed_at r = None \<and> s_unsubscribed_at r = None"

fun insert_check :: "ident \<Rightarrow> subscriber \<Rightarrow> bool" where
  "insert_check IdService r = True"
| "insert_check IdAnon r = pending_only r"
| "insert_check (IdUser u e) r = pending_only r"

fun update_using :: "ident \<Rightarrow> subscriber \<Rightarrow> bool" where
  "update_using IdService r = True"
| "update_using IdAnon r = pending_only r"
| "update_using (IdUser u e) r = pending_only r"

fun update_check :: "ident \<Rightarrow> subscriber \<Rightarrow> bool" where
  "update_check IdService r = True"
| "update_check IdAnon r = pending_only r"
| "update_check (IdUser u e) r = pending_only r"

text \<open>\<open>EXISTS (SELECT 1 FROM public.admins a WHERE a.user_id = auth.uid())\<close>.\<close>

definition admin_uid :: "db \<Rightarrow> uuid option \<Rightarrow> bool" where
  "admin_uid d u = (case u of None \<Rightarrow> False | Some x \<Rightarrow> list_ex (\<lambda>a. a_user_id a = x) (db_admins d))"

text \<open>\<open>subscribers_select_owner\<close> or \<open>subscribers_select_admin\<close>; both are for \<open>authenticated\<close>.\<close>

fun select_owner :: "pg_ops \<Rightarrow> ident \<Rightarrow> subscriber \<Rightarrow> bool" where
  "select_owner pg (IdUser u e) r =
     (s_user_id r \<noteq> None \<and> s_user_id r = u \<or> pg_lower pg (s_email r) = pg_lower pg e)"
| "select_owner pg IdService r = False"
| "select_owner pg IdAnon r = False"

fun select_admin :: "db \<Rightarrow> ident \<Rightarrow> bool" where
  "select_admin d (IdUser u e) = admin_uid d u"
| "select_admin d IdService = False"
| "select_admin d IdAnon = False"

definition select_subscriber :: "pg_ops \<Rightarrow> db \<Rightarrow> ident \<Rightarrow> subscriber \<Rightarrow> bool" where
  "select_subscriber pg d i r \<longleftrightarrow> i = IdService \<or> select_owner pg i r \<or> select_admin d i"

section \<open>Policies on the other tables\<close>

text \<open>
  \<open>notifications\<close> and \<open>email_log\<close>: reading is granted to \<open>authenticated\<close> and the policies show
  the rows to admins only; no write is granted to either user role, but the admin \<open>DELETE\<close> on
  the log. \<open>admins\<close>: \<open>authenticated\<close> sees its own row.
\<close>

definition may_read_internal :: "ident \<Rightarrow> bool" where
  "may_read_internal i \<longleftrightarrow> i \<noteq> IdAnon"

definition select_internal :: "db \<Rightarrow> ident \<Rightarrow> bool" where
  "select_internal d i \<longleftrightarrow> i = IdService \<or> select_admin d i"

fun select_admin_row :: "ident \<Rightarrow> admin \<Rightarrow> bool" where
  "select_admin_row IdService a = True"
| "select_admin_row IdAnon a = False"
| "select_admin_row (IdUser u e) a = (Some (a_user_id a) = u)"

section \<open>Facts about the policies\<close>

lemma select_subscriber_simps [simp]:
  "select_subscriber pg d IdService r"
  "\<not> select_subscriber pg d IdAnon r"
  by (simp_all add: select_subscriber_def)

lemma user_update_pending:
  "i \<noteq> IdService \<Longrightarrow> update_using i r \<longleftrightarrow> pending_only r"
  "i \<noteq> IdService \<Longrightarrow> update_check i r \<longleftrightarrow> pending_only r"
  "i \<noteq> IdService \<Longrightarrow> insert_check i r \<longleftrightarrow> pending_only r"
  by (cases i; simp)+

lemma identify_user: "identify pg (UserRole r cl) = Inr i \<Longrightarrow> i \<noteq> IdService"
  by (cases r) (auto split: sum.splits)

lemma select_admin_subqueryless:
  "select_admin d (IdUser u e) \<longleftrightarrow> (\<exists>a\<in>set (db_admins d). select_admin_row (IdUser u e) a)"
  by (auto simp: admin_uid_def list_ex_iff split: option.splits)

end
