(* ===== verification/Queries.thy ===== *)
theory Queries
  imports Access
begin

text \<open>
  \<open>internal/db/dbq\<close>: the generated query methods, each the SQL statement it sends, as a
  function of the database. A query runs in a context \<open>qctx\<close> that fixes the identity the
  policies see and the transaction's \<open>now()\<close>. It answers an error or a value with the new
  database; a \<open>:one\<close> query without a row is \<open>ErrNoRows\<close>.

  Orders that SQL leaves open are fixed: ties of \<open>ORDER BY\<close> keep table order, and a look-up
  that may match several rows takes the first.
\<close>

record qctx =
  q_pg :: pg_ops
  q_ident :: ident
  q_now :: time

type_synonym 'a query = "db \<Rightarrow> gerror + 'a \<times> db"

definition fk_user :: "db \<Rightarrow> uuid option \<Rightarrow> bool" where
  "fk_user d u = (case u of None \<Rightarrow> True | Some x \<Rightarrow> x \<in> set (db_users d))"

text \<open>\<open>LIMIT\<close> and \<open>OFFSET\<close>; a negative count is an error.\<close>

definition page :: "int \<Rightarrow> int \<Rightarrow> 'r list \<Rightarrow> gerror + 'r list" where
  "page lim offset rows =
     (if lim < 0 \<or> offset < 0 then Inl (PgError InvalidRowCount)
      else Inr (take (nat lim) (drop (nat offset) rows)))"

text \<open>
  A text argument must be well-formed UTF-8 without a zero byte; the server checks it when it
  reads the arguments, before anything else.
\<close>

definition pg_text :: "string \<Rightarrow> bool" where
  "pg_text s \<longleftrightarrow> utf8_valid s \<and> CHR 0x00 \<notin> set s"

definition with_text :: "string list \<Rightarrow> 'a query \<Rightarrow> 'a query" where
  "with_text ts stmt d = (if list_all pg_text ts then stmt d else Inl (PgError InvalidByteSequence))"

definition opt_text :: "string option \<Rightarrow> string list" where
  "opt_text t = (case t of None \<Rightarrow> [] | Some x \<Rightarrow> [x])"

section \<open>Subscribers (subscribers.sql.go)\<close>

record upsert_params =
  up_email :: string
  up_token_hash :: bytes
  up_expires :: time
  up_source :: "string option"
  up_user_id :: "uuid option"

text \<open>The row the \<open>INSERT\<close> proposes; \<open>id\<close> is what \<open>gen_random_uuid()\<close> returned.\<close>

definition proposed_row :: "qctx \<Rightarrow> uuid \<Rightarrow> upsert_params \<Rightarrow> subscriber" where
  "proposed_row q new_id p =
     \<lparr>s_id = new_id, s_email = up_email p, s_status = Pending,
      s_token_hash = Some (up_token_hash p), s_token_expires = Some (up_expires p),
      s_confirmed_at = None, s_unsubscribed_at = None, s_source = up_source p,
      s_created_at = q_now q, s_updated_at = q_now q, s_user_id = up_user_id p\<rparr>"

text \<open>The \<open>SET\<close> list of \<open>ON CONFLICT DO UPDATE\<close>.\<close>

definition refreshed_row :: "qctx \<Rightarrow> upsert_params \<Rightarrow> subscriber \<Rightarrow> subscriber" where
  "refreshed_row q p old = old\<lparr>
     s_token_hash := Some (up_token_hash p), s_token_expires := Some (up_expires p),
     s_source := (case s_source old of None \<Rightarrow> up_source p | Some x \<Rightarrow> Some x),
     s_user_id := (case s_user_id old of None \<Rightarrow> up_user_id p | Some x \<Rightarrow> Some x),
     s_updated_at := q_now q\<rparr>"

definition email_match :: "qctx \<Rightarrow> string \<Rightarrow> subscriber \<Rightarrow> bool" where
  "email_match q e r \<longleftrightarrow> pg_lower (q_pg q) (s_email r) = pg_lower (q_pg q) e"

text \<open>
  \<open>UpsertPendingSubscriber\<close>, in the server's order: the policies on the proposed row (it is
  returned, so the \<open>SELECT\<close> policies too), the conflict on the e-mail, the \<open>WHERE\<close> of the
  update (no row if it fails), the policies on the old and the new row, the foreign key.
\<close>

definition upsert_pending_subscriber :: "qctx \<Rightarrow> uuid \<Rightarrow> upsert_params \<Rightarrow> subscriber query" where
  "upsert_pending_subscriber q new_id p = with_text (up_email p # opt_text (up_source p)) (\<lambda>d.
     (let i = q_ident q;
          sees = select_subscriber (q_pg q) d i;
          new = proposed_row q new_id p
      in if \<not> (insert_check i new \<and> sees new) then Inl (PgError RowSecurityViolation)
         else case find (email_match q (up_email p)) (db_subscribers d) of
           None \<Rightarrow>
             if new_id \<in> s_id ` set (db_subscribers d) then Inl (PgError UniqueViolation)
             else if \<not> fk_user d (s_user_id new) then Inl (PgError ForeignKeyViolation)
             else Inr (new, d\<lparr>db_subscribers := db_subscribers d @ [new]\<rparr>)
         | Some old \<Rightarrow>
             if s_status old \<noteq> Pending then Inl (Sentinel ErrNoRows)
             else
               let upd = refreshed_row q p old
               in if \<not> (update_using i old \<and> sees old \<and> update_check i upd \<and> sees upd)
                  then Inl (PgError RowSecurityViolation)
                  else if s_user_id upd \<noteq> s_user_id old \<and> \<not> fk_user d (s_user_id upd)
                  then Inl (PgError ForeignKeyViolation)
                  else Inr (upd, d\<lparr>db_subscribers :=
                         update_where (\<lambda>r. r = old) (refreshed_row q p) (db_subscribers d)\<rparr>)))"

definition visible_subscribers :: "qctx \<Rightarrow> db \<Rightarrow> subscriber list" where
  "visible_subscribers q d = filter (select_subscriber (q_pg q) d (q_ident q)) (db_subscribers d)"

definition one_row :: "'r list \<Rightarrow> 'r query" where
  "one_row rows d = (case rows of [] \<Rightarrow> Inl (Sentinel ErrNoRows) | r # _ \<Rightarrow> Inr (r, d))"

definition get_subscriber_by_email :: "qctx \<Rightarrow> string \<Rightarrow> subscriber query" where
  "get_subscriber_by_email q e = with_text [e] (\<lambda>d.
     one_row (filter (email_match q e) (visible_subscribers q d)) d)"

definition get_subscriber_by_id :: "qctx \<Rightarrow> uuid \<Rightarrow> subscriber query" where
  "get_subscriber_by_id q k d = one_row (filter (\<lambda>r. s_id r = k) (visible_subscribers q d)) d"

definition get_subscriber_by_confirm_token_hash :: "qctx \<Rightarrow> bytes \<Rightarrow> subscriber query" where
  "get_subscriber_by_confirm_token_hash q h d =
     one_row (filter (\<lambda>r. s_token_hash r = Some h \<and> s_status r = Pending) (visible_subscribers q d)) d"

text \<open>An \<open>UPDATE\<close> of subscribers: rows the policies hide are skipped, a forbidden new row is an error.\<close>

definition exec_update_subscribers ::
  "qctx \<Rightarrow> (subscriber \<Rightarrow> bool) \<Rightarrow> (subscriber \<Rightarrow> subscriber) \<Rightarrow> int query" where
  "exec_update_subscribers q p f d =
     (let i = q_ident q;
          sees = select_subscriber (q_pg q) d i;
          hit = (\<lambda>r. p r \<and> update_using i r \<and> sees r)
      in if list_ex (\<lambda>r. hit r \<and> \<not> (update_check i (f r) \<and> sees (f r))) (db_subscribers d)
         then Inl (PgError RowSecurityViolation)
         else Inr (int (length (filter hit (db_subscribers d))),
                   d\<lparr>db_subscribers := update_where hit f (db_subscribers d)\<rparr>))"

definition confirmed_row :: "time \<Rightarrow> subscriber \<Rightarrow> subscriber" where
  "confirmed_row now r = r\<lparr>
     s_status := Confirmed,
     s_confirmed_at := (case s_confirmed_at r of None \<Rightarrow> Some now | Some t \<Rightarrow> Some t),
     s_token_hash := None, s_token_expires := None, s_updated_at := now\<rparr>"

definition confirm_subscriber_by_id :: "qctx \<Rightarrow> uuid \<Rightarrow> int query" where
  "confirm_subscriber_by_id q k =
     exec_update_subscribers q
       (\<lambda>r. s_id r = k \<and> (s_status r = Pending \<or> s_status r = Confirmed) \<and> s_unsubscribed_at r = None)
       (confirmed_row (q_now q))"

definition unsubscribed_row :: "time \<Rightarrow> subscriber \<Rightarrow> subscriber" where
  "unsubscribed_row now r = r\<lparr>
     s_status := Unsubscribed, s_unsubscribed_at := Some now,
     s_token_hash := None, s_token_expires := None, s_updated_at := now\<rparr>"

definition unsubscribe_by_id :: "qctx \<Rightarrow> uuid \<Rightarrow> int query" where
  "unsubscribe_by_id q k =
     exec_update_subscribers q (\<lambda>r. s_id r = k \<and> s_status r \<noteq> Unsubscribed) (unsubscribed_row (q_now q))"

definition status_filter :: "('s \<Rightarrow> string) \<Rightarrow> string option \<Rightarrow> 's \<Rightarrow> bool" where
  "status_filter txt f s = (case f of None \<Rightarrow> True | Some x \<Rightarrow> txt s = x)"

definition list_subscribers :: "qctx \<Rightarrow> int \<Rightarrow> int \<Rightarrow> string option \<Rightarrow> subscriber list query" where
  "list_subscribers q lim offset f = with_text (opt_text f) (\<lambda>d.
     case page lim offset (sort_key (\<lambda>r. - s_created_at r)
             (filter (\<lambda>r. status_filter sub_status_text f (s_status r)) (visible_subscribers q d))) of
        Inl e \<Rightarrow> Inl e
      | Inr rows \<Rightarrow> Inr (rows, d))"

definition count_subscribers :: "qctx \<Rightarrow> string option \<Rightarrow> int query" where
  "count_subscribers q f = with_text (opt_text f) (\<lambda>d.
     Inr (int (length (filter (\<lambda>r. status_filter sub_status_text f (s_status r)) (visible_subscribers q d))), d))"

section \<open>Notifications (notifications.sql.go)\<close>

text \<open>Only the service role may write; the user roles have no such grant.\<close>

definition service_only :: "qctx \<Rightarrow> 'a query \<Rightarrow> 'a query" where
  "service_only q stmt d = (if q_ident q = IdService then stmt d else Inl (PgError PermissionDenied))"

definition fresh_notification :: "qctx \<Rightarrow> uuid \<Rightarrow> string \<Rightarrow> string \<Rightarrow> json \<Rightarrow> notification" where
  "fresh_notification q new_id kind to_email payload =
     \<lparr>n_id = new_id, n_kind = kind, n_to_email = to_email, n_payload = payload, n_status = NPending,
      n_attempts = 0, n_last_error = None, n_next_attempt_at = q_now q, n_locked_until = None,
      n_created_at = q_now q, n_updated_at = q_now q\<rparr>"

definition enqueue_notification :: "qctx \<Rightarrow> uuid \<Rightarrow> string \<Rightarrow> string \<Rightarrow> json \<Rightarrow> uuid query" where
  "enqueue_notification q new_id kind to_email payload = with_text [kind, to_email] (service_only q (\<lambda>d.
     if new_id \<in> n_id ` set (db_notifications d) then Inl (PgError UniqueViolation)
     else Inr (new_id, d\<lparr>db_notifications :=
            db_notifications d @ [fresh_notification q new_id kind to_email payload]\<rparr>)))"

record claimed =
  cl_id :: uuid
  cl_kind :: string
  cl_to_email :: string
  cl_payload :: json
  cl_attempts :: int

definition claim_due_pred :: "time \<Rightarrow> notification \<Rightarrow> bool" where
  "claim_due_pred now r \<longleftrightarrow>
     n_status r = NPending \<and> n_next_attempt_at r \<le> now \<and>
     (case n_locked_until r of None \<Rightarrow> True | Some t \<Rightarrow> t \<le> now)"

definition leased_row :: "time \<Rightarrow> int \<Rightarrow> notification \<Rightarrow> notification" where
  "leased_row now lease r = r\<lparr>
     n_status := NSending, n_attempts := n_attempts r + 1,
     n_locked_until := Some (now + lease * second), n_updated_at := now\<rparr>"

definition claimed_of :: "notification \<Rightarrow> claimed" where
  "claimed_of r = \<lparr>cl_id = n_id r, cl_kind = n_kind r, cl_to_email = n_to_email r,
     cl_payload = n_payload r, cl_attempts = n_attempts r\<rparr>"

text \<open>\<open>skip\<close>: the ids of rows that other transactions have locked (\<open>FOR UPDATE SKIP LOCKED\<close>).\<close>

definition due_rows :: "time \<Rightarrow> uuid set \<Rightarrow> int \<Rightarrow> db \<Rightarrow> notification list" where
  "due_rows now skip lim d =
     take (nat lim) (sort_key n_next_attempt_at
       (filter (\<lambda>r. claim_due_pred now r \<and> n_id r \<notin> skip) (db_notifications d)))"

definition claim_due_notifications :: "qctx \<Rightarrow> uuid set \<Rightarrow> int \<Rightarrow> int \<Rightarrow> claimed list query" where
  "claim_due_notifications q skip lim lease = service_only q (\<lambda>d.
     if lim < 0 then Inl (PgError InvalidRowCount)
     else
       let due = due_rows (q_now q) skip lim d
       in Inr (map (\<lambda>r. claimed_of (leased_row (q_now q) lease r)) due,
               d\<lparr>db_notifications :=
                 update_where (\<lambda>r. n_id r \<in> n_id ` set due) (leased_row (q_now q) lease) (db_notifications d)\<rparr>))"

text \<open>The four updates by id; an id without a row updates nothing and is no error.\<close>

definition update_notification :: "qctx \<Rightarrow> uuid \<Rightarrow> (notification \<Rightarrow> notification) \<Rightarrow> unit query" where
  "update_notification q k f = service_only q (\<lambda>d.
     Inr ((), d\<lparr>db_notifications := update_where (\<lambda>r. n_id r = k) f (db_notifications d)\<rparr>))"

definition sent_row :: "time \<Rightarrow> notification \<Rightarrow> notification" where
  "sent_row now r = r\<lparr>n_status := NSent, n_locked_until := None, n_last_error := None, n_updated_at := now\<rparr>"

definition retry_row :: "time \<Rightarrow> time \<Rightarrow> string option \<Rightarrow> notification \<Rightarrow> notification" where
  "retry_row now next_at err r = r\<lparr>n_status := NPending, n_next_attempt_at := next_at,
     n_last_error := err, n_locked_until := None, n_updated_at := now\<rparr>"

definition failed_row :: "time \<Rightarrow> string option \<Rightarrow> notification \<Rightarrow> notification" where
  "failed_row now err r = r\<lparr>n_status := NFailed, n_locked_until := None, n_last_error := err, n_updated_at := now\<rparr>"

definition dead_row :: "time \<Rightarrow> string option \<Rightarrow> notification \<Rightarrow> notification" where
  "dead_row now err r = r\<lparr>n_status := NDead, n_locked_until := None, n_last_error := err, n_updated_at := now\<rparr>"

definition mark_notification_sent :: "qctx \<Rightarrow> uuid \<Rightarrow> unit query" where
  "mark_notification_sent q k = update_notification q k (sent_row (q_now q))"

definition schedule_notification_retry :: "qctx \<Rightarrow> uuid \<Rightarrow> time \<Rightarrow> string option \<Rightarrow> unit query" where
  "schedule_notification_retry q k next_at err =
     with_text (opt_text err) (update_notification q k (retry_row (q_now q) next_at err))"

definition mark_notification_failed :: "qctx \<Rightarrow> uuid \<Rightarrow> string option \<Rightarrow> unit query" where
  "mark_notification_failed q k err =
     with_text (opt_text err) (update_notification q k (failed_row (q_now q) err))"

definition mark_notification_dead :: "qctx \<Rightarrow> uuid \<Rightarrow> string option \<Rightarrow> unit query" where
  "mark_notification_dead q k err =
     with_text (opt_text err) (update_notification q k (dead_row (q_now q) err))"

definition visible_notifications :: "qctx \<Rightarrow> db \<Rightarrow> notification list" where
  "visible_notifications q d = (if select_internal d (q_ident q) then db_notifications d else [])"

definition recent_match :: "qctx \<Rightarrow> string \<Rightarrow> string \<Rightarrow> int \<Rightarrow> notification \<Rightarrow> bool" where
  "recent_match q to_email kind window r \<longleftrightarrow>
     pg_lower (q_pg q) (n_to_email r) = pg_lower (q_pg q) to_email \<and> n_kind r = kind \<and>
     n_created_at r > q_now q - window * second \<and>
     (n_status r = NPending \<or> n_status r = NSending \<or> n_status r = NSent)"

definition read_internal :: "qctx \<Rightarrow> (db \<Rightarrow> gerror + 'a) \<Rightarrow> 'a query" where
  "read_internal q f d =
     (if \<not> may_read_internal (q_ident q) then Inl (PgError PermissionDenied)
      else case f d of Inl e \<Rightarrow> Inl e | Inr x \<Rightarrow> Inr (x, d))"

definition has_recent_notification_for_email :: "qctx \<Rightarrow> string \<Rightarrow> string \<Rightarrow> int \<Rightarrow> bool query" where
  "has_recent_notification_for_email q to_email kind window = with_text [to_email, kind]
     (read_internal q (\<lambda>d. Inr (list_ex (recent_match q to_email kind window) (visible_notifications q d))))"

definition sent_last_day :: "time \<Rightarrow> notification \<Rightarrow> bool" where
  "sent_last_day now r \<longleftrightarrow> n_status r = NSent \<and> n_updated_at r > now - day"

definition count_sends_last_day :: "qctx \<Rightarrow> int query" where
  "count_sends_last_day q =
     read_internal q (\<lambda>d. Inr (int (length (filter (sent_last_day (q_now q)) (visible_notifications q d)))))"

definition list_notifications :: "qctx \<Rightarrow> int \<Rightarrow> int \<Rightarrow> string option \<Rightarrow> notification list query" where
  "list_notifications q lim offset f = with_text (opt_text f)
     (read_internal q (\<lambda>d. page lim offset (sort_key (\<lambda>r. - n_created_at r)
       (filter (\<lambda>r. status_filter notif_status_text f (n_status r)) (visible_notifications q d)))))"

definition count_notifications :: "qctx \<Rightarrow> string option \<Rightarrow> int query" where
  "count_notifications q f = with_text (opt_text f)
     (read_internal q (\<lambda>d. Inr (int (length
       (filter (\<lambda>r. status_filter notif_status_text f (n_status r)) (visible_notifications q d))))))"

section \<open>E-mail log and admins\<close>

record log_params =
  lp_notification_id :: "uuid option"
  lp_to_email_hash :: bytes
  lp_provider :: string
  lp_provider_message_id :: "string option"
  lp_status :: log_status
  lp_error :: "string option"

definition log_row :: "qctx \<Rightarrow> uuid \<Rightarrow> log_params \<Rightarrow> email_log" where
  "log_row q new_id p =
     \<lparr>l_id = new_id, l_notification_id = lp_notification_id p, l_to_email_hash = lp_to_email_hash p,
      l_provider = lp_provider p, l_provider_message_id = lp_provider_message_id p,
      l_status = lp_status p, l_error = lp_error p, l_created_at = q_now q\<rparr>"

definition insert_email_log :: "qctx \<Rightarrow> uuid \<Rightarrow> log_params \<Rightarrow> unit query" where
  "insert_email_log q new_id p =
     with_text (lp_provider p # opt_text (lp_provider_message_id p) @ opt_text (lp_error p)) (service_only q (\<lambda>d.
     if new_id \<in> l_id ` set (db_email_log d) then Inl (PgError UniqueViolation)
     else if \<not> email_log_ok d (log_row q new_id p) then Inl (PgError ForeignKeyViolation)
     else Inr ((), d\<lparr>db_email_log := db_email_log d @ [log_row q new_id p]\<rparr>)))"

definition list_email_log :: "qctx \<Rightarrow> int \<Rightarrow> int \<Rightarrow> string option \<Rightarrow> email_log list query" where
  "list_email_log q lim offset f = with_text (opt_text f)
     (read_internal q (\<lambda>d. page lim offset (sort_key (\<lambda>l. - l_created_at l)
       (filter (\<lambda>l. status_filter log_status_text f (l_status l))
         (if select_internal d (q_ident q) then db_email_log d else [])))))"

definition add_admin :: "qctx \<Rightarrow> uuid \<Rightarrow> unit query" where
  "add_admin q u = service_only q (\<lambda>d.
     if list_ex (\<lambda>a. a_user_id a = u) (db_admins d) then Inr ((), d)
     else if u \<notin> set (db_users d) then Inl (PgError ForeignKeyViolation)
     else Inr ((), d\<lparr>db_admins := db_admins d @ [\<lparr>a_user_id = u, a_created_at = q_now q\<rparr>]\<rparr>))"

definition remove_admin :: "qctx \<Rightarrow> uuid \<Rightarrow> unit query" where
  "remove_admin q u = service_only q (\<lambda>d.
     Inr ((), d\<lparr>db_admins := filter (\<lambda>a. a_user_id a \<noteq> u) (db_admins d)\<rparr>))"

definition is_admin :: "qctx \<Rightarrow> uuid \<Rightarrow> bool query" where
  "is_admin q u = read_internal q (\<lambda>d.
     Inr (list_ex (\<lambda>a. select_admin_row (q_ident q) a \<and> a_user_id a = u) (db_admins d)))"

section \<open>What a statement that succeeds has done\<close>

named_theorems query_iff \<open>when a statement succeeds, and with what\<close>

lemma with_text_iff [query_iff]:
  "with_text ts stmt d = Inr r \<longleftrightarrow> list_all pg_text ts \<and> stmt d = Inr r"
  by (simp add: with_text_def)

lemma service_only_iff [query_iff]:
  "service_only q stmt d = Inr r \<longleftrightarrow> q_ident q = IdService \<and> stmt d = Inr r"
  by (simp add: service_only_def)

lemma read_internal_iff [query_iff]:
  "read_internal q f d = Inr (x, d') \<longleftrightarrow> q_ident q \<noteq> IdAnon \<and> f d = Inr x \<and> d' = d"
  by (auto simp: read_internal_def may_read_internal_def split: sum.splits)

lemma one_row_iff [query_iff]:
  "one_row rows d = Inr (r, d') \<longleftrightarrow> (\<exists>rest. rows = r # rest) \<and> d' = d"
  by (auto simp: one_row_def split: list.splits)

lemma page_iff [query_iff]:
  "page lim offset rows = Inr ys \<longleftrightarrow>
     0 \<le> lim \<and> 0 \<le> offset \<and> ys = take (nat lim) (drop (nat offset) rows)"
  by (auto simp: page_def)

lemma update_notification_iff [query_iff]:
  "update_notification q k f d = Inr (x, d') \<longleftrightarrow> q_ident q = IdService \<and>
     d' = d\<lparr>db_notifications := update_where (\<lambda>r. n_id r = k) f (db_notifications d)\<rparr>"
  by (auto simp: update_notification_def query_iff)

text \<open>The reads leave the database alone.\<close>

lemma reads_keep_db:
  "get_subscriber_by_email q e d = Inr (r, d') \<Longrightarrow> d' = d"
  "get_subscriber_by_id q k d = Inr (r, d') \<Longrightarrow> d' = d"
  "get_subscriber_by_confirm_token_hash q h d = Inr (r, d') \<Longrightarrow> d' = d"
  "list_subscribers q lim offset f d = Inr (rs, d') \<Longrightarrow> d' = d"
  "count_subscribers q f d = Inr (n, d') \<Longrightarrow> d' = d"
  "has_recent_notification_for_email q to_email kind w d = Inr (b, d') \<Longrightarrow> d' = d"
  "count_sends_last_day q d = Inr (n, d') \<Longrightarrow> d' = d"
  "list_notifications q lim offset f d = Inr (ns, d') \<Longrightarrow> d' = d"
  "count_notifications q f d = Inr (n, d') \<Longrightarrow> d' = d"
  "list_email_log q lim offset f d = Inr (ls, d') \<Longrightarrow> d' = d"
  "is_admin q u d = Inr (b, d') \<Longrightarrow> d' = d"
  by (auto simp: get_subscriber_by_email_def get_subscriber_by_id_def query_iff
      get_subscriber_by_confirm_token_hash_def list_subscribers_def count_subscribers_def
      has_recent_notification_for_email_def count_sends_last_day_def list_notifications_def
      count_notifications_def list_email_log_def is_admin_def split: sum.splits)

text \<open>The key of every row survives its update, so the keyed-update facts apply to each.\<close>

lemma row_keys [row_simps]:
  "s_id (refreshed_row q p r) = s_id r" "s_email (refreshed_row q p r) = s_email r"
  "s_id (confirmed_row now r) = s_id r" "s_email (confirmed_row now r) = s_email r"
  "s_id (unsubscribed_row now r) = s_id r" "s_email (unsubscribed_row now r) = s_email r"
  "n_id (leased_row now lease n) = n_id n" "n_id (sent_row now n) = n_id n"
  "n_id (retry_row now next_at err n) = n_id n" "n_id (failed_row now err n) = n_id n"
  "n_id (dead_row now err n) = n_id n"
  by (simp_all add: refreshed_row_def confirmed_row_def unsubscribed_row_def leased_row_def
      sent_row_def retry_row_def failed_row_def dead_row_def)

lemma row_status [row_simps]:
  "s_status (refreshed_row q p r) = s_status r"
  "s_status (confirmed_row now r) = Confirmed"
  "s_status (unsubscribed_row now r) = Unsubscribed"
  "n_status (leased_row now lease n) = NSending" "n_status (sent_row now n) = NSent"
  "n_status (retry_row now next_at err n) = NPending" "n_status (failed_row now err n) = NFailed"
  "n_status (dead_row now err n) = NDead"
  by (simp_all add: refreshed_row_def confirmed_row_def unsubscribed_row_def leased_row_def
      sent_row_def retry_row_def failed_row_def dead_row_def)

lemma row_attempts [row_simps]:
  "n_attempts (leased_row now lease n) = n_attempts n + 1" "n_attempts (sent_row now n) = n_attempts n"
  "n_attempts (retry_row now next_at err n) = n_attempts n"
  "n_attempts (failed_row now err n) = n_attempts n" "n_attempts (dead_row now err n) = n_attempts n"
  by (simp_all add: leased_row_def sent_row_def retry_row_def failed_row_def dead_row_def)

lemma fresh_notification_simps [simp]:
  "n_id (fresh_notification q k kind to_email payload) = k"
  "n_kind (fresh_notification q k kind to_email payload) = kind"
  "n_to_email (fresh_notification q k kind to_email payload) = to_email"
  "n_payload (fresh_notification q k kind to_email payload) = payload"
  "n_status (fresh_notification q k kind to_email payload) = NPending"
  "n_attempts (fresh_notification q k kind to_email payload) = 0"
  by (simp_all add: fresh_notification_def)

lemma enqueue_iff [query_iff]:
  "enqueue_notification q k kind to_email payload d = Inr (i, d') \<longleftrightarrow>
     list_all pg_text [kind, to_email] \<and> q_ident q = IdService \<and> k \<notin> n_id ` set (db_notifications d) \<and> i = k \<and>
     d' = d\<lparr>db_notifications := db_notifications d @ [fresh_notification q k kind to_email payload]\<rparr>"
  by (auto simp: enqueue_notification_def query_iff)

interpretation refresh_id: row_update s_id "refreshed_row q p" for q p
  by unfold_locales (simp add: row_simps)

interpretation refresh_email: row_update "\<lambda>r. pg_lower pg (s_email r)" "refreshed_row q p" for pg q p
  by unfold_locales (simp add: row_simps)

interpretation leased: row_update n_id "leased_row now lease" for now lease
  by unfold_locales (simp add: row_simps)

text \<open>An upsert adds a fresh pending row, or refreshes the pending row of that e-mail.\<close>

lemma upsert_effect:
  assumes "upsert_pending_subscriber q k p d = Inr (r, d')"
  obtains (inserted) "r = proposed_row q k p" "d' = d\<lparr>db_subscribers := db_subscribers d @ [r]\<rparr>"
      "k \<notin> s_id ` set (db_subscribers d)" "fk_user d (up_user_id p)"
      "\<forall>x\<in>set (db_subscribers d). \<not> email_match q (up_email p) x"
      "insert_check (q_ident q) r" "select_subscriber (q_pg q) d (q_ident q) r"
    | (refreshed) old where "old \<in> set (db_subscribers d)" "email_match q (up_email p) old"
      "s_status old = Pending" "r = refreshed_row q p old"
      "d' = d\<lparr>db_subscribers :=
         update_where (\<lambda>x. x = old) (refreshed_row q p) (db_subscribers d)\<rparr>"
      "s_user_id r = s_user_id old \<or> fk_user d (s_user_id r)"
      "update_using (q_ident q) old" "update_check (q_ident q) r"
      "select_subscriber (q_pg q) d (q_ident q) old"
proof (cases "find (email_match q (up_email p)) (db_subscribers d)")
  case None
  then have fresh: "\<forall>x\<in>set (db_subscribers d). \<not> email_match q (up_email p) x"
    by (auto simp: find_None_iff)
  from None assms have "insert_check (q_ident q) (proposed_row q k p) \<and>
      select_subscriber (q_pg q) d (q_ident q) (proposed_row q k p) \<and>
      k \<notin> s_id ` set (db_subscribers d) \<and> fk_user d (s_user_id (proposed_row q k p)) \<and>
      r = proposed_row q k p \<and> d' = d\<lparr>db_subscribers := db_subscribers d @ [proposed_row q k p]\<rparr>"
    by (clarsimp simp: upsert_pending_subscriber_def query_iff Let_def split: if_splits)
  with fresh show thesis by (intro inserted) (simp_all add: proposed_row_def)
next
  case (Some old)
  then have "old \<in> set (db_subscribers d)" "email_match q (up_email p) old"
    by (auto simp: find_Some_iff)
  with assms Some show thesis
    by (intro refreshed [of old])
      (auto simp: upsert_pending_subscriber_def query_iff Let_def split: if_splits)
qed

lemma exec_update_effect:
  assumes "exec_update_subscribers q p f d = Inr (n, d')"
  shows "d' = d\<lparr>db_subscribers := update_where
             (\<lambda>r. p r \<and> update_using (q_ident q) r \<and> select_subscriber (q_pg q) d (q_ident q) r)
             f (db_subscribers d)\<rparr>"
    and "r \<in> set (db_subscribers d) \<Longrightarrow> p r \<Longrightarrow> update_using (q_ident q) r \<Longrightarrow>
         select_subscriber (q_pg q) d (q_ident q) r \<Longrightarrow> update_check (q_ident q) (f r)"
  using assms by (auto simp: exec_update_subscribers_def Let_def list_ex_iff split: if_splits)

text \<open>For the service role the policies are no condition.\<close>

lemma exec_update_service:
  "q_ident q = IdService \<Longrightarrow> exec_update_subscribers q p f d =
     Inr (int (length (filter p (db_subscribers d))),
          d\<lparr>db_subscribers := update_where p f (db_subscribers d)\<rparr>)"
  by (simp add: exec_update_subscribers_def list_ex_iff)

end
