(* ===== verification/Lifecycle.thy ===== *)
theory Lifecycle
  imports Queries
begin

text \<open>
  The database as a transition system: one step is one successful writing statement of
  \<open>internal/db/dbq\<close>, run as any identity. Shown here: the table invariant holds in every
  reachable database, the user roles can touch nothing but pending subscriptions, and a
  subscription only ever moves forward through its life cycle.
\<close>

inductive db_step :: "qctx \<Rightarrow> db \<Rightarrow> db \<Rightarrow> bool" for q :: qctx and d :: db where
  upsert: "upsert_pending_subscriber q k p d = Inr (r, d') \<Longrightarrow> db_step q d d'"
| confirm: "confirm_subscriber_by_id q k d = Inr (n, d') \<Longrightarrow> db_step q d d'"
| unsubscribe: "unsubscribe_by_id q k d = Inr (n, d') \<Longrightarrow> db_step q d d'"
| enqueue: "enqueue_notification q k kind to_email payload d = Inr (i, d') \<Longrightarrow> db_step q d d'"
| claim: "claim_due_notifications q skip lim lease d = Inr (rows, d') \<Longrightarrow> db_step q d d'"
| sent: "mark_notification_sent q k d = Inr (u, d') \<Longrightarrow> db_step q d d'"
| failed: "mark_notification_failed q k err d = Inr (u, d') \<Longrightarrow> db_step q d d'"
| dead: "mark_notification_dead q k err d = Inr (u, d') \<Longrightarrow> db_step q d d'"
| retry: "schedule_notification_retry q k next_at err d = Inr (u, d') \<Longrightarrow> db_step q d d'"
| log: "insert_email_log q k lp d = Inr (u, d') \<Longrightarrow> db_step q d d'"
| promote: "add_admin q k d = Inr (u, d') \<Longrightarrow> db_step q d d'"
| demote: "remove_admin q k d = Inr (u, d') \<Longrightarrow> db_step q d d'"

inductive reachable_db :: "pg_ops \<Rightarrow> uuid list \<Rightarrow> db \<Rightarrow> bool" for pg users where
  start: "reachable_db pg users (empty_db users)"
| step: "reachable_db pg users d \<Longrightarrow> db_step q d d' \<Longrightarrow> q_pg q = pg \<Longrightarrow> reachable_db pg users d'"

section \<open>The invariant\<close>

lemma subscriber_ok_rows:
  "subscriber_ok d (proposed_row q k p) \<longleftrightarrow> fk_user d (up_user_id p)"
  "subscriber_ok d r \<Longrightarrow> subscriber_ok d (unsubscribed_row now r)"
  "subscriber_ok d r \<Longrightarrow> s_unsubscribed_at r = None \<Longrightarrow> subscriber_ok d (confirmed_row now r)"
  "subscriber_ok d r \<Longrightarrow> s_status r = Pending \<Longrightarrow>
     s_user_id (refreshed_row q p r) = s_user_id r \<or> fk_user d (s_user_id (refreshed_row q p r)) \<Longrightarrow>
     subscriber_ok d (refreshed_row q p r)"
  by (auto simp: subscriber_ok_def pending_clean_constraint_def proposed_row_def unsubscribed_row_def
      confirmed_row_def refreshed_row_def fk_user_def split: option.splits)

lemma db_ok_upsert [step_invs]:
  assumes ok: "db_ok pg d" and pg: "q_pg q = pg"
    and up: "upsert_pending_subscriber q k p d = Inr (r, d')"
  shows "db_ok pg d'"
  using up
proof (cases rule: upsert_effect)
  case inserted
  have "subscriber_ok d r" using inserted by (simp add: subscriber_ok_rows)
  moreover have "pg_lower pg (s_email r) \<notin> (\<lambda>x. pg_lower pg (s_email x)) ` set (db_subscribers d)"
    using inserted pg by (auto simp: email_match_def proposed_row_def)
  moreover have "s_id r = k" using inserted by (simp add: proposed_row_def)
  ultimately show ?thesis
    unfolding inserted(2) using ok inserted(3) by (intro db_ok_subscribers) (auto dest: db_ok_dest)
next
  case (refreshed old)
  note keys = db_ok_dest(1,2) [OF ok]
  have "subscriber_ok d x"
    if "x \<in> set (update_where (\<lambda>x. x = old) (refreshed_row q p) (db_subscribers d))" for x
    using that
  proof (rule refresh_id.rows_update [rotated 2])
    show "subscriber_ok d x" if "x \<in> set (db_subscribers d)" for x
      using that ok by (auto dest: db_ok_dest)
    show "subscriber_ok d (refreshed_row q p x)"
      if "x \<in> set (db_subscribers d)" "subscriber_ok d x" "x = old" for x
      using that(2,3) refreshed(3,4,6) by (intro subscriber_ok_rows(4)) auto
  qed
  then show ?thesis
    unfolding refreshed(5) using ok keys
    by (intro db_ok_subscribers) (simp_all add: refresh_id.distinct_update refresh_email.distinct_update)
qed

lemma db_ok_exec_update [step_invs]:
  assumes ok: "db_ok pg d" and up: "exec_update_subscribers q p f d = Inr (n, d')"
    and id: "\<And>r. s_id (f r) = s_id r" and email: "\<And>r. s_email (f r) = s_email r"
    and row: "\<And>r. r \<in> set (db_subscribers d) \<Longrightarrow> p r \<Longrightarrow> subscriber_ok d r \<Longrightarrow> subscriber_ok d (f r)"
  shows "db_ok pg d'"
proof -
  have i: "row_update s_id f" and e: "row_update (\<lambda>r. pg_lower pg (s_email r)) f"
    by (unfold_locales) (simp_all add: id email)
  show ?thesis
    unfolding exec_update_effect(1) [OF up]
  proof (rule db_ok_subscribers [OF ok])
    show "subscriber_ok d r" if "r \<in> set (update_where (\<lambda>r. p r \<and> update_using (q_ident q) r \<and>
        select_subscriber (q_pg q) d (q_ident q) r) f (db_subscribers d))" for r
      using that by (rule row_update.rows_update [OF i, rotated 2]) (auto intro: row db_ok_dest(3) [OF ok])
  qed (simp_all add: row_update.distinct_update [OF i] row_update.distinct_update [OF e]
      db_ok_dest(1,2) [OF ok])
qed

lemma db_ok_confirm [step_invs]:
  "db_ok pg d \<Longrightarrow> confirm_subscriber_by_id q k d = Inr (n, d') \<Longrightarrow> db_ok pg d'"
  unfolding confirm_subscriber_by_id_def
  by (erule db_ok_exec_update, assumption) (auto simp: row_simps intro: subscriber_ok_rows)

lemma db_ok_unsubscribe [step_invs]:
  "db_ok pg d \<Longrightarrow> unsubscribe_by_id q k d = Inr (n, d') \<Longrightarrow> db_ok pg d'"
  unfolding unsubscribe_by_id_def
  by (erule db_ok_exec_update, assumption) (auto simp: row_simps intro: subscriber_ok_rows)

lemma db_ok_enqueue [step_invs]:
  assumes "db_ok pg d" and "enqueue_notification q k kind to_email payload d = Inr (i, d')"
  shows "db_ok pg d'"
proof -
  let ?n = "fresh_notification q k kind to_email payload"
  have "k \<notin> n_id ` set (db_notifications d)" "d' = d\<lparr>db_notifications := db_notifications d @ [?n]\<rparr>"
    using assms(2) by (auto simp: enqueue_notification_def query_iff split: if_splits)
  with assms(1) show ?thesis
    by (auto simp: db_ok_def fresh_notification_def subscriber_ok_def email_log_ok_def)
qed

lemma db_ok_update_notifications [step_invs]:
  assumes "db_ok pg d" and "\<And>r. n_id (f r) = n_id r" and "\<And>r. n_attempts r \<le> n_attempts (f r)"
  shows "db_ok pg (d\<lparr>db_notifications := update_where p f (db_notifications d)\<rparr>)"
proof -
  have u: "row_update n_id f" by unfold_locales (rule assms(2))
  show ?thesis
  proof (rule db_ok_notifications [OF assms(1)])
    show "0 \<le> n_attempts r" if "r \<in> set (update_where p f (db_notifications d))" for r
      using that assms(1,3)
      by (auto simp: set_update_where db_ok_def intro: order_trans)
  qed (simp_all add: row_update.distinct_update [OF u] row_update.key_set_update [OF u]
      db_ok_dest(4) [OF assms(1)])
qed

lemma db_ok_claim [step_invs]:
  "db_ok pg d \<Longrightarrow> claim_due_notifications q skip lim lease d = Inr (rows, d') \<Longrightarrow> db_ok pg d'"
  by (auto simp: claim_due_notifications_def query_iff Let_def row_simps
      intro!: db_ok_update_notifications split: if_splits)

lemma db_ok_marks [step_invs]:
  "db_ok pg d \<Longrightarrow> mark_notification_sent q k d = Inr (u, d') \<Longrightarrow> db_ok pg d'"
  "db_ok pg d \<Longrightarrow> mark_notification_failed q k err d = Inr (u, d') \<Longrightarrow> db_ok pg d'"
  "db_ok pg d \<Longrightarrow> mark_notification_dead q k err d = Inr (u, d') \<Longrightarrow> db_ok pg d'"
  "db_ok pg d \<Longrightarrow> schedule_notification_retry q k next_at err d = Inr (u, d') \<Longrightarrow> db_ok pg d'"
  by (auto simp: mark_notification_sent_def mark_notification_failed_def mark_notification_dead_def
      schedule_notification_retry_def query_iff row_simps intro!: db_ok_update_notifications)

lemma db_ok_log [step_invs]:
  "db_ok pg d \<Longrightarrow> insert_email_log q k lp d = Inr (u, d') \<Longrightarrow> db_ok pg d'"
  by (auto simp: insert_email_log_def query_iff log_row_def intro!: db_ok_email_log split: if_splits)

lemma db_ok_admins [step_invs]:
  "db_ok pg d \<Longrightarrow> add_admin q k d = Inr (u, d') \<Longrightarrow> db_ok pg d'"
  "db_ok pg d \<Longrightarrow> remove_admin q k d = Inr (u, d') \<Longrightarrow> db_ok pg d'"
  by (auto simp: add_admin_def remove_admin_def query_iff db_ok_def subscriber_ok_def email_log_ok_def
      list_ex_iff distinct_map_filter split: if_splits)

lemma db_ok_step:
  assumes "db_step q d d'" and "db_ok pg d" and "q_pg q = pg"
  shows "db_ok pg d'"
  using assms by cases (auto intro: step_invs)

text \<open>Every database the statements can reach satisfies the table invariant.\<close>

theorem reachable_db_ok:
  "reachable_db pg users d \<Longrightarrow> db_ok pg d \<and> db_users d = users"
proof (induction rule: reachable_db.induct)
  case start
  show ?case by (simp add: db_ok_empty) (simp add: empty_db_def)
next
  case (step d q d')
  have "db_users d' = db_users d"
    using step.hyps(2)
    by cases (auto simp: confirm_subscriber_by_id_def unsubscribe_by_id_def enqueue_notification_def
        claim_due_notifications_def mark_notification_sent_def mark_notification_failed_def
        mark_notification_dead_def schedule_notification_retry_def insert_email_log_def add_admin_def
        remove_admin_def query_iff Let_def dest!: exec_update_effect(1) elim!: upsert_effect
        split: if_splits)
  with step show ?case by (auto intro: db_ok_step)
qed

section \<open>What the user roles can change\<close>

text \<open>An update of pending rows that leaves them pending does not touch the others.\<close>

lemma filter_update_where:
  assumes "\<And>r. r \<in> set rows \<Longrightarrow> p r \<Longrightarrow> \<not> g r \<and> \<not> g (f r)"
  shows "filter g (update_where p f rows) = filter g rows"
  using assms by (induction rows) auto

lemma user_row_pending:
  "i \<noteq> IdService \<Longrightarrow> update_using i r \<Longrightarrow> s_status r = Pending"
  "i \<noteq> IdService \<Longrightarrow> update_check i r \<Longrightarrow> s_status r = Pending"
  "i \<noteq> IdService \<Longrightarrow> insert_check i r \<Longrightarrow> s_status r = Pending"
  by (simp_all add: user_update_pending pending_only_def)

lemma user_exec_update:
  assumes "q_ident q \<noteq> IdService" and "exec_update_subscribers q p f d = Inr (n, d')"
  shows "filter (\<lambda>r. s_status r \<noteq> Pending) (db_subscribers d') =
           filter (\<lambda>r. s_status r \<noteq> Pending) (db_subscribers d)"
    and "d'\<lparr>db_subscribers := x\<rparr> = d\<lparr>db_subscribers := x\<rparr>"
  using exec_update_effect [OF assms(2)] user_row_pending [OF assms(1)]
  by (auto intro!: filter_update_where)

text \<open>
  Row-level security confines the anonymous and the logged-in role. Whatever statement
  they run, the rows of confirmed and unsubscribed subscribers stay exactly as they were, no
  row becomes confirmed or unsubscribed, and the queue, the e-mail log and the list of admins
  do not change.
\<close>

lemma user_step_confined:
  assumes "db_step q d d'" and "q_ident q \<noteq> IdService"
  shows "filter (\<lambda>r. s_status r \<noteq> Pending) (db_subscribers d') =
           filter (\<lambda>r. s_status r \<noteq> Pending) (db_subscribers d) \<and>
         db_notifications d' = db_notifications d \<and> db_email_log d' = db_email_log d \<and>
         db_admins d' = db_admins d"
proof -
  have upd: ?thesis if "exec_update_subscribers q p f d = Inr (n, d')" for p f n
    using user_exec_update(1) [OF assms(2) that] exec_update_effect(1) [OF that] by simp
  show ?thesis
    using assms(1)
  proof cases
    case (upsert k p r)
    then show ?thesis
    proof (cases rule: upsert_effect)
      case inserted
      then show ?thesis using user_row_pending(3) [OF assms(2)] by simp
    next
      case (refreshed old)
      then show ?thesis by (auto intro!: filter_update_where simp: row_simps)
    qed
  qed (use upd assms(2) in \<open>auto simp: confirm_subscriber_by_id_def unsubscribe_by_id_def enqueue_notification_def
        claim_due_notifications_def mark_notification_sent_def mark_notification_failed_def
        mark_notification_dead_def schedule_notification_retry_def insert_email_log_def add_admin_def
        remove_admin_def query_iff\<close>)
qed

section \<open>A subscription only moves forward\<close>

text \<open>
  What may become of a row: its identity stays, its status does not go back, the first
  confirmation time and an owner once linked stay, and an unsubscribed row is frozen.
\<close>

definition advances :: "subscriber \<Rightarrow> subscriber \<Rightarrow> bool" where
  "advances r r' \<longleftrightarrow>
     s_id r' = s_id r \<and> s_email r' = s_email r \<and> s_created_at r' = s_created_at r \<and>
     s_status r \<le> s_status r' \<and>
     (s_confirmed_at r \<noteq> None \<longrightarrow> s_confirmed_at r' = s_confirmed_at r) \<and>
     (s_user_id r \<noteq> None \<longrightarrow> s_user_id r' = s_user_id r) \<and>
     (s_status r = Unsubscribed \<longrightarrow> r' = r)"

lemma advances_refl [simp]: "advances r r"
  by (simp add: advances_def)

lemma advances_trans: "advances r s \<Longrightarrow> advances s t \<Longrightarrow> advances r t"
  by (auto simp: advances_def intro: order_trans)

lemma advances_rows:
  "s_status r = Pending \<Longrightarrow> advances r (refreshed_row q p r)"
  "s_status r \<noteq> Unsubscribed \<Longrightarrow> advances r (confirmed_row now r)"
  "s_status r \<noteq> Unsubscribed \<Longrightarrow> advances r (unsubscribed_row now r)"
  by (cases "s_status r"; auto simp: advances_def refreshed_row_def confirmed_row_def
      unsubscribed_row_def less_eq_sub_status_def split: option.splits)+

lemma update_where_advances:
  assumes "\<And>r. p r \<Longrightarrow> advances r (f r)" and "r \<in> set rows"
  shows "\<exists>r'\<in>set (update_where p f rows). advances r r'"
proof -
  have "(if p r then f r else r) \<in> set (update_where p f rows)"
    using assms(2) by (auto simp: set_update_where)
  with assms(1) [of r] show ?thesis by (metis advances_refl)
qed

lemma exec_update_advances:
  assumes "exec_update_subscribers q p f d = Inr (n, d')" and "r \<in> set (db_subscribers d)"
    and "\<And>r. p r \<Longrightarrow> advances r (f r)"
  shows "\<exists>r'\<in>set (db_subscribers d'). advances r r'"
  unfolding exec_update_effect(1) [OF assms(1)]
  using assms(2,3) by (auto intro!: update_where_advances)

lemma step_advances:
  assumes "db_step q d d'" and "r \<in> set (db_subscribers d)"
  shows "\<exists>r'\<in>set (db_subscribers d'). advances r r'"
  using assms(1)
proof cases
  case (upsert k p r0)
  then show ?thesis
  proof (cases rule: upsert_effect)
    case inserted
    with assms(2) show ?thesis by (auto intro: bexI [of _ r])
  next
    case (refreshed old)
    then show ?thesis using assms(2) by (auto intro!: update_where_advances advances_rows)
  qed
next
  case (confirm k n)
  then show ?thesis
    unfolding confirm_subscriber_by_id_def
    using assms(2) by (auto elim!: exec_update_advances intro!: advances_rows)
next
  case (unsubscribe k n)
  then show ?thesis
    unfolding unsubscribe_by_id_def
    using assms(2) by (auto elim!: exec_update_advances intro!: advances_rows)
qed (use assms(2) in \<open>auto simp: enqueue_notification_def
        claim_due_notifications_def mark_notification_sent_def mark_notification_failed_def
        mark_notification_dead_def schedule_notification_retry_def insert_email_log_def add_admin_def
        remove_admin_def query_iff Let_def intro: bexI [of _ r] split: if_splits\<close>)

text \<open>Any number of steps, each by anybody.\<close>

inductive db_steps :: "db \<Rightarrow> db \<Rightarrow> bool" where
  none: "db_steps d d"
| more: "db_steps d d' \<Longrightarrow> db_step q d' d'' \<Longrightarrow> db_steps d d''"

text \<open>
  C17: However the statements are interleaved, a subscription is never lost and only moves
  forward: pending, confirmed, unsubscribed, with its first confirmation time and its owner
  kept; an unsubscribed row never changes again, so nobody is re-subscribed.
\<close>

theorem subscription_only_moves_forward:
  assumes "db_steps d d'" and "r \<in> set (db_subscribers d)"
  shows "\<exists>r'\<in>set (db_subscribers d'). advances r r'"
  using assms
proof (induction rule: db_steps.induct)
  case (none d)
  then show ?case by (auto intro: bexI [of _ r])
next
  case (more d d' q d'')
  then obtain r' where "r' \<in> set (db_subscribers d')" "advances r r'" by blast
  with step_advances [OF more.hyps(2)] show ?case by (meson advances_trans)
qed

section \<open>What the user roles can read\<close>

lemma visible_rows:
  "r \<in> set (visible_subscribers q d) \<longleftrightarrow>
     r \<in> set (db_subscribers d) \<and> select_subscriber (q_pg q) d (q_ident q) r"
  by (simp add: visible_subscribers_def)

text \<open>Every row a subscriber query returns is one the policies show.\<close>

lemma subscriber_reads_visible:
  "get_subscriber_by_email q e d = Inr (r, d') \<Longrightarrow> r \<in> set (visible_subscribers q d) \<and> email_match q e r"
  "get_subscriber_by_id q k d = Inr (r, d') \<Longrightarrow> r \<in> set (visible_subscribers q d) \<and> s_id r = k"
  "get_subscriber_by_confirm_token_hash q h d = Inr (r, d') \<Longrightarrow>
     r \<in> set (visible_subscribers q d) \<and> s_token_hash r = Some h \<and> s_status r = Pending"
  by (auto simp: get_subscriber_by_email_def get_subscriber_by_id_def query_iff filter_eq_Cons_iff
      get_subscriber_by_confirm_token_hash_def)

lemma list_subscribers_visible:
  assumes "list_subscribers q lim offset f d = Inr (rs, d')"
  shows "set rs \<subseteq> set (visible_subscribers q d)" and "int (length rs) \<le> lim"
proof -
  obtain g where rs: "rs = take (nat lim) (drop (nat offset) (sort_key (\<lambda>r. - s_created_at r)
      (filter g (visible_subscribers q d))))" and "0 \<le> lim"
    using assms by (auto simp: list_subscribers_def query_iff page_def split: sum.splits if_splits)
  then show "set rs \<subseteq> set (visible_subscribers q d)"
    by (auto dest!: in_set_takeD in_set_dropD)
  show "int (length rs) \<le> lim" using rs \<open>0 \<le> lim\<close> by simp
qed

text \<open>What the owner policy shows to a logged-in caller.\<close>

definition own_row :: "pg_ops \<Rightarrow> uuid option \<Rightarrow> string \<Rightarrow> subscriber \<Rightarrow> bool" where
  "own_row pg u e r \<longleftrightarrow> s_user_id r \<noteq> None \<and> s_user_id r = u \<or> pg_lower pg (s_email r) = pg_lower pg e"

lemma non_admin_sees:
  "q_ident q = IdUser u e \<Longrightarrow> \<not> admin_uid d u \<Longrightarrow>
     visible_subscribers q d = filter (own_row (q_pg q) u e) (db_subscribers d)"
  by (auto simp: visible_subscribers_def select_subscriber_def own_row_def intro: filter_cong)

lemma non_admin_internal:
  assumes "q_ident q = IdUser u e" and "\<not> admin_uid d u"
  shows "list_notifications q lim offset f d = Inr (ns, d') \<Longrightarrow> ns = []"
    and "count_notifications q f d = Inr (n, d') \<Longrightarrow> n = 0"
    and "count_sends_last_day q d = Inr (n, d') \<Longrightarrow> n = 0"
    and "has_recent_notification_for_email q x kind w d = Inr (b, d') \<Longrightarrow> \<not> b"
    and "list_email_log q lim offset g d = Inr (ls, d') \<Longrightarrow> ls = []"
  using assms
  by (auto simp: list_notifications_def count_notifications_def count_sends_last_day_def list_email_log_def
      has_recent_notification_for_email_def visible_notifications_def select_internal_def query_iff)

lemma anonymous_reads:
  assumes "q_ident q = IdAnon"
  shows "get_subscriber_by_email q x d \<noteq> Inr (r, d')" and "get_subscriber_by_id q k d \<noteq> Inr (r, d')"
    and "get_subscriber_by_confirm_token_hash q h d \<noteq> Inr (r, d')"
    and "list_subscribers q lim offset f d = Inr (rs, d') \<Longrightarrow> rs = []"
    and "count_subscribers q f d = Inr (n, d') \<Longrightarrow> n = 0"
    and "list_notifications q lim offset f d \<noteq> Inr (ns, d')" and "list_email_log q lim offset f d \<noteq> Inr (ls, d')"
  using assms
  by (auto simp: get_subscriber_by_email_def get_subscriber_by_id_def get_subscriber_by_confirm_token_hash_def
      list_subscribers_def count_subscribers_def list_notifications_def list_email_log_def visible_subscribers_def
      query_iff split: sum.splits)

text \<open>
  C38: what the statements that read may show to callers without rights. A logged-in caller who is
  no admin gets from each of the four subscriber queries only rows that carry his user id or his
  e-mail address, and counts only those; every query of the notifications and of the e-mail log
  shows him nothing. An anonymous caller gets no row of any of these tables.
\<close>

theorem non_admin_reads_own_rows_only:
  assumes "q_ident q = IdUser u e" and "\<not> admin_uid d u" and "q_ident a = IdAnon"
  shows "(get_subscriber_by_email q x d = Inr (r, d') \<or> get_subscriber_by_id q k d = Inr (r, d') \<or>
       get_subscriber_by_confirm_token_hash q h d = Inr (r, d') \<or>
       list_subscribers q lim offset f d = Inr (rs, d') \<and> r \<in> set rs \<longrightarrow>
       r \<in> set (db_subscribers d) \<and> own_row (q_pg q) u e r) \<and>
     (count_subscribers q f d = Inr (n, d') \<longrightarrow>
       n \<le> int (length (filter (own_row (q_pg q) u e) (db_subscribers d)))) \<and>
     (list_notifications q lim offset f d = Inr (ns, d') \<longrightarrow> ns = []) \<and>
     (count_notifications q f d = Inr (n, d') \<or> count_sends_last_day q d = Inr (n, d') \<longrightarrow> n = 0) \<and>
     (has_recent_notification_for_email q x kind w d = Inr (b, d') \<longrightarrow> \<not> b) \<and>
     (list_email_log q lim offset f d = Inr (ls, d') \<longrightarrow> ls = []) \<and>
     get_subscriber_by_email a x d \<noteq> Inr (r, d') \<and> get_subscriber_by_id a k d \<noteq> Inr (r, d') \<and>
     get_subscriber_by_confirm_token_hash a h d \<noteq> Inr (r, d') \<and>
     (list_subscribers a lim offset f d = Inr (rs, d') \<longrightarrow> rs = []) \<and>
     (count_subscribers a f d = Inr (n, d') \<longrightarrow> n = 0) \<and>
     list_notifications a lim offset f d \<noteq> Inr (ns, d') \<and> list_email_log a lim offset f d \<noteq> Inr (ls, d')"
proof -
  note sees = non_admin_sees [OF assms(1,2)]
  note internal = non_admin_internal [OF assms(1,2)] and none = anonymous_reads [OF assms(3)]
  have own: "r \<in> set (db_subscribers d) \<and> own_row (q_pg q) u e r" if "r \<in> set (visible_subscribers q d)"
    using that sees by simp
  have count: "n \<le> int (length (filter (own_row (q_pg q) u e) (db_subscribers d)))"
    if "count_subscribers q f d = Inr (n, d')"
    using that sees length_filter_le [of "\<lambda>r. status_filter sub_status_text f (s_status r)"
        "filter (own_row (q_pg q) u e) (db_subscribers d)"]
    by (auto simp: count_subscribers_def query_iff)
  show ?thesis
    by (intro conjI impI none(1-3,6,7))
      (auto dest: internal none(4,5) count own subscriber_reads_visible list_subscribers_visible(1) [THEN subsetD])
qed

text \<open>
  The admin check through row-level security is exact: a caller asking about his own user
  id learns whether it is in \<open>public.admins\<close>, and about anybody else's he always gets "no".
\<close>

theorem is_admin_is_membership:
  "q_ident q = IdUser (Some u) e \<Longrightarrow>
     is_admin q v d = Inr (v = u \<and> v \<in> a_user_id ` set (db_admins d), d)"
  by (auto simp: is_admin_def read_internal_def may_read_internal_def list_ex_iff)

text \<open>
  Under role \<open>anon\<close> the pending upsert fails on every database: the inserted row is
  returned, no \<open>SELECT\<close> policy shows it to \<open>anon\<close>, and PostgreSQL rejects the statement.
\<close>

theorem anon_upsert_is_rejected:
  "q_ident q = IdAnon \<Longrightarrow> pg_text (up_email p) \<Longrightarrow> list_all pg_text (opt_text (up_source p)) \<Longrightarrow>
     upsert_pending_subscriber q k p d = Inl (PgError RowSecurityViolation)"
  by (simp add: upsert_pending_subscriber_def with_text_def)

section \<open>Claiming\<close>

lemma due_rows_basic:
  "length (due_rows now skip lim d) \<le> nat lim"
  "r \<in> set (due_rows now skip lim d) \<Longrightarrow>
     r \<in> set (db_notifications d) \<and> claim_due_pred now r \<and> n_id r \<notin> skip"
  by (auto simp: due_rows_def dest!: in_set_takeD)

lemma due_rows_facts:
  assumes "distinct (map n_id (db_notifications d))"
  shows "distinct (map n_id (due_rows now skip lim d))"
    and "length (due_rows now skip lim d) \<le> nat lim"
    and "r \<in> set (due_rows now skip lim d) \<Longrightarrow>
           r \<in> set (db_notifications d) \<and> claim_due_pred now r \<and> n_id r \<notin> skip"
proof -
  let ?ok = "\<lambda>r. claim_due_pred now r \<and> n_id r \<notin> skip"
  let ?xs = "sort_key n_next_attempt_at (filter ?ok (db_notifications d))"
  have "distinct (map n_id ?xs)"
    using assms by (auto simp: distinct_map inj_on_def)
  then show "distinct (map n_id (due_rows now skip lim d))"
    by (simp add: due_rows_def take_map [symmetric] distinct_take)
qed (fact due_rows_basic)+

lemma claim_effect:
  assumes "claim_due_notifications q skip lim lease d = Inr (rows, d')"
  shows "q_ident q = IdService" and "0 \<le> lim"
    and "rows = map (\<lambda>r. claimed_of (leased_row (q_now q) lease r)) (due_rows (q_now q) skip lim d)"
    and "d' = d\<lparr>db_notifications := update_where (\<lambda>r. n_id r \<in> n_id ` set (due_rows (q_now q) skip lim d))
           (leased_row (q_now q) lease) (db_notifications d)\<rparr>"
  using assms by (auto simp: claim_due_notifications_def query_iff Let_def split: if_splits)

lemma claim_ids:
  "claim_due_notifications q skip lim lease d = Inr (rows, d') \<Longrightarrow>
     map cl_id rows = map n_id (due_rows (q_now q) skip lim d)"
  by (drule claim_effect(3)) (simp add: claimed_of_def row_simps)

lemma not_in_take: "y \<in> set xs \<Longrightarrow> y \<notin> set (take n xs) \<Longrightarrow> length (take n xs) = n"
  by (cases "length xs \<le> n") auto

text \<open>What a limit leaves out is due no earlier than what it takes.\<close>

lemma take_sort_key_prefix:
  assumes "x \<in> set (take n (sort_key f xs))" and "y \<in> set xs" and "y \<notin> set (take n (sort_key f xs))"
  shows "f x \<le> f y"
proof -
  have "y \<in> set (drop n (sort_key f xs))"
    using assms(2,3) by (metis Un_iff append_take_drop_id set_append set_sort)
  moreover have "sorted (map f (take n (sort_key f xs) @ drop n (sort_key f xs)))"
    by (simp only: append_take_drop_id sorted_sort_key)
  ultimately show ?thesis
    using assms(1) by (simp only: map_append sorted_append) auto
qed

text \<open>
  A claim takes only due pending rows that no one has locked, each once and at most
  \<open>LIMIT\<close> of them, the ones due longest first; exactly these become \<open>sending\<close> with one more
  attempt and a lease, and every other row stays as it was.
\<close>

theorem claim_takes_due_rows:
  assumes "distinct (map n_id (db_notifications d))"
    and "claim_due_notifications q skip lim lease d = Inr (rows, d')"
  shows "distinct (map cl_id rows) \<and> int (length rows) \<le> lim \<and>
    (\<forall>c\<in>set rows. cl_id c \<notin> skip \<and>
       (\<exists>r. lookup_row n_id (cl_id c) (db_notifications d) = Some r \<and> claim_due_pred (q_now q) r \<and>
            c = claimed_of (leased_row (q_now q) lease r))) \<and>
    (\<forall>k. lookup_row n_id k (db_notifications d') =
       (if k \<in> cl_id ` set rows then map_option (leased_row (q_now q) lease) (lookup_row n_id k (db_notifications d))
        else lookup_row n_id k (db_notifications d))) \<and>
    (\<forall>r\<in>set (db_notifications d). claim_due_pred (q_now q) r \<longrightarrow> n_id r \<notin> skip \<longrightarrow> n_id r \<notin> cl_id ` set rows \<longrightarrow>
       int (length rows) = lim \<and>
       (\<forall>x\<in>set (db_notifications d). n_id x \<in> cl_id ` set rows \<longrightarrow> n_next_attempt_at x \<le> n_next_attempt_at r))"
proof (intro conjI ballI allI impI)
  let ?now = "q_now q"
  let ?due = "due_rows ?now skip lim d"
  note eff = claim_effect [OF assms(2)] and ids = claim_ids [OF assms(2)]
  have idset: "cl_id ` set rows = n_id ` set ?due" by (metis ids list.set_map)
  show "distinct (map cl_id rows)" using due_rows_facts(1) [OF assms(1)] ids by simp
  show "int (length rows) \<le> lim" using due_rows_facts(2) [OF assms(1), of ?now skip lim] eff(2,3) by (simp add: le_nat_iff)
  show "cl_id c \<notin> skip" if "c \<in> set rows" for c
    using that due_rows_facts(3) [OF assms(1)] eff(3) by (auto simp: claimed_of_def row_simps)
  show "\<exists>r. lookup_row n_id (cl_id c) (db_notifications d) = Some r \<and> claim_due_pred ?now r \<and>
      c = claimed_of (leased_row ?now lease r)" if c: "c \<in> set rows" for c
  proof -
    obtain r where r: "r \<in> set ?due" "c = claimed_of (leased_row ?now lease r)"
      using c eff(3) by auto
    then show ?thesis
      using due_rows_facts(3) [OF assms(1) r(1)] lookup_row_unique [OF assms(1)]
      by (auto simp: claimed_of_def row_simps)
  qed
  show "lookup_row n_id k (db_notifications d') =
      (if k \<in> cl_id ` set rows then map_option (leased_row ?now lease) (lookup_row n_id k (db_notifications d))
       else lookup_row n_id k (db_notifications d))" for k
    unfolding eff(4) idset
    by (cases "lookup_row n_id k (db_notifications d)")
      (auto simp: leased.lookup_update dest: lookup_row_Some)
  fix r
  assume r: "r \<in> set (db_notifications d)" "claim_due_pred ?now r" "n_id r \<notin> skip" "n_id r \<notin> cl_id ` set rows"
  let ?xs = "filter (\<lambda>r. claim_due_pred ?now r \<and> n_id r \<notin> skip) (db_notifications d)"
  have left: "r \<in> set ?xs" "r \<notin> set (take (nat lim) (sort_key n_next_attempt_at ?xs))"
    using r idset by (auto simp: due_rows_def)
  then have "length ?due = nat lim"
    unfolding due_rows_def by (intro not_in_take) simp_all
  then show "int (length rows) = lim" using eff(2,3) by simp
  show "n_next_attempt_at x \<le> n_next_attempt_at r"
    if x: "x \<in> set (db_notifications d)" "n_id x \<in> cl_id ` set rows" for x
  proof -
    obtain y where "y \<in> set ?due" "n_id y = n_id x" using x(2) idset by auto
    then have "x \<in> set ?due"
      using distinct_keys_eq [OF assms(1) x(1)] due_rows_facts(3) [OF assms(1)] by metis
    then show ?thesis
      unfolding due_rows_def by (rule take_sort_key_prefix) (use left in simp_all)
  qed
qed

section \<open>Sample data\<close>

definition sample_pg :: pg_ops where
  "sample_pg = \<lparr>pg_lower = map ascii_lower, pg_uuid = (\<lambda>s. if s = ''seven'' then Some 7 else None)\<rparr>"

definition sample_q :: "ident \<Rightarrow> time \<Rightarrow> qctx" where
  "sample_q i now = \<lparr>q_pg = sample_pg, q_ident = i, q_now = now\<rparr>"

definition sample_params :: "string \<Rightarrow> upsert_params" where
  "sample_params e = \<lparr>up_email = e, up_token_hash = [1, 2], up_expires = 900, up_source = None,
     up_user_id = Some 7\<rparr>"

definition sample_user :: ident where
  "sample_user = IdUser (Some 7) ''ann@example.org''"

definition sample_row :: "uuid \<Rightarrow> string \<Rightarrow> subscriber" where
  "sample_row k e = proposed_row (sample_q sample_user 100) k (sample_params e)"

definition sample_confirmed :: subscriber where
  "sample_confirmed = confirmed_row 200 (sample_row 1 ''ann@example.org'')"

definition sample_db :: "subscriber list \<Rightarrow> db" where
  "sample_db rs = (empty_db [7])\<lparr>db_subscribers := rs\<rparr>"

definition sample_notification :: "uuid \<Rightarrow> time \<Rightarrow> notification" where
  "sample_notification k due =
     (fresh_notification (sample_q IdService 0) k ''confirm_email'' ''ann@example.org'' JNull)
       \<lparr>n_next_attempt_at := due\<rparr>"

lemmas sample_defs = sample_pg_def sample_q_def sample_params_def sample_user_def sample_row_def
  sample_confirmed_def sample_db_def sample_notification_def empty_db_def

lemma sample_db_simps [simp]:
  "db_subscribers (sample_db rs) = rs" "db_admins (sample_db rs) = []" "db_users (sample_db rs) = [7]"
  "db_notifications (sample_db rs) = []" "db_email_log (sample_db rs) = []"
  by (simp_all add: sample_db_def empty_db_def)

lemma sample_status [simp]:
  "s_status sample_confirmed = Confirmed" "s_status (sample_row k e) = Pending"
  by (simp_all add: sample_confirmed_def sample_row_def proposed_row_def row_simps)

lemma sample_insert:
  "upsert_pending_subscriber (sample_q sample_user 100) 1 (sample_params ''ann@example.org'') (sample_db []) =
     Inr (sample_row 1 ''ann@example.org'', sample_db [sample_row 1 ''ann@example.org''])"
  "upsert_pending_subscriber (sample_q sample_user 100) 2 (sample_params ''bob@example.org'') (sample_db [sample_confirmed]) =
     Inr (sample_row 2 ''bob@example.org'', sample_db [sample_confirmed, sample_row 2 ''bob@example.org''])"
  by code_simp+

lemma sample_confirm:
  "confirm_subscriber_by_id (sample_q IdService 200) 1 (sample_db [sample_row 1 ''ann@example.org'']) =
     Inr (1, sample_db [sample_confirmed])"
  by code_simp

lemma sample_reachable: "reachable_db sample_pg [7] (sample_db [sample_confirmed])"
proof -
  have "reachable_db sample_pg [7] (sample_db [])"
    using reachable_db.start [of sample_pg "[7]"] by (simp add: sample_db_def empty_db_def)
  then have "reachable_db sample_pg [7] (sample_db [sample_row 1 ''ann@example.org''])"
    by (rule reachable_db.step [OF _ db_step.upsert, OF _ sample_insert(1)]) (simp add: sample_q_def)
  then show ?thesis
    by (rule reachable_db.step [OF _ db_step.confirm, OF _ sample_confirm]) (simp add: sample_q_def)
qed

lemma reachable_db_ok_witness: "db_ok sample_pg (sample_db [sample_confirmed])"
  using reachable_db_ok [OF sample_reachable] by simp

lemma subscription_only_moves_forward_witness:
  "\<exists>r'\<in>set (db_subscribers (sample_db [sample_confirmed])). advances (sample_row 1 ''ann@example.org'') r'"
  by (rule subscription_only_moves_forward
      [OF db_steps.more [OF db_steps.none db_step.confirm [OF sample_confirm]]])
    (simp add: sample_db_def empty_db_def)

lemma sample_read:
  "get_subscriber_by_id (sample_q sample_user 100) 1 (sample_db [sample_row 1 ''ann@example.org'']) =
     Inr (sample_row 1 ''ann@example.org'', sample_db [sample_row 1 ''ann@example.org''])"
  by code_simp

text \<open>A full house: the caller's own row, somebody else's, a notification and a log entry.\<close>

definition sample_house :: db where
  "sample_house = (sample_db [sample_row 1 ''ann@example.org'', (sample_row 2 ''bob@example.org'')\<lparr>s_user_id := None\<rparr>])
     \<lparr>db_notifications := [sample_notification 1 40],
      db_email_log := [\<lparr>l_id = 1, l_notification_id = Some 1, l_to_email_hash = [], l_provider = ''resend'',
        l_provider_message_id = None, l_status = LSent, l_error = None, l_created_at = 50\<rparr>]\<rparr>"

lemma sample_house_reads:
  "\<exists>d'. list_email_log (sample_q sample_user 100) 10 0 None sample_house = Inr ([], d')"
  "\<exists>ls d'. list_email_log (sample_q IdService 100) 10 0 None sample_house = Inr (ls, d') \<and> ls \<noteq> []"
  "\<exists>r d'. get_subscriber_by_id (sample_q sample_user 100) 1 sample_house = Inr (r, d')"
  by (simp_all add: list_email_log_def with_text_def opt_text_def read_internal_def may_read_internal_def page_def
      sample_q_def sample_user_def select_internal_def admin_uid_def sample_house_def sample_db_def empty_db_def
      status_filter_def get_subscriber_by_id_def visible_subscribers_def select_subscriber_def sample_row_def
      sample_params_def proposed_row_def one_row_def)

lemma non_admin_reads_own_rows_only_witness:
  "(\<exists>ls d'. list_email_log (sample_q IdService 100) 10 0 None sample_house = Inr (ls, d') \<and> ls \<noteq> []) \<and>
   (\<exists>ls d'. list_email_log (sample_q sample_user 100) 10 0 None sample_house = Inr (ls, d') \<and> ls = []) \<and>
   (\<exists>r d'. get_subscriber_by_id (sample_q sample_user 100) 1 sample_house = Inr (r, d') \<and>
      own_row sample_pg (Some 7) ''ann@example.org'' r)"
proof -
  let ?q = "sample_q sample_user 100"
  have q: "q_ident ?q = IdUser (Some 7) ''ann@example.org''" "\<not> admin_uid sample_house (Some 7)"
    "q_ident (sample_q IdAnon 100) = IdAnon" "q_pg ?q = sample_pg"
    by (simp_all add: sample_q_def sample_user_def admin_uid_def sample_house_def sample_db_def empty_db_def)
  note shown = non_admin_reads_own_rows_only [OF q(1-3)]
  from sample_house_reads(1) obtain d' where "list_email_log ?q 10 0 None sample_house = Inr ([], d')" by blast
  moreover from sample_house_reads(3) obtain r d' where "get_subscriber_by_id ?q 1 sample_house = Inr (r, d')" by blast
  ultimately show ?thesis using shown sample_house_reads(2) unfolding q(4) by blast
qed

lemma is_admin_is_membership_witness:
  "is_admin (sample_q sample_user 100) 7 (sample_db []) = Inr (False, sample_db [])"
  using is_admin_is_membership [of "sample_q sample_user 100" 7 "''ann@example.org''" 7 "sample_db []"]
  by (simp add: sample_q_def sample_user_def sample_db_def empty_db_def)

lemma anon_upsert_is_rejected_witness:
  "upsert_pending_subscriber (sample_q IdAnon 100) 1 (sample_params ''ann@example.org'') (sample_db []) =
     Inl (PgError RowSecurityViolation)"
  by (rule anon_upsert_is_rejected) (code_simp+)

lemma sample_claim:
  "claim_due_notifications (sample_q IdService 500) {} 1 60
     ((sample_db [])\<lparr>db_notifications := [sample_notification 1 40, sample_notification 2 30, sample_notification 3 900]\<rparr>) =
   Inr ([claimed_of (leased_row 500 60 (sample_notification 2 30))],
        (sample_db [])\<lparr>db_notifications := [sample_notification 1 40, leased_row 500 60 (sample_notification 2 30),
           sample_notification 3 900]\<rparr>)"
  by (simp add: claim_due_notifications_def service_only_def due_rows_def claim_due_pred_def sample_defs
      fresh_notification_def update_where_def Let_def)

lemma claim_takes_due_rows_witness:
  "\<exists>rows d'. claim_due_notifications (sample_q IdService 500) {} 1 60
     ((sample_db [])\<lparr>db_notifications := [sample_notification 1 40, sample_notification 2 30, sample_notification 3 900]\<rparr>) =
       Inr (rows, d') \<and> length rows = 1 \<and> distinct (map cl_id rows)"
proof -
  have "distinct (map n_id (db_notifications ((sample_db [])
      \<lparr>db_notifications := [sample_notification 1 40, sample_notification 2 30, sample_notification 3 900]\<rparr>)))"
    by (simp add: sample_notification_def fresh_notification_def)
  from claim_takes_due_rows [OF this sample_claim] sample_claim show ?thesis by auto
qed

end
