(* ===== verification/Pools.thy ===== *)
theory Pools
  imports Lifecycle
begin

text \<open>
  \<open>internal/db/pools.go\<close>: the two pools and how work runs in their transactions. A transaction
  sees the database as the last one left it; it commits exactly if its function returns no
  error. What the outside contributes is in \<open>io\<close>: for the n-th transaction whether it cannot
  begin, whether its commit fails, or whether the commit took effect and only its answer got
  lost, the server's clock, and the uuid \<open>gen_random_uuid()\<close> returns in it.
\<close>

section \<open>Opening the pools\<close>

text \<open>\<open>pgxpool\<close> is a parameter: whether a DSN parses, connects and answers the ping.\<close>

record pgx_ops =
  px_parse :: "string \<Rightarrow> gerror option"
  px_connect :: "string \<Rightarrow> int \<Rightarrow> gerror option"
  px_ping :: "string \<Rightarrow> gerror option"

record pool =
  pool_dsn :: string
  pool_max_conns :: int

datatype user_pool = UserPool pool
datatype service_pool = ServicePool pool

definition pool_defaults :: "int \<Rightarrow> int" where
  "pool_defaults max_conns = (if max_conns < 1 then 10 else max_conns)"

definition new_user_pool :: "pgx_ops \<Rightarrow> string \<Rightarrow> int \<Rightarrow> gerror + user_pool" where
  "new_user_pool px dsn max_conns =
     (if dsn = '''' then Inl (Msg ''user pool dsn is empty'')
      else
        let n = pool_defaults max_conns
        in case px_parse px dsn of
             Some e \<Rightarrow> Inl (Wrapped ''parse user dsn'' e)
           | None \<Rightarrow>
               (case px_connect px dsn n of
                  Some e \<Rightarrow> Inl (Wrapped ''connect user pool'' e)
                | None \<Rightarrow>
                    (case px_ping px dsn of
                       Some e \<Rightarrow> Inl (Wrapped ''ping user pool'' e)
                     | None \<Rightarrow> Inr (UserPool \<lparr>pool_dsn = dsn, pool_max_conns = n\<rparr>))))"

definition new_service_pool :: "pgx_ops \<Rightarrow> string \<Rightarrow> int \<Rightarrow> gerror + service_pool" where
  "new_service_pool px dsn max_conns =
     (if dsn = '''' then Inl (Msg ''service pool dsn is empty'')
      else
        let n = pool_defaults max_conns
        in case px_parse px dsn of
             Some e \<Rightarrow> Inl (Wrapped ''parse service dsn'' e)
           | None \<Rightarrow>
               (case px_connect px dsn n of
                  Some e \<Rightarrow> Inl (Wrapped ''connect service pool'' e)
                | None \<Rightarrow>
                    (case px_ping px dsn of
                       Some e \<Rightarrow> Inl (Wrapped ''ping service pool'' e)
                     | None \<Rightarrow> Inr (ServicePool \<lparr>pool_dsn = dsn, pool_max_conns = n\<rparr>))))"

section \<open>Transactions\<close>

datatype fault = BeginFault gerror | CommitFault gerror | LostCommit gerror

record io =
  io_pg :: pg_ops
  io_fault :: "nat \<Rightarrow> fault option"
  io_uuid :: "nat \<Rightarrow> uuid"
  io_now :: "nat \<Rightarrow> time"

record store =
  st_db :: db
  st_count :: nat

text \<open>The function a transaction runs: it gets the query context and the next uuid.\<close>

type_synonym 'a txn = "qctx \<Rightarrow> uuid \<Rightarrow> 'a query"

definition txn_ctx :: "io \<Rightarrow> ident \<Rightarrow> nat \<Rightarrow> qctx" where
  "txn_ctx io i n = \<lparr>q_pg = io_pg io, q_ident = i, q_now = io_now io n\<rparr>"

definition run_txn :: "io \<Rightarrow> gerror + ident \<Rightarrow> 'a txn \<Rightarrow> store \<Rightarrow> (gerror + 'a) \<times> store" where
  "run_txn io who fn st =
     (let n = st_count st;
          st' = st\<lparr>st_count := n + 1\<rparr>
      in case io_fault io n of
           Some (BeginFault e) \<Rightarrow> (Inl e, st')
         | flt \<Rightarrow>
             (case who of
                Inl e \<Rightarrow> (Inl e, st')
              | Inr i \<Rightarrow>
                  (case fn (txn_ctx io i n) (io_uuid io n) (st_db st) of
                     Inl e \<Rightarrow> (Inl e, st')
                   | Inr (x, d) \<Rightarrow>
                       (case flt of
                          Some (CommitFault e) \<Rightarrow> (Inl e, st')
                        | Some (LostCommit e) \<Rightarrow> (Inl e, st'\<lparr>st_db := d\<rparr>)
                        | _ \<Rightarrow> (Inr x, st'\<lparr>st_db := d\<rparr>)))))"

text \<open>\<open>ServicePool.WithTx\<close>.\<close>

definition with_tx :: "io \<Rightarrow> 'a txn \<Rightarrow> store \<Rightarrow> (gerror + 'a) \<times> store" where
  "with_tx io = run_txn io (Inr IdService)"

text \<open>\<open>UserPool.WithUser\<close>: an empty role means \<open>anon\<close>; any other role name is refused.\<close>

record jwt_context =
  jc_sub :: string
  jc_email :: string
  jc_role :: string

definition valid_role :: "string \<Rightarrow> db_role option" where
  "valid_role r =
     (if r = ''anon'' then Some Anon else if r = ''authenticated'' then Some Authenticated else None)"

definition claims_of :: "string \<Rightarrow> jwt_context \<Rightarrow> jwt_claims" where
  "claims_of role jc =
     \<lparr>j_role = role,
      j_sub = (if jc_sub jc \<noteq> '''' then Some (jc_sub jc) else None),
      j_email = (if jc_email jc \<noteq> '''' then Some (jc_email jc) else None)\<rparr>"

definition with_user ::
  "(string \<Rightarrow> string) \<Rightarrow> io \<Rightarrow> jwt_context \<Rightarrow> 'a txn \<Rightarrow> store \<Rightarrow> (gerror + 'a) \<times> store" where
  "with_user uq io jc fn st =
     (let role = (if jc_role jc = '''' then ''anon'' else jc_role jc)
      in case valid_role role of
           None \<Rightarrow> (Inl (Msg (''invalid db role '' @ go_quote uq role)), st)
         | Some r \<Rightarrow> run_txn io (identify (io_pg io) (UserRole r (claims_of role jc))) fn st)"

text \<open>Inside a transaction: run one query after the other, and treat \<open>ErrNoRows\<close> specially.\<close>

definition q_return :: "'a \<Rightarrow> 'a query" where
  "q_return x d = Inr (x, d)"

definition q_fail :: "gerror \<Rightarrow> 'a query" where
  "q_fail e d = Inl e"

definition q_bind :: "'a query \<Rightarrow> ('a \<Rightarrow> 'b query) \<Rightarrow> 'b query" where
  "q_bind m f d = (case m d of Inl e \<Rightarrow> Inl e | Inr (x, d') \<Rightarrow> f x d')"

definition on_no_rows :: "'a query \<Rightarrow> 'a query \<Rightarrow> 'a query" where
  "on_no_rows m alt d =
     (case m d of
        Inl e \<Rightarrow> if errors_is ErrNoRows e then alt d else Inl e
      | Inr r \<Rightarrow> Inr r)"

lemma q_monad_iff [query_iff]:
  "q_return x d = Inr r1 \<longleftrightarrow> r1 = (x, d)"
  "q_fail e d = Inr r2 \<longleftrightarrow> False"
  "q_bind m f d = Inr r3 \<longleftrightarrow> (\<exists>x d'. m d = Inr (x, d') \<and> f x d' = Inr r3)"
  "on_no_rows m4 alt d = Inr r4 \<longleftrightarrow>
     m4 d = Inr r4 \<or> (\<exists>e. m4 d = Inl e \<and> errors_is ErrNoRows e \<and> alt d = Inr r4)"
  by (auto simp: q_return_def q_fail_def q_bind_def on_no_rows_def split: sum.splits)

section \<open>What a unit of work guarantees\<close>

text \<open>
  The contract of both pools: success means that the function ran, in a context the pool
  allows, and its effect is there; after an error either nothing happened or (the commit's
  answer was lost) the whole effect did. Clients only use these two laws.
\<close>

locale unit_of_work =
  fixes run :: "'a txn \<Rightarrow> store \<Rightarrow> (gerror + 'a) \<times> store" and allowed :: "qctx \<Rightarrow> bool"
  assumes run_ok: "run fn st = (Inr x, st') \<Longrightarrow>
      \<exists>q k. allowed q \<and> fn q k (st_db st) = Inr (x, st_db st')"
    and run_error: "run fn st = (Inl e, st') \<Longrightarrow>
      st_db st' = st_db st \<or> (\<exists>q k x. allowed q \<and> fn q k (st_db st) = Inr (x, st_db st'))"
begin

lemma all_or_nothing:
  "st_db (snd (run fn st)) = st_db st \<or>
   (\<exists>q k x. allowed q \<and> fn q k (st_db st) = Inr (x, st_db (snd (run fn st))))"
  by (cases "run fn st"; cases "fst (run fn st)") (auto dest: run_ok run_error)

lemma run_invariant:
  assumes "I (st_db st)"
    and "\<And>q k x d'. allowed q \<Longrightarrow> fn q k (st_db st) = Inr (x, d') \<Longrightarrow> I d'"
  shows "I (st_db (snd (run fn st)))"
  using all_or_nothing [of fn st] assms by metis

lemma run_relation:
  assumes "R (st_db st) (st_db st)"
    and "\<And>q k x d'. allowed q \<Longrightarrow> fn q k (st_db st) = Inr (x, d') \<Longrightarrow> R (st_db st) d'"
  shows "R (st_db st) (st_db (snd (run fn st)))"
  using assms by (rule run_invariant)

end

lemma run_txn_cases:
  assumes "run_txn io who fn st = (res, st')"
  obtains (failed) e where "res = Inl e" "st_db st' = st_db st"
    | (committed) i x where "who = Inr i" "res = Inr x" "io_fault io (st_count st) = None"
        "fn (txn_ctx io i (st_count st)) (io_uuid io (st_count st)) (st_db st) = Inr (x, st_db st')"
    | (lost) i x e where "who = Inr i" "res = Inl e" "io_fault io (st_count st) = Some (LostCommit e)"
        "fn (txn_ctx io i (st_count st)) (io_uuid io (st_count st)) (st_db st) = Inr (x, st_db st')"
  using assms
  by (auto simp: run_txn_def Let_def split: option.splits fault.splits sum.splits prod.splits)

lemma run_txn_count: "st_count (snd (run_txn io who fn st)) = st_count st + 1"
  by (auto simp: run_txn_def Let_def split: option.splits fault.splits sum.splits prod.splits)

lemma txn_ctx_simps [simp]:
  "q_ident (txn_ctx io i n) = i" "q_pg (txn_ctx io i n) = io_pg io" "q_now (txn_ctx io i n) = io_now io n"
  by (simp_all add: txn_ctx_def)

lemma unit_of_work_run_txn:
  assumes "\<And>i. who = Inr i \<Longrightarrow> P i"
  shows "unit_of_work (run_txn io who) (\<lambda>q. P (q_ident q) \<and> q_pg q = io_pg io)"
proof
  fix fn :: "'a txn" and st st' e x
  show "\<exists>q k. (P (q_ident q) \<and> q_pg q = io_pg io) \<and> fn q k (st_db st) = Inr (x, st_db st')"
    if "run_txn io who fn st = (Inr x, st')"
    using that
  proof (cases rule: run_txn_cases)
    case (committed i y)
    with assms show ?thesis by (intro exI [of _ "txn_ctx io i (st_count st)"] exI) auto
  qed simp_all
  show "st_db st' = st_db st \<or>
      (\<exists>q k x. (P (q_ident q) \<and> q_pg q = io_pg io) \<and> fn q k (st_db st) = Inr (x, st_db st'))"
    if "run_txn io who fn st = (Inl e, st')"
    using that
  proof (cases rule: run_txn_cases)
    case (lost i y e)
    with assms show ?thesis by (intro disjI2 exI [of _ "txn_ctx io i (st_count st)"] exI) auto
  qed simp_all
qed

interpretation service: unit_of_work "with_tx io" "\<lambda>q. q_ident q = IdService \<and> q_pg q = io_pg io" for io
  unfolding with_tx_def by (rule unit_of_work_run_txn) simp

lemma with_user_run:
  "with_user uq io jc fn st = (Inl (Msg (''invalid db role '' @
       go_quote uq (if jc_role jc = '''' then ''anon'' else jc_role jc))), st) \<or>
   (\<exists>r. with_user uq io jc fn st = run_txn io (identify (io_pg io) (UserRole r
       (claims_of (if jc_role jc = '''' then ''anon'' else jc_role jc) jc))) fn st)"
  by (auto simp: with_user_def Let_def split: option.splits)

interpretation user: unit_of_work "with_user uq io jc" "\<lambda>q. q_ident q \<noteq> IdService \<and> q_pg q = io_pg io"
  for uq io jc
proof
  note run = unit_of_work_run_txn [of "identify (io_pg io) (UserRole r cl)" "\<lambda>i. i \<noteq> IdService" for r cl]
  fix fn :: "'a txn" and st st' e x
  show "\<exists>q k. (q_ident q \<noteq> IdService \<and> q_pg q = io_pg io) \<and> fn q k (st_db st) = Inr (x, st_db st')"
    if "with_user uq io jc fn st = (Inr x, st')"
    using that with_user_run [of uq io jc fn st] unit_of_work.run_ok [OF run [OF identify_user]] by fastforce
  show "st_db st' = st_db st \<or>
      (\<exists>q k x. (q_ident q \<noteq> IdService \<and> q_pg q = io_pg io) \<and> fn q k (st_db st) = Inr (x, st_db st'))"
    if "with_user uq io jc fn st = (Inl e, st')"
    using that with_user_run [of uq io jc fn st] unit_of_work.run_error [OF run [OF identify_user]] by fastforce
qed

section \<open>Work on the user pool\<close>

lemma user_steps_confined:
  assumes "(db_step q)\<^sup>*\<^sup>* d d'" and "q_ident q \<noteq> IdService"
  shows "filter (\<lambda>r. s_status r \<noteq> Pending) (db_subscribers d') =
           filter (\<lambda>r. s_status r \<noteq> Pending) (db_subscribers d) \<and>
         db_notifications d' = db_notifications d \<and> db_email_log d' = db_email_log d \<and>
         db_admins d' = db_admins d"
  using assms(1) by induction (auto dest: user_step_confined [OF _ assms(2)])

text \<open>
  C22: handlers that hold the user pool cannot change the state of a subscription, whatever
  the request's identity: for any function made of \<open>dbq\<close> statements, with any JWT context and
  any database fault, the confirmed and unsubscribed rows are the same before and after, no
  row becomes one, and the queue, the e-mail log and the admin list stay as they are.
\<close>

theorem user_pool_is_confined:
  assumes "\<And>q k d x d'. fn q k d = Inr (x, d') \<Longrightarrow> (db_step q)\<^sup>*\<^sup>* d d'"
    and "d = st_db st" and "d' = st_db (snd (with_user uq io jc fn st))"
  shows "filter (\<lambda>r. s_status r \<noteq> Pending) (db_subscribers d') =
           filter (\<lambda>r. s_status r \<noteq> Pending) (db_subscribers d) \<and>
         db_notifications d' = db_notifications d \<and> db_email_log d' = db_email_log d \<and>
         db_admins d' = db_admins d"
  unfolding assms(2,3)
  by (rule user.run_relation) (use user_steps_confined [OF assms(1)] in auto)

text \<open>A transaction that tries to confirm a subscriber through the user pool.\<close>

definition sample_io :: io where
  "sample_io = \<lparr>io_pg = sample_pg, io_fault = (\<lambda>n. None), io_uuid = word_of_nat, io_now = (\<lambda>n. int n * second)\<rparr>"

lemma user_pool_is_confined_witness:
  "filter (\<lambda>r. s_status r \<noteq> Pending) (db_subscribers (st_db (snd
     (with_user id sample_io \<lparr>jc_sub = ''seven'', jc_email = ''ann@example.org'', jc_role = ''authenticated''\<rparr>
       (\<lambda>q k. confirm_subscriber_by_id q 2)
       \<lparr>st_db = sample_db [sample_confirmed, sample_row 2 ''bob@example.org''], st_count = 3\<rparr>)))) =
   [sample_confirmed]"
proof -
  have fn: "(db_step q)\<^sup>*\<^sup>* d d'" if "confirm_subscriber_by_id q 2 d = Inr (x, d')" for q d x d'
    using db_step.confirm [OF that] by (rule r_into_rtranclp)
  show ?thesis
    using conjunct1 [OF user_pool_is_confined [where fn = "\<lambda>q k. confirm_subscriber_by_id q 2"
        and st = "\<lparr>st_db = sample_db [sample_confirmed, sample_row 2 ''bob@example.org''], st_count = 3\<rparr>"
        and uq = id and io = sample_io
        and jc = "\<lparr>jc_sub = ''seven'', jc_email = ''ann@example.org'', jc_role = ''authenticated''\<rparr>",
        OF fn refl refl]]
    by simp
qed

text \<open>
  The role name that goes into \<open>SET LOCAL ROLE\<close> is one of two: any other request is
  refused before a transaction begins.
\<close>

theorem other_roles_are_refused:
  "jc_role jc \<notin> {'''', ''anon'', ''authenticated''} \<Longrightarrow>
     with_user uq io jc fn st = (Inl (Msg (''invalid db role '' @ go_quote uq (jc_role jc))), st)"
  by (auto simp: with_user_def valid_role_def)

lemma other_roles_are_refused_witness:
  "with_user id sample_io \<lparr>jc_sub = '''', jc_email = '''', jc_role = ''service_role''\<rparr> fn st =
     (Inl (Msg (''invalid db role '' @ go_quote id ''service_role'')), st)"
  using other_roles_are_refused [of "\<lparr>jc_sub = '''', jc_email = '''', jc_role = ''service_role''\<rparr>" id sample_io fn st]
  by simp

text \<open>Both pools open with at least one connection, and never with an empty DSN.\<close>

lemma pool_defaults_pos: "1 \<le> pool_defaults n"
  by (simp add: pool_defaults_def)

lemma new_pool_opens:
  "new_user_pool px dsn n = Inr (UserPool p) \<Longrightarrow>
     dsn \<noteq> '''' \<and> p = \<lparr>pool_dsn = dsn, pool_max_conns = pool_defaults n\<rparr> \<and>
     px_parse px dsn = None \<and> px_connect px dsn (pool_defaults n) = None \<and> px_ping px dsn = None"
  "new_service_pool px dsn n = Inr (ServicePool p) \<Longrightarrow>
     dsn \<noteq> '''' \<and> p = \<lparr>pool_dsn = dsn, pool_max_conns = pool_defaults n\<rparr> \<and>
     px_parse px dsn = None \<and> px_connect px dsn (pool_defaults n) = None \<and> px_ping px dsn = None"
  by (auto simp: new_user_pool_def new_service_pool_def Let_def split: if_splits option.splits)

end
