(* ===== verification/Auth.thy ===== *)
theory Auth
  imports Pools "HOL-Library.AList"
begin

text \<open>
  \<open>internal/auth\<close>: the JWT verifier (\<open>jwt.go\<close>) and the middleware that authenticates requests
  and gates the admin routes, with its cache of admin checks (\<open>middleware.go\<close>). The JWT and
  JWKS libraries and the uuid type of \<open>pgtype\<close> are parameters.
\<close>

section \<open>The verifier (jwt.go)\<close>

record auth_config =
  ac_secret :: string
  ac_jwks_url :: string
  ac_project_ref :: string

text \<open>A token's header as a key function sees it, and the keys such a function returns.\<close>

record jwt_header =
  jh_alg :: string
  jh_is_hmac :: bool
  jh_kid :: string

datatype 'k jwt_key = HmacSecret bytes | JwksKey 'k

type_synonym 'k keyfunc = "jwt_header \<Rightarrow> gerror + 'k jwt_key"

record jwt_options =
  jo_issuer :: string
  jo_audience :: string
  jo_methods :: "string list"
  jo_expiration_required :: bool
  jo_leeway :: time
  jo_issued_at :: bool

text \<open>What the parser returns: whether the token is valid, and its claims if they are a map.\<close>

record parsed_token =
  pt_valid :: bool
  pt_claims :: "(string \<times> json) list option"

type_synonym 'k jwt_parser = "jwt_options \<Rightarrow> 'k keyfunc \<Rightarrow> string \<Rightarrow> gerror + parsed_token"

record 'k verifier =
  vf_cfg :: auth_config
  vf_issuer :: string
  vf_jwks :: "'k keyfunc option"

definition new_verifier ::
  "(string \<Rightarrow> gerror + 'k keyfunc) \<Rightarrow> auth_config \<Rightarrow> gerror + 'k verifier" where
  "new_verifier fetch_jwks cfg =
     (if ac_project_ref cfg = '''' then Inl (Msg ''supabase project ref is required'')
      else if ac_secret cfg = '''' \<and> ac_jwks_url cfg = ''''
      then Inl (Msg ''either SUPABASE_JWT_SECRET or SUPABASE_JWKS_URL is required'')
      else if ac_secret cfg \<noteq> '''' \<and> ac_jwks_url cfg \<noteq> ''''
      then Inl (Msg ''set only one of SUPABASE_JWT_SECRET or SUPABASE_JWKS_URL'')
      else
        let v = \<lparr>vf_cfg = cfg, vf_issuer = ''https://'' @ ac_project_ref cfg @ ''.supabase.co/auth/v1'',
                 vf_jwks = None\<rparr>
        in if ac_jwks_url cfg \<noteq> '''' then
             (case fetch_jwks (ac_jwks_url cfg) of
                Inl e \<Rightarrow> Inl (Wrapped ''jwks fetch'' e)
              | Inr kf \<Rightarrow> Inr (v\<lparr>vf_jwks := Some kf\<rparr>))
           else Inr v)"

definition key_func :: "'k verifier \<Rightarrow> 'k keyfunc" where
  "key_func v =
     (case vf_jwks v of
        Some kf \<Rightarrow> kf
      | None \<Rightarrow> (\<lambda>h. if jh_is_hmac h then Inr (HmacSecret (bytes_of_string (ac_secret (vf_cfg v))))
                     else Inl (Msg (''unexpected signing method: '' @ jh_alg h))))"

definition valid_methods :: "'k verifier \<Rightarrow> string list" where
  "valid_methods v =
     (if vf_jwks v \<noteq> None then [''RS256'', ''RS384'', ''RS512'', ''ES256'', ''ES384'', ''ES512'']
      else [''HS256''])"

definition parser_options :: "'k verifier \<Rightarrow> jwt_options" where
  "parser_options v =
     \<lparr>jo_issuer = vf_issuer v, jo_audience = ''authenticated'', jo_methods = valid_methods v,
      jo_expiration_required = True, jo_leeway = 30 * second, jo_issued_at = True\<rparr>"

text \<open>\<open>s, _ := mc[name].(string)\<close>: the empty string if the claim is absent or no string.\<close>

definition claim_string :: "string \<Rightarrow> (string \<times> json) list \<Rightarrow> string" where
  "claim_string name mc = (case map_of (rev mc) name of Some (JStr s) \<Rightarrow> s | _ \<Rightarrow> '''')"

definition verify_jwt ::
  "(string \<Rightarrow> string) \<Rightarrow> 'k jwt_parser \<Rightarrow> 'k verifier \<Rightarrow> string \<Rightarrow> gerror + claims" where
  "verify_jwt ul parse v raw0 =
     (let raw = trim_space raw0
      in if raw = '''' then Inl (Msg ''empty token'')
         else case parse (parser_options v) (key_func v) raw of
           Inl e \<Rightarrow> Inl (Wrapped ''verify token'' e)
         | Inr tok \<Rightarrow>
             if \<not> pt_valid tok then Inl (Msg ''token invalid'')
             else (case pt_claims tok of
               None \<Rightarrow> Inl (Msg ''unexpected claims shape'')
             | Some mc \<Rightarrow>
                 let sub = claim_string ''sub'' mc;
                     email = claim_string ''email'' mc;
                     role = claim_string ''role'' mc
                 in if sub = '''' then Inl (Msg ''missing sub'')
                    else Inr \<lparr>c_sub = sub, c_email = to_lower ul email,
                              c_role = (if role = '''' then ''authenticated'' else role)\<rparr>))"

text \<open>\<open>BearerFromHeader\<close>; no letter of the prefix has a non-ASCII case variant.\<close>

definition bearer_from_header :: "string \<Rightarrow> string" where
  "bearer_from_header h =
     (if length h < 7 \<or> map ascii_lower (take 7 h) \<noteq> ''bearer '' then ''''
      else trim_space (drop 7 h))"

section \<open>The middleware\<close>

text \<open>The state of the running server that handlers change, and how long they slept.\<close>

record cache_entry =
  ce_is_admin :: bool
  ce_expires :: time

record world =
  w_store :: store
  w_cache :: "(string \<times> cache_entry) list"
  w_slept :: time
  w_access :: "access_line list"

text \<open>
  \<open>vf\<close> is the verifier; \<open>au_get\<close> and \<open>au_put\<close> the clock when the cache is read and written;
  \<open>au_order\<close> the order in which Go's map iteration happens to visit the keys.
\<close>

record auth_env =
  au_verify :: "string \<Rightarrow> gerror + claims"
  au_uuid_scan :: "string \<Rightarrow> uuid option"
  au_quote :: "string \<Rightarrow> string"
  au_io :: io
  au_get :: time
  au_put :: time
  au_order :: "string list \<Rightarrow> string list"

definition admin_cache_ttl :: time where "admin_cache_ttl = 60 * second"

definition extract_claims :: "auth_env \<Rightarrow> request \<Rightarrow> gerror + claims option" where
  "extract_claims env r =
     (let raw = bearer_from_header (rq_header r ''Authorization'')
      in if raw = '''' then Inr None
         else case au_verify env raw of Inl e \<Rightarrow> Inl e | Inr c \<Rightarrow> Inr (Some c))"

definition with_claims :: "request \<Rightarrow> claims \<Rightarrow> request" where
  "with_claims r c = r\<lparr>rq_claims := Some c\<rparr>"

definition require_user :: "auth_env \<Rightarrow> world middleware" where
  "require_user env next_h r sw = (case sw of (s, w) \<Rightarrow>
     (case extract_claims env r of
        Inr (Some c) \<Rightarrow> next_h (with_claims r c) (s, w)
      | _ \<Rightarrow> Done (s, write_error r (unauthorized ''authentication required'') w)))"

definition optional_user :: "auth_env \<Rightarrow> world middleware" where
  "optional_user env next_h r sw =
     (case extract_claims env r of
        Inr (Some c) \<Rightarrow> next_h (with_claims r c) sw
      | _ \<Rightarrow> next_h r sw)"

definition cache_get ::
  "time \<Rightarrow> string \<Rightarrow> (string \<times> cache_entry) list \<Rightarrow> bool option \<times> (string \<times> cache_entry) list" where
  "cache_get now sub cache =
     (case map_of cache sub of
        None \<Rightarrow> (None, cache)
      | Some e \<Rightarrow>
          if now > ce_expires e then (None, filter (\<lambda>kv. fst kv \<noteq> sub) cache)
          else (Some (ce_is_admin e), cache))"

text \<open>The eviction loop: delete keys in map order until at most 512 are left.\<close>

fun evict :: "string list \<Rightarrow> (string \<times> cache_entry) list \<Rightarrow> (string \<times> cache_entry) list" where
  "evict [] cache = cache"
| "evict (k # ks) cache =
     (let cache' = filter (\<lambda>kv. fst kv \<noteq> k) cache
      in if length cache' \<le> 512 then cache' else evict ks cache')"

definition cache_put ::
  "(string list \<Rightarrow> string list) \<Rightarrow> time \<Rightarrow> string \<Rightarrow> bool \<Rightarrow>
     (string \<times> cache_entry) list \<Rightarrow> (string \<times> cache_entry) list" where
  "cache_put order now sub b cache =
     (let cache' = (if length cache \<ge> 1024 then evict (order (map fst cache)) cache else cache)
      in AList.update sub \<lparr>ce_is_admin = b, ce_expires = now + admin_cache_ttl\<rparr> cache')"

definition check_admin :: "auth_env \<Rightarrow> claims \<Rightarrow> uuid \<Rightarrow> world \<Rightarrow> (gerror + bool) \<times> world" where
  "check_admin env c u w =
     (case cache_get (au_get env) (c_sub c) (w_cache w) of
        (Some b, cache) \<Rightarrow> (Inr b, w\<lparr>w_cache := cache\<rparr>)
      | (None, cache) \<Rightarrow>
          (case with_user (au_quote env) (au_io env)
                  \<lparr>jc_sub = c_sub c, jc_email = c_email c, jc_role = ''authenticated''\<rparr>
                  (\<lambda>q k. is_admin q u) (w_store w) of
             (Inl e, st) \<Rightarrow> (Inl e, w\<lparr>w_cache := cache, w_store := st\<rparr>)
           | (Inr b, st) \<Rightarrow>
               (Inr b, w\<lparr>w_cache := cache_put (au_order env) (au_put env) (c_sub c) b cache, w_store := st\<rparr>)))"

definition require_admin :: "auth_env \<Rightarrow> world middleware" where
  "require_admin env next_h r sw = (case sw of (s, w) \<Rightarrow>
     (case extract_claims env r of
        Inr (Some c) \<Rightarrow>
          (case au_uuid_scan env (c_sub c) of
             None \<Rightarrow> Done (s, write_error r (unauthorized ''bad subject'') w)
           | Some u \<Rightarrow>
               (case check_admin env c u s of
                  (Inl e, s') \<Rightarrow> Done (s', write_error r (internal_error ''admin check failed'') w)
                | (Inr False, s') \<Rightarrow> Done (s', write_error r (forbidden ''admin required'') w)
                | (Inr True, s') \<Rightarrow> next_h (with_claims r c) (s', w)))
      | _ \<Rightarrow> Done (s, write_error r (unauthorized ''authentication required'') w)))"

section \<open>What a verified token guarantees\<close>

text \<open>
  The documented contract of the JWT library: if it accepts a token as valid, the token's
  algorithm is one of the allowed ones, the key function returned a key for its header, the
  signature verifies under that key, and the registered claims meet the options. \<open>sig_ok\<close> is
  the signature check itself.
\<close>

definition has_audience :: "string \<Rightarrow> (string \<times> json) list \<Rightarrow> bool" where
  "has_audience a mc =
     (case map_of (rev mc) ''aud'' of
        Some (JStr s) \<Rightarrow> s = a
      | Some (JArr vs) \<Rightarrow> JStr a \<in> set vs
      | _ \<Rightarrow> False)"

definition not_expired :: "time \<Rightarrow> time \<Rightarrow> (string \<times> json) list \<Rightarrow> bool" where
  "not_expired now leeway mc =
     (case map_of (rev mc) ''exp'' of Some (JInt e) \<Rightarrow> now < e * second + leeway | _ \<Rightarrow> False)"

definition jwt_contract ::
  "('k jwt_key \<Rightarrow> string \<Rightarrow> string \<Rightarrow> bool) \<Rightarrow> time \<Rightarrow> 'k jwt_parser \<Rightarrow> bool" where
  "jwt_contract sig_ok now parse \<longleftrightarrow>
     (\<forall>opts kf raw tok mc. parse opts kf raw = Inr tok \<longrightarrow> pt_valid tok \<longrightarrow> pt_claims tok = Some mc \<longrightarrow>
        (\<exists>h key. jh_alg h \<in> set (jo_methods opts) \<and> kf h = Inr key \<and> sig_ok key (jh_alg h) raw) \<and>
        claim_string ''iss'' mc = jo_issuer opts \<and> has_audience (jo_audience opts) mc \<and>
        (jo_expiration_required opts \<longrightarrow> not_expired now (jo_leeway opts) mc))"

lemma new_verifier_cases:
  assumes "new_verifier fetch_jwks cfg = Inr v"
  shows "vf_cfg v = cfg" and "vf_issuer v = ''https://'' @ ac_project_ref cfg @ ''.supabase.co/auth/v1''"
    and "ac_project_ref cfg \<noteq> ''''"
    and "(ac_secret cfg \<noteq> '''' \<and> ac_jwks_url cfg = '''' \<and> vf_jwks v = None) \<or>
         (ac_secret cfg = '''' \<and> ac_jwks_url cfg \<noteq> '''' \<and>
          (\<exists>kf. vf_jwks v = Some kf \<and> fetch_jwks (ac_jwks_url cfg) = Inr kf))"
  using assms by (auto simp: new_verifier_def Let_def split: if_splits sum.splits)

lemma verify_jwt_accepts:
  assumes "verify_jwt ul parse v raw = Inr c"
  obtains tok mc where "parse (parser_options v) (key_func v) (trim_space raw) = Inr tok" "pt_valid tok"
    "pt_claims tok = Some mc" "claim_string ''sub'' mc \<noteq> ''''" "c_sub c = claim_string ''sub'' mc"
    "c_email c = to_lower ul (claim_string ''email'' mc)" "c_role c \<noteq> ''''"
  using assms
  by (auto simp: verify_jwt_def Let_def split: if_splits sum.splits option.splits)

text \<open>
  C26: a token is accepted only under the configured key and in its own mode: with a shared
  secret only HS256 signed by that secret, with a JWKS only an RSA or ECDSA algorithm and a
  key the JWKS gave; a public key is never used as an HMAC secret. The issuer is the project,
  the token is not expired (30 seconds leeway) and the subject is not empty.
\<close>

theorem verified_token_is_authentic:
  assumes "jwt_contract sig_ok now parse" and "new_verifier fetch_jwks cfg = Inr v"
    and "verify_jwt ul parse v raw = Inr c"
  shows "\<exists>h key mc. sig_ok key (jh_alg h) (trim_space raw) \<and>
    (ac_secret cfg \<noteq> '''' \<longrightarrow> jh_alg h = ''HS256'' \<and> key = HmacSecret (bytes_of_string (ac_secret cfg))) \<and>
    (ac_secret cfg = '''' \<longrightarrow> jh_alg h \<in> {''RS256'', ''RS384'', ''RS512'', ''ES256'', ''ES384'', ''ES512''} \<and>
       (\<exists>kf. fetch_jwks (ac_jwks_url cfg) = Inr kf \<and> kf h = Inr key)) \<and>
    claim_string ''iss'' mc = ''https://'' @ ac_project_ref cfg @ ''.supabase.co/auth/v1'' \<and>
    has_audience ''authenticated'' mc \<and> not_expired now (30 * second) mc \<and>
    c_sub c = claim_string ''sub'' mc \<and> c_sub c \<noteq> ''''"
proof -
  note v = new_verifier_cases [OF assms(2)]
  from assms(3) obtain tok mc where tok: "parse (parser_options v) (key_func v) (trim_space raw) = Inr tok"
    "pt_valid tok" "pt_claims tok = Some mc" "claim_string ''sub'' mc \<noteq> ''''" "c_sub c = claim_string ''sub'' mc"
    by (rule verify_jwt_accepts)
  obtain h key where key: "jh_alg h \<in> set (valid_methods v)" "key_func v h = Inr key"
      "sig_ok key (jh_alg h) (trim_space raw)"
    and reg: "claim_string ''iss'' mc = vf_issuer v" "has_audience ''authenticated'' mc" "not_expired now (30 * second) mc"
    using assms(1) [unfolded jwt_contract_def, rule_format, OF tok(1-3)] by (auto simp: parser_options_def)
  from v(4) show ?thesis
  proof
    assume a: "ac_secret cfg \<noteq> '''' \<and> ac_jwks_url cfg = '''' \<and> vf_jwks v = None"
    then have "jh_alg h = ''HS256''" "key = HmacSecret (bytes_of_string (ac_secret cfg))"
      using key v(1) by (auto simp: valid_methods_def key_func_def split: if_splits)
    with a key reg tok v show ?thesis by (intro exI [of _ h] exI [of _ key] exI [of _ mc]) simp
  next
    assume b: "ac_secret cfg = '''' \<and> ac_jwks_url cfg \<noteq> '''' \<and>
      (\<exists>kf. vf_jwks v = Some kf \<and> fetch_jwks (ac_jwks_url cfg) = Inr kf)"
    then have "jh_alg h \<in> {''RS256'', ''RS384'', ''RS512'', ''ES256'', ''ES384'', ''ES512''}"
      "\<exists>kf. fetch_jwks (ac_jwks_url cfg) = Inr kf \<and> kf h = Inr key"
      using key by (auto simp: valid_methods_def key_func_def)
    with b key reg tok v show ?thesis by (intro exI [of _ h] exI [of _ key] exI [of _ mc]) simp
  qed
qed

text \<open>A parser that accepts one token, signed with one secret.\<close>

definition sample_claims :: "(string \<times> json) list" where
  "sample_claims = [(''iss'', JStr ''https://p.supabase.co/auth/v1''), (''aud'', JStr ''authenticated''),
     (''exp'', JInt 100), (''sub'', JStr ''seven''), (''email'', JStr ''Ann@Example.org'')]"

definition sample_sig :: "unit jwt_key \<Rightarrow> string \<Rightarrow> string \<Rightarrow> bool" where
  "sample_sig key alg raw \<longleftrightarrow> key = HmacSecret (bytes_of_string ''s3'') \<and> alg = ''HS256'' \<and> raw = ''tok''"

definition sample_parser :: "unit jwt_parser" where
  "sample_parser opts kf raw =
     (let h = \<lparr>jh_alg = ''HS256'', jh_is_hmac = True, jh_kid = ''''\<rparr>
      in if jh_alg h \<notin> set (jo_methods opts) then Inl (Msg ''signing method'')
         else case kf h of
           Inl e \<Rightarrow> Inl e
         | Inr key \<Rightarrow>
             if sample_sig key (jh_alg h) raw \<and> claim_string ''iss'' sample_claims = jo_issuer opts \<and>
                has_audience (jo_audience opts) sample_claims \<and> not_expired (5 * second) (jo_leeway opts) sample_claims
             then Inr \<lparr>pt_valid = True, pt_claims = Some sample_claims\<rparr>
             else Inl (Msg ''signature is invalid''))"

lemma sample_parser_contract: "jwt_contract sample_sig (5 * second) sample_parser"
  unfolding jwt_contract_def sample_parser_def Let_def
  by (auto split: if_splits sum.splits intro!: exI [of _ "\<lparr>jh_alg = ''HS256'', jh_is_hmac = True, jh_kid = ''''\<rparr>"])

definition sample_auth_config :: auth_config where
  "sample_auth_config = \<lparr>ac_secret = ''s3'', ac_jwks_url = '''', ac_project_ref = ''p''\<rparr>"

definition sample_verifier :: "unit verifier" where
  "sample_verifier = \<lparr>vf_cfg = sample_auth_config, vf_issuer = ''https://p.supabase.co/auth/v1'', vf_jwks = None\<rparr>"

lemma sample_verifier_built: "new_verifier (\<lambda>u. Inl (Msg ''none'')) sample_auth_config = Inr sample_verifier"
  by (simp add: new_verifier_def sample_auth_config_def sample_verifier_def)

lemma sample_verified:
  "verify_jwt id sample_parser sample_verifier ''tok'' =
     Inr \<lparr>c_sub = ''seven'', c_email = ''ann@example.org'', c_role = ''authenticated''\<rparr>"
proof -
  have trim: "trim_space ''tok'' = ''tok''" by (rule trim_space_visible) (simp_all add: visible_def)
  have ann: "to_lower id ''Ann@Example.org'' = ''ann@example.org''" by code_simp
  have parsed: "sample_parser (parser_options sample_verifier) (key_func sample_verifier) ''tok'' =
      Inr \<lparr>pt_valid = True, pt_claims = Some sample_claims\<rparr>"
    by code_simp
  show ?thesis unfolding verify_jwt_def trim Let_def parsed
    by (simp add: claim_string_def sample_claims_def ann)
qed

lemma verified_token_is_authentic_witness:
  "\<exists>key (h :: jwt_header) mc. sample_sig key (jh_alg h) (trim_space ''tok'') \<and> jh_alg h = ''HS256'' \<and>
     not_expired (5 * second) (30 * second) mc"
proof -
  have "ac_secret sample_auth_config \<noteq> ''''" by (simp add: sample_auth_config_def)
  moreover obtain h :: jwt_header and key mc where "sample_sig key (jh_alg h) (trim_space ''tok'')"
    "ac_secret sample_auth_config \<noteq> '''' \<longrightarrow> jh_alg h = ''HS256'' \<and>
       key = HmacSecret (bytes_of_string (ac_secret sample_auth_config))"
    "not_expired (5 * second) (30 * second) mc"
    using verified_token_is_authentic [OF sample_parser_contract sample_verifier_built sample_verified]
    by (elim exE conjE) (rule that)
  ultimately show ?thesis by (intro exI [of _ key] exI [of _ h] exI [of _ mc] conjI) simp_all
qed

section \<open>The admin cache\<close>

definition cache_ok :: "(string \<times> cache_entry) list \<Rightarrow> bool" where
  "cache_ok cache \<longleftrightarrow> distinct (map fst cache) \<and> length cache \<le> 1024"

text \<open>Every entry stems from a recorded check: whose, with what result, and when.\<close>

definition recorded :: "(string \<times> bool \<times> time) set \<Rightarrow> (string \<times> cache_entry) list \<Rightarrow> bool" where
  "recorded H cache \<longleftrightarrow> (\<forall>(k, e)\<in>set cache. (k, ce_is_admin e, ce_expires e - admin_cache_ttl) \<in> H)"

lemma recorded_mono: "recorded H cache \<Longrightarrow> H \<subseteq> H' \<Longrightarrow> set cache' \<subseteq> set cache \<Longrightarrow> recorded H' cache'"
  by (fastforce simp: recorded_def)

lemma cache_get_facts:
  assumes "cache_get now sub cache = (res, cache')"
  shows "set cache' \<subseteq> set cache" and "cache_ok cache \<Longrightarrow> cache_ok cache'"
    and "res = Some b \<Longrightarrow> cache' = cache \<and> (\<exists>e. (sub, e) \<in> set cache \<and> ce_is_admin e = b \<and> now \<le> ce_expires e)"
proof -
  have len: "length (filter P cache) \<le> 1024" if "length cache \<le> 1024" for P
    using length_filter_le that by (rule le_trans)
  show "set cache' \<subseteq> set cache" "cache_ok cache \<Longrightarrow> cache_ok cache'"
    "res = Some b \<Longrightarrow> cache' = cache \<and> (\<exists>e. (sub, e) \<in> set cache \<and> ce_is_admin e = b \<and> now \<le> ce_expires e)"
    using assms len
    by (auto simp: cache_get_def cache_ok_def distinct_map_filter split: option.splits if_splits dest!: map_of_SomeD)
qed

lemma evict_facts:
  "set (evict ks cache) \<subseteq> set cache"
  "distinct (map fst cache) \<Longrightarrow> distinct (map fst (evict ks cache))"
  "fst ` set cache \<subseteq> set ks \<Longrightarrow> length (evict ks cache) \<le> 512"
proof (induction ks cache rule: evict.induct)
  case (2 k ks cache)
  {
    case 1
    then show ?case using 2(1) by (auto simp: Let_def)
  next
    case 2
    then show ?case using \<open>_ \<Longrightarrow> _ \<Longrightarrow> distinct _ \<Longrightarrow> _\<close> by (auto simp: Let_def distinct_map_filter)
  next
    case 3
    then show ?case using \<open>_ \<Longrightarrow> _ \<Longrightarrow> _ \<subseteq> _ \<Longrightarrow> length _ \<le> _\<close> by (auto simp: Let_def)
  }
qed auto

lemma cache_put_facts:
  assumes "cache_ok cache" and "\<And>ks. set (order ks) = set ks"
  shows "cache_ok (cache_put order now sub b cache)"
    and "recorded H cache \<Longrightarrow> recorded (insert (sub, b, now) H) (cache_put order now sub b cache)"
    and "map_of (cache_put order now sub b cache) sub =
           Some \<lparr>ce_is_admin = b, ce_expires = now + admin_cache_ttl\<rparr>"
proof -
  define c where "c = (if length cache \<ge> 1024 then evict (order (map fst cache)) cache else cache)"
  have put: "cache_put order now sub b cache = AList.update sub \<lparr>ce_is_admin = b, ce_expires = now + admin_cache_ttl\<rparr> c"
    by (simp add: cache_put_def c_def)
  have "length c < 1024"
    using evict_facts(3) [of cache "order (map fst cache)"] assms(2) by (auto simp: c_def)
  moreover have "distinct (map fst c)"
    using assms(1) evict_facts(2) by (auto simp: c_def cache_ok_def)
  moreover have "length (AList.update k v xs) \<le> Suc (length xs)" for k :: string and v :: cache_entry and xs
    by (induction xs) auto
  ultimately show "cache_ok (cache_put order now sub b cache)"
    unfolding put cache_ok_def by (meson distinct_update le_trans less_eq_Suc_le)
  have "set c \<subseteq> set cache" using evict_facts(1) by (auto simp: c_def)
  moreover have "set (AList.update k v xs) \<subseteq> insert (k, v) (set xs)" for k :: string and v :: cache_entry and xs
    by (induction xs) auto
  ultimately show "recorded (insert (sub, b, now) H) (cache_put order now sub b cache)" if "recorded H cache"
    using that unfolding put recorded_def by fastforce
  show "map_of (cache_put order now sub b cache) sub = Some \<lparr>ce_is_admin = b, ce_expires = now + admin_cache_ttl\<rparr>"
    by (simp add: put update_conv)
qed

lemma is_admin_ok:
  assumes "with_user uq io jc (\<lambda>q k. is_admin q u) st = (Inr b, st')"
  shows "b \<longrightarrow> u \<in> a_user_id ` set (db_admins (st_db st))" and "st_db st' = st_db st"
proof -
  obtain q where "is_admin q u (st_db st) = Inr (b, st_db st')"
    using user.run_ok [OF assms] by blast
  then show "b \<longrightarrow> u \<in> a_user_id ` set (db_admins (st_db st))" "st_db st' = st_db st"
    by (auto simp: is_admin_def query_iff list_ex_iff)
qed

text \<open>
  C27: an admin check is answered "yes" only if the database says so now, or said so for this
  subject at most a minute ago: with \<open>H\<close> the checks the cache stems from, the cache stays
  explained by \<open>H\<close> and the present check, and never holds more than 1024 entries, whatever
  order the eviction visits the keys in.
\<close>

theorem admin_check_is_recent:
  assumes "cache_ok (w_cache w)" and "recorded H (w_cache w)"
    and "\<And>ks. set (au_order env ks) = set ks" and "check_admin env c u w = (res, w')"
  shows "cache_ok (w_cache w') \<and>
    (\<exists>b. (b \<longrightarrow> u \<in> a_user_id ` set (db_admins (st_db (w_store w)))) \<and>
         recorded (insert (c_sub c, b, au_put env) H) (w_cache w')) \<and>
    (res = Inr True \<longrightarrow>
       (\<exists>t. (c_sub c, True, t) \<in> H \<and> au_get env \<le> t + 60 * second) \<or>
       u \<in> a_user_id ` set (db_admins (st_db (w_store w))))"
proof -
  obtain hit cache where get: "cache_get (au_get env) (c_sub c) (w_cache w) = (hit, cache)" by fastforce
  note g = cache_get_facts [OF get]
  have kept: "recorded (insert (c_sub c, b, au_put env) H) cache" for b
    by (rule recorded_mono [OF assms(2) _ g(1)]) auto
  show ?thesis
  proof (cases hit)
    case (Some b)
    then have res: "res = Inr b" "w_cache w' = cache" using assms(4) get by (auto simp: check_admin_def)
    obtain e where e: "(c_sub c, e) \<in> set (w_cache w)" "ce_is_admin e = b" "au_get env \<le> ce_expires e"
      using g(3) [OF Some] by blast
    have "b \<longrightarrow> (\<exists>t. (c_sub c, True, t) \<in> H \<and> au_get env \<le> t + 60 * second)"
      using e assms(2) by (intro impI exI [of _ "ce_expires e - admin_cache_ttl"])
        (auto simp: recorded_def admin_cache_ttl_def)
    then show ?thesis using res g(2) [OF assms(1)] kept [of False] by auto
  next
    case None
    obtain r st where run: "with_user (au_quote env) (au_io env)
        \<lparr>jc_sub = c_sub c, jc_email = c_email c, jc_role = ''authenticated''\<rparr> (\<lambda>q k. is_admin q u) (w_store w) = (r, st)"
      by fastforce
    show ?thesis
    proof (cases r)
      case (Inl e)
      then show ?thesis
        using assms(4) get None run g(2) [OF assms(1)] kept [of False] by (auto simp: check_admin_def)
    next
      case (Inr b)
      then have w': "res = Inr b" "w_cache w' = cache_put (au_order env) (au_put env) (c_sub c) b cache"
        using assms(4) get None run by (auto simp: check_admin_def)
      note put = cache_put_facts(1,2) [OF g(2) [OF assms(1)] assms(3), where now = "au_put env" and sub = "c_sub c" and b = b]
      have "recorded H cache" by (rule recorded_mono [OF assms(2) _ g(1)]) auto
      then show ?thesis using w' put(1,2) is_admin_ok(1) [OF run [unfolded Inr]] by auto
    qed
  qed
qed

definition sample_auth_env :: auth_env where
  "sample_auth_env = \<lparr>au_verify = verify_jwt id sample_parser sample_verifier,
     au_uuid_scan = (\<lambda>s. if s = ''seven'' then Some 7 else None), au_quote = id, au_io = sample_io,
     au_get = 30 * second, au_put = 31 * second, au_order = id\<rparr>"

definition sample_person :: claims where
  "sample_person = \<lparr>c_sub = ''seven'', c_email = ''ann@example.org'', c_role = ''authenticated''\<rparr>"

definition sample_world :: world where
  "sample_world = \<lparr>w_store = \<lparr>st_db = sample_db [sample_confirmed], st_count = 1\<rparr>,
     w_cache = [(''seven'', \<lparr>ce_is_admin = True, ce_expires = 70 * second\<rparr>)], w_slept = 0, w_access = []\<rparr>"

text \<open>Here the caller is no admin any more, but the check of 20 seconds ago still counts.\<close>

lemma sample_check: "check_admin sample_auth_env sample_person 7 sample_world = (Inr True, sample_world)"
  by (simp add: check_admin_def cache_get_def sample_auth_env_def sample_person_def sample_world_def second_def)

lemma admin_check_is_recent_witness:
  "cache_ok (w_cache sample_world) \<and> 7 \<notin> a_user_id ` set (db_admins (st_db (w_store sample_world)))"
proof -
  have ok: "cache_ok (w_cache sample_world)" by (simp add: sample_world_def cache_ok_def)
  have rec: "recorded {(''seven'', True, 10 * second)} (w_cache sample_world)"
    by (simp add: sample_world_def recorded_def admin_cache_ttl_def second_def)
  have order: "set (au_order sample_auth_env ks) = set ks" for ks by (simp add: sample_auth_env_def)
  show ?thesis
    using admin_check_is_recent [OF ok rec order sample_check] by (simp add: sample_world_def)
qed

text \<open>
  A verdict put into the cache is what the next look-up finds for exactly a minute, be it
  positive or negative; after that there is none.
\<close>

theorem cached_verdict_lasts_a_minute:
  assumes "cache_ok cache" and "\<And>ks. set (order ks) = set ks"
  shows "fst (cache_get now' sub (cache_put order now sub b cache)) =
           (if now' \<le> now + 60 * second then Some b else None)"
  using cache_put_facts(3) [OF assms, of now sub b]
  by (simp add: cache_get_def admin_cache_ttl_def)

lemma cached_verdict_lasts_a_minute_witness:
  "fst (cache_get (60 * second) ''x'' (cache_put id 0 ''x'' False [])) = Some False"
  using cached_verdict_lasts_a_minute [of "[]" id "60 * second" "''x''" 0 False] by (simp add: cache_ok_def)

end
