(* ===== verification/Base64.thy ===== *)
theory Base64
  imports Prelude
begin

text \<open>
  \<open>encoding/base64\<close>'s \<open>RawURLEncoding\<close> (URL-safe alphabet, no padding), which
  \<open>internal/tokens\<close> uses for every token. The decoder is Go's: it skips carriage returns
  and line feeds anywhere in the text and does not check the unused low bits of the last
  character.
\<close>

definition url_alphabet :: string where
  "url_alphabet = ''ABCDEFGHIJKLMNOPQRSTUVWXYZabcdefghijklmnopqrstuvwxyz0123456789-_''"

definition enc_char :: "nat \<Rightarrow> char" where
  "enc_char n = url_alphabet ! n"

definition dec_char :: "char \<Rightarrow> nat option" where
  "dec_char c =
     (let i = length (takeWhile (\<lambda>x. x \<noteq> c) url_alphabet)
      in if i < 64 then Some i else None)"

fun enc_groups :: "nat list \<Rightarrow> nat list" where
  "enc_groups [] = []"
| "enc_groups [a] = [a div 4, (a mod 4) * 16]"
| "enc_groups [a, b] = [a div 4, (a mod 4) * 16 + b div 16, (b mod 16) * 4]"
| "enc_groups (a # b # c # r) =
     a div 4 # ((a mod 4) * 16 + b div 16) # ((b mod 16) * 4 + c div 64) # (c mod 64) # enc_groups r"

fun dec_groups :: "nat list \<Rightarrow> nat list option" where
  "dec_groups [] = Some []"
| "dec_groups [x] = None"
| "dec_groups [x, y] = Some [x * 4 + y div 16]"
| "dec_groups [x, y, z] = Some [x * 4 + y div 16, (y mod 16) * 16 + z div 4]"
| "dec_groups (x # y # z # w # r) =
     map_option (\<lambda>bs. (x * 4 + y div 16) # ((y mod 16) * 16 + z div 4) # ((z mod 4) * 64 + w) # bs)
       (dec_groups r)"

definition b64_encode :: "bytes \<Rightarrow> string" where
  "b64_encode bs = map enc_char (enc_groups (map unat bs))"

definition is_newline :: "char \<Rightarrow> bool" where
  "is_newline c \<longleftrightarrow> c = CHR 0x0A \<or> c = CHR 0x0D"

definition b64_decode :: "string \<Rightarrow> bytes option" where
  "b64_decode s =
     (case those (map dec_char (filter (\<lambda>c. \<not> is_newline c) s)) of
        None \<Rightarrow> None
      | Some xs \<Rightarrow> map_option (map word_of_nat) (dec_groups xs))"

section \<open>Round trip\<close>

lemma alphabet_length [simp]: "length url_alphabet = 64"
  by (simp add: url_alphabet_def)

lemma alphabet_distinct: "distinct url_alphabet"
  by (simp add: url_alphabet_def)

lemma alphabet_no_newline: "\<forall>c\<in>set url_alphabet. \<not> is_newline c"
  by (simp add: url_alphabet_def is_newline_def)

lemma takeWhile_nth_length:
  "distinct xs \<Longrightarrow> i < length xs \<Longrightarrow> length (takeWhile (\<lambda>x. x \<noteq> xs ! i) xs) = i"
proof (induction xs arbitrary: i)
  case Nil
  then show ?case by simp
next
  case (Cons x xs)
  then show ?case by (cases i) (auto simp: nth_Cons split: nat.splits)
qed

lemma dec_enc_char [simp]: "n < 64 \<Longrightarrow> dec_char (enc_char n) = Some n"
  by (simp add: dec_char_def enc_char_def takeWhile_nth_length alphabet_distinct)

lemma enc_char_in_alphabet: "n < 64 \<Longrightarrow> enc_char n \<in> set url_alphabet"
  by (simp add: enc_char_def)

lemma enc_groups_range: "\<forall>b\<in>set bs. b < 256 \<Longrightarrow> \<forall>x\<in>set (enc_groups bs). x < 64"
  by (induction bs rule: enc_groups.induct) auto

lemma byte_digits:
  fixes b :: nat
  assumes "b < 256"
  shows "b div 16 < 16" "b div 64 < 4"
    "b div 16 div 16 = 0" "b div 16 mod 16 = b div 16" "b div 64 div 4 = 0" "b div 64 mod 4 = b div 64"
  using assms by (simp_all add: less_mult_imp_div_less)

lemma dec_enc_groups: "\<forall>b\<in>set bs. b < 256 \<Longrightarrow> dec_groups (enc_groups bs) = Some bs"
  by (induction bs rule: enc_groups.induct) (auto simp: byte_digits)

lemma unat_byte_less: "unat (b :: byte) < 256"
  using unsigned_less [of b] by simp

lemma those_map_dec: "\<forall>x\<in>set xs. x < 64 \<Longrightarrow> those (map (dec_char \<circ> enc_char) xs) = Some xs"
  by (induction xs) auto

lemma b64_encode_alphabet: "set (b64_encode bs) \<subseteq> set url_alphabet"
  using enc_groups_range [of "map unat bs"]
  by (auto simp: b64_encode_def unat_byte_less intro: enc_char_in_alphabet)

lemma b64_decode_encode: "b64_decode (b64_encode bs) = Some bs"
proof -
  have "filter (\<lambda>c. \<not> is_newline c) (b64_encode bs) = b64_encode bs"
    using b64_encode_alphabet [of bs] alphabet_no_newline by (auto simp: filter_id_conv)
  moreover have "those (map dec_char (b64_encode bs)) = Some (enc_groups (map unat bs))"
    using enc_groups_range [of "map unat bs"]
    by (simp add: b64_encode_def unat_byte_less those_map_dec)
  moreover have "dec_groups (enc_groups (map unat bs)) = Some (map unat bs)"
    by (rule dec_enc_groups) (simp add: unat_byte_less)
  ultimately show ?thesis by (simp add: b64_decode_def comp_def)
qed

interpretation b64: codec b64_encode b64_decode
  by unfold_locales (rule b64_decode_encode)

lemma b64_decode_newline:
  "is_newline c \<Longrightarrow> b64_decode (s @ c # t) = b64_decode (s @ t)"
  by (simp add: b64_decode_def)

end
