(* ===== verification/Tokens.thy ===== *)
theory Tokens
  imports Base64
begin

text \<open>
  \<open>internal/tokens/tokens.go\<close>: the HMAC-signed, purpose-bound tokens of the confirm and
  unsubscribe links. HMAC-SHA256 is the parameter \<open>hmac\<close> (key, then message); its 32-byte
  result is a \<open>256 word\<close>. The clock is an argument (\<open>now\<close>).
\<close>

type_synonym mac_fun = "bytes \<Rightarrow> bytes \<Rightarrow> digest"
type_synonym purpose = string

definition purpose_confirm_subscriber :: purpose where
  "purpose_confirm_subscriber = ''confirm_subscriber''"

definition purpose_unsubscribe_subscriber :: purpose where
  "purpose_unsubscribe_subscriber = ''unsubscribe_subscriber''"

definition header_len :: nat where "header_len = 1 + 1 + 8 + 8"
definition mac_len :: nat where "mac_len = 32"

record signer = signer_key :: bytes

datatype token_error =
    UnknownPurpose purpose
  | Malformed
  | TooShort
  | BadSignature
  | BadVersion
  | PurposeMismatch
  | Expired

definition purpose_byte :: "purpose \<Rightarrow> byte" where
  "purpose_byte p =
     (if p = purpose_confirm_subscriber then 1
      else if p = purpose_unsubscribe_subscriber then 2
      else 0)"

definition new_signer :: "bytes \<Rightarrow> panic + signer" where
  "new_signer key =
     (if length key < 32 then Inl (Panic ''tokens: signing key must be at least 32 bytes'')
      else Inr \<lparr>signer_key = key\<rparr>)"

text \<open>The signed part of a token: version, purpose, issue time, expiry time, subject.\<close>

definition token_payload :: "byte \<Rightarrow> int64 \<Rightarrow> int64 \<Rightarrow> bytes \<Rightarrow> bytes" where
  "token_payload pt issued expires subject =
     1 # pt # be_bytes 8 issued @ be_bytes 8 expires @ subject"

definition expiry_seconds :: "time \<Rightarrow> int" where
  "expiry_seconds t = (if t = zero_time then 0 else unix_seconds t)"

definition issue :: "mac_fun \<Rightarrow> time \<Rightarrow> signer \<Rightarrow> purpose \<Rightarrow> bytes \<Rightarrow> time \<Rightarrow> token_error + string" where
  "issue hmac now s purpose subject expires_at =
     (let pt = purpose_byte purpose in
      if pt = 0 then Inl (UnknownPurpose purpose)
      else
        let payload = token_payload pt (word_of_int (unix_seconds now))
                        (word_of_int (expiry_seconds expires_at)) subject;
            sig = digest_bytes (hmac (signer_key s) payload)
        in Inr (b64_encode (payload @ sig)))"

text \<open>
  The checks in the code's order. A raw token of at least 50 bytes has 18 header bytes, so
  the reads of bytes 0, 1 and 10 to 17 are in range.
\<close>

definition verify :: "mac_fun \<Rightarrow> time \<Rightarrow> signer \<Rightarrow> string \<Rightarrow> purpose \<Rightarrow> token_error + bytes" where
  "verify hmac now s token expected =
     (case b64_decode token of
        None \<Rightarrow> Inl Malformed
      | Some raw \<Rightarrow>
          if length raw < header_len + mac_len then Inl TooShort
          else
            let payload = take (length raw - mac_len) raw;
                sig = drop (length raw - mac_len) raw
            in if sig \<noteq> digest_bytes (hmac (signer_key s) payload) then Inl BadSignature
               else if payload ! 0 \<noteq> 1 then Inl BadVersion
               else if payload ! 1 \<noteq> purpose_byte expected then Inl PurposeMismatch
               else
                 let expiry = sint (of_be_bytes 0 (take 8 (drop 10 payload)) :: int64)
                 in if expiry \<noteq> 0 \<and> expiry < unix_seconds now then Inl Expired
                    else Inr (drop header_len payload))"

text \<open>\<open>Hash\<close>: SHA-256 of a token's text (the hash function is a parameter).\<close>

definition token_hash :: "(bytes \<Rightarrow> digest) \<Rightarrow> string \<Rightarrow> bytes" where
  "token_hash sha256 token = digest_bytes (sha256 (bytes_of_string token))"

section \<open>Layout of the payload\<close>

lemma purpose_bytes [simp]:
  "purpose_byte purpose_confirm_subscriber = 1"
  "purpose_byte purpose_unsubscribe_subscriber = 2"
  by (simp_all add: purpose_byte_def purpose_confirm_subscriber_def purpose_unsubscribe_subscriber_def)

lemma length_payload [simp]: "length (token_payload pt i e sub) = header_len + length sub"
  by (simp add: token_payload_def header_len_def)

lemma payload_fields:
  "token_payload pt i e sub ! 0 = 1"
  "token_payload pt i e sub ! Suc 0 = pt"
  "take 8 (drop 10 (token_payload pt i e sub)) = be_bytes 8 e"
  "drop header_len (token_payload pt i e sub) = sub"
  by (simp_all add: token_payload_def header_len_def)

lemma of_be_bytes_8 [simp]: "of_be_bytes 0 (be_bytes 8 w) = (w :: int64)"
  by (simp add: of_be_bytes_be_bytes take_bit_word_eq_self)

lemma payload_eq_iff:
  "token_payload pt i e sub = token_payload pt' i' e' sub' \<longleftrightarrow>
     pt = pt' \<and> i = i' \<and> e = e' \<and> sub = sub'"
  by (simp add: token_payload_def be64.append_eq_iff)

lemma payload_exists:
  assumes "header_len \<le> length p" and "p ! 0 = 1"
  shows "\<exists>i. p = token_payload (p ! 1) i (of_be_bytes 0 (take 8 (drop 10 p))) (drop header_len p)"
proof -
  obtain a b r where p: "p = a # b # r" "16 \<le> length r"
    using assms(1) by (cases p; cases "tl p") (auto simp: header_len_def)
  obtain i e :: int64 where "take 8 r = be_bytes 8 i" and "take 8 (drop 8 r) = be_bytes 8 e"
    using int64_bytes [of "take 8 r"] int64_bytes [of "take 8 (drop 8 r)"] p(2) by auto
  moreover have "r = take 8 r @ take 8 (drop 8 r) @ drop 16 r"
    using append_take_drop_id [of 8 r] append_take_drop_id [of 8 "drop 8 r"] by simp
  ultimately have "p = token_payload (p ! 1) i e (drop header_len p)" "take 8 (drop 10 p) = be_bytes 8 e"
    using p assms(2) by (simp_all add: token_payload_def header_len_def)
  then show ?thesis by (metis of_be_bytes_8)
qed

section \<open>What \<open>Verify\<close> accepts\<close>

lemma verify_signed:
  assumes "b64_decode tok = Some (pl @ digest_bytes (hmac (signer_key s) pl))" and "header_len \<le> length pl"
  shows "verify hmac now s tok q =
    (if pl ! 0 \<noteq> 1 then Inl BadVersion
     else if pl ! 1 \<noteq> purpose_byte q then Inl PurposeMismatch
     else if sint (of_be_bytes 0 (take 8 (drop 10 pl)) :: int64) \<noteq> 0 \<and>
             sint (of_be_bytes 0 (take 8 (drop 10 pl)) :: int64) < unix_seconds now then Inl Expired
     else Inr (drop header_len pl))"
  using assms by (simp add: verify_def dig.length_enc mac_len_def Let_def)

lemma verify_signature:
  assumes "verify hmac now s tok q = r" and "r \<in> {Inl BadVersion, Inl PurposeMismatch, Inl Expired} \<union> range Inr"
  obtains pl where "b64_decode tok = Some (pl @ digest_bytes (hmac (signer_key s) pl))"
    and "header_len \<le> length pl"
proof -
  obtain raw where raw: "b64_decode tok = Some raw" "header_len + mac_len \<le> length raw"
    and sig: "drop (length raw - mac_len) raw = digest_bytes (hmac (signer_key s) (take (length raw - mac_len) raw))"
    using assms by (auto simp: verify_def Let_def split: option.splits if_splits)
  show thesis
  proof (rule that)
    show "b64_decode tok = Some (take (length raw - mac_len) raw @
            digest_bytes (hmac (signer_key s) (take (length raw - mac_len) raw)))"
      using raw(1) sig by (metis append_take_drop_id)
    show "header_len \<le> length (take (length raw - mac_len) raw)"
      using raw(2) by simp
  qed
qed

text \<open>The issued token, seen by \<open>Verify\<close>: one equation for every purpose and every clock.\<close>

lemma issue_Inr:
  assumes "issue hmac t0 s p sub e = Inr tok"
  obtains pl where "pl = token_payload (purpose_byte p) (word_of_int (unix_seconds t0)) (word_of_int (expiry_seconds e)) sub"
    and "purpose_byte p \<noteq> 0"
    and "b64_decode tok = Some (pl @ digest_bytes (hmac (signer_key s) pl))"
  using assms by (auto simp: issue_def Let_def b64_decode_encode split: if_splits)

lemma verify_issued:
  assumes "issue hmac t0 s p sub e = Inr tok"
  shows "verify hmac t s tok q =
    (if purpose_byte q \<noteq> purpose_byte p then Inl PurposeMismatch
     else if sint (word_of_int (expiry_seconds e) :: int64) \<noteq> 0 \<and>
             sint (word_of_int (expiry_seconds e) :: int64) < unix_seconds t then Inl Expired
     else Inr sub)"
  using assms by (rule issue_Inr) (simp add: verify_signed payload_fields)


text \<open>Acceptance at one instant decides the answer under every purpose at every instant.\<close>

lemma verify_once:
  assumes "verify hmac t s tok p = Inr sub"
  shows "\<exists>e :: int64. \<forall>t' q. verify hmac t' s tok q =
    (if purpose_byte q \<noteq> purpose_byte p then Inl PurposeMismatch
     else if sint e \<noteq> 0 \<and> sint e < unix_seconds t' then Inl Expired
     else Inr sub)"
proof -
  obtain pl where pl: "b64_decode tok = Some (pl @ digest_bytes (hmac (signer_key s) pl))"
    "header_len \<le> length pl"
    by (rule verify_signature [OF assms]) auto
  have "pl ! 0 = 1 \<and> pl ! 1 = purpose_byte p \<and> drop header_len pl = sub"
    using assms by (simp add: verify_signed [where hmac = hmac and s = s and pl = pl, OF pl] split: if_splits)
  then show ?thesis
    by (intro exI [of _ "of_be_bytes 0 (take 8 (drop 10 pl)) :: int64"])
      (auto simp: verify_signed [where hmac = hmac and s = s and pl = pl, OF pl])
qed

section \<open>The interface of a token service\<close>

text \<open>
  What the link-building code relies on: a token verifies while it is live, under the
  purpose it was issued for and no other, and always yields its subject.
\<close>

locale token_service =
  fixes issue_tok :: "time \<Rightarrow> 'p \<Rightarrow> 'sub \<Rightarrow> time \<Rightarrow> 'e + 'tok"
    and verify_tok :: "time \<Rightarrow> 'tok \<Rightarrow> 'p \<Rightarrow> 'e + 'sub"
    and known :: "'p \<Rightarrow> bool" and same_purpose :: "'p \<Rightarrow> 'p \<Rightarrow> bool" and live :: "time \<Rightarrow> time \<Rightarrow> bool"
  assumes issue_total: "known p \<Longrightarrow> \<exists>tok. issue_tok t0 p sub e = Inr tok"
    and issued_accepted: "issue_tok t0 p sub e = Inr tok \<Longrightarrow> live e t \<Longrightarrow> verify_tok t tok p = Inr sub"
    and one_purpose: "verify_tok t tok p = Inr sub \<Longrightarrow> verify_tok t' tok q = Inr sub' \<Longrightarrow> same_purpose p q"
    and one_subject: "verify_tok t tok p = Inr sub \<Longrightarrow> verify_tok t' tok q = Inr sub' \<Longrightarrow> sub' = sub"
    and refused_later: "t \<le> t' \<Longrightarrow> verify_tok t' tok p = Inr sub \<Longrightarrow> verify_tok t tok p = Inr sub"
    and purpose_sym: "same_purpose p q \<Longrightarrow> same_purpose q p"
begin

lemma no_replay:
  assumes "issue_tok t0 p sub e = Inr tok" and "live e t" and "\<not> same_purpose p q"
  shows "verify_tok t' tok q \<noteq> Inr sub'"
  using issued_accepted [OF assms(1,2)] one_purpose assms(3) by blast

lemma issued_subject:
  assumes "issue_tok t0 p sub e = Inr tok" and "live e t" and "verify_tok t' tok q = Inr sub'"
  shows "sub' = sub"
  using issued_accepted [OF assms(1,2)] one_subject assms(3) by blast

lemma link_round_trip:
  assumes "known p" and "live e t"
  shows "\<exists>tok. issue_tok t0 p sub e = Inr tok \<and> verify_tok t tok p = Inr sub"
  using issue_total [OF assms(1)] issued_accepted [OF _ assms(2)] by blast

end

definition token_live :: "time \<Rightarrow> time \<Rightarrow> bool" where
  "token_live e t \<longleftrightarrow>
     - (2 ^ 63) \<le> expiry_seconds e \<and> expiry_seconds e < 2 ^ 63 \<and>
     (expiry_seconds e = 0 \<or> unix_seconds t \<le> expiry_seconds e)"

interpretation tok: token_service
  "\<lambda>t0 p sub e. issue hmac t0 s p sub e" "\<lambda>t tok p. verify hmac t s tok p"
  "\<lambda>p. purpose_byte p \<noteq> 0" "\<lambda>p q. purpose_byte p = purpose_byte q" token_live
  for hmac s
proof (unfold_locales, goal_cases)
  case (1 p t0 sub e)
  then show ?case by (auto simp: issue_def Let_def)
next
  case (2 t0 p sub e tok t)
  then show ?case by (auto simp: verify_issued [OF 2(1)] token_live_def sint_int64)
next
  case (3 t tok p sub t' q sub')
  then show ?case by (metis verify_once sum.distinct(1))
next
  case (4 t tok p sub t' q sub')
  then show ?case by (metis verify_once sum.distinct(1) sum.inject(2))
next
  case (5 t t' tok p sub)
  from verify_once [OF 5(2)] obtain e :: int64 where e: "\<forall>t' q. verify hmac t' s tok q =
    (if purpose_byte q \<noteq> purpose_byte p then Inl PurposeMismatch
     else if sint e \<noteq> 0 \<and> sint e < unix_seconds t' then Inl Expired else Inr sub)" ..
  have "unix_seconds t \<le> unix_seconds t'" using 5(1) by (rule unix_seconds_mono)
  moreover have "\<not> (sint e \<noteq> 0 \<and> sint e < unix_seconds t')"
    using e [rule_format, of t' p] 5(2) by (auto split: if_splits)
  ultimately show ?case using e by auto
next
  case (6 p q)
  then show ?case by simp
qed

section \<open>Properties\<close>

text \<open>
  C23: \<open>Verify\<close> accepts a text under a purpose exactly when it is the base64 of a payload with
  version 1, that purpose, some issue and expiry times and the returned subject, followed by
  the key's MAC of that payload, and the expiry is zero or not yet passed.
\<close>

theorem verify_accepts_iff:
  "verify hmac now s tok p = Inr sub \<longleftrightarrow>
     (\<exists>issued expires. b64_decode tok =
         Some (token_payload (purpose_byte p) issued expires sub @
               digest_bytes (hmac (signer_key s) (token_payload (purpose_byte p) issued expires sub)))
       \<and> (sint expires = 0 \<or> unix_seconds now \<le> sint expires))"
proof
  assume ok: "verify hmac now s tok p = Inr sub"
  obtain pl where pl: "b64_decode tok = Some (pl @ digest_bytes (hmac (signer_key s) pl))"
    "header_len \<le> length pl"
    by (rule verify_signature [OF ok]) auto
  let ?e = "of_be_bytes 0 (take 8 (drop 10 pl)) :: int64"
  from ok have f: "pl ! 0 = 1" "pl ! 1 = purpose_byte p" "drop header_len pl = sub"
    "sint ?e = 0 \<or> unix_seconds now \<le> sint ?e"
    by (auto simp: verify_signed [where hmac = hmac and s = s and pl = pl, OF pl] not_less split: if_splits)
  from payload_exists [OF pl(2) f(1)] obtain i where "pl = token_payload (purpose_byte p) i ?e sub"
    using f(2,3) by auto
  with pl(1) f(4) show "\<exists>issued expires. b64_decode tok =
         Some (token_payload (purpose_byte p) issued expires sub @
               digest_bytes (hmac (signer_key s) (token_payload (purpose_byte p) issued expires sub)))
       \<and> (sint expires = 0 \<or> unix_seconds now \<le> sint expires)" by metis
qed (auto simp: verify_signed payload_fields)

text \<open>
  C24: what \<open>Verify\<close> answers on a token \<open>Issue\<close> made, for every purpose and every clock: the
  purpose mismatch for another purpose, expired once the clock passes a non-zero expiry
  second, and otherwise the subject. A zero time, but also the Unix epoch itself, never
  expires.
\<close>

theorem issued_token_verdict:
  assumes "issue hmac t0 s p sub e = Inr tok"
    and "- (2 ^ 63) \<le> expiry_seconds e" and "expiry_seconds e < 2 ^ 63"
  shows "verify hmac t s tok q =
    (if purpose_byte q \<noteq> purpose_byte p then Inl PurposeMismatch
     else if expiry_seconds e \<noteq> 0 \<and> expiry_seconds e < unix_seconds t then Inl Expired
     else Inr sub)"
proof -
  have "sint (word_of_int (expiry_seconds e) :: int64) = expiry_seconds e"
    by (rule sint_int64) (fact assms)+
  then show ?thesis by (simp add: verify_issued [OF assms(1)])
qed

theorem issued_token_verdict_witness:
  "\<exists>tok. issue (\<lambda>_ _. 7) 0 \<lparr>signer_key = []\<rparr> purpose_confirm_subscriber [65] (5 * second) = Inr tok \<and>
     verify (\<lambda>_ _. 7) (4 * second) \<lparr>signer_key = []\<rparr> tok purpose_confirm_subscriber = Inr [65] \<and>
     verify (\<lambda>_ _. 7) (6 * second) \<lparr>signer_key = []\<rparr> tok purpose_confirm_subscriber = Inl Expired \<and>
     verify (\<lambda>_ _. 7) (4 * second) \<lparr>signer_key = []\<rparr> tok purpose_unsubscribe_subscriber = Inl PurposeMismatch"
proof -
  have e: "expiry_seconds (5 * second) = 5"
    by (simp add: expiry_seconds_def unix_seconds_def second_def zero_time_def)
  obtain tok where tok: "issue (\<lambda>_ _. 7) 0 \<lparr>signer_key = []\<rparr> purpose_confirm_subscriber [65] (5 * second) = Inr tok"
    using tok.issue_total [of purpose_confirm_subscriber] by fastforce
  show ?thesis
    using tok issued_token_verdict [OF tok]
    by (intro exI [of _ tok]) (simp add: e, simp add: unix_seconds_def second_def)
qed

text \<open>
  C25: a token that verifies under one purpose is refused under every other purpose, at any
  time and whoever made it: a confirm token cannot be replayed as an unsubscribe token.
\<close>

theorem token_bound_to_purpose:
  assumes "verify hmac t s tok p = Inr sub" and "purpose_byte q \<noteq> purpose_byte p"
  shows "verify hmac t' s tok q = Inl PurposeMismatch"
  using verify_once [OF assms(1)] assms(2) by auto

theorem token_bound_to_purpose_witness:
  "\<exists>tok. verify (\<lambda>_ _. 7) 0 \<lparr>signer_key = []\<rparr> tok purpose_confirm_subscriber = Inr [65] \<and>
     verify (\<lambda>_ _. 7) day \<lparr>signer_key = []\<rparr> tok purpose_unsubscribe_subscriber = Inl PurposeMismatch"
proof -
  have live: "token_live (5 * second) 0"
    by (simp add: token_live_def expiry_seconds_def unix_seconds_def second_def zero_time_def)
  obtain tok where "verify (\<lambda>_ _. 7) 0 \<lparr>signer_key = []\<rparr> tok purpose_confirm_subscriber = Inr [65]"
    using tok.link_round_trip [of purpose_confirm_subscriber "5 * second" 0] live by fastforce
  then show ?thesis using token_bound_to_purpose [of _ _ _ _ _ _ purpose_unsubscribe_subscriber] by fastforce
qed

text \<open>
  Acceptance never comes back: a token accepted at some instant was accepted, with the
  same subject, at every earlier instant, so one refused now is never accepted later.
\<close>

theorem acceptance_downward_closed:
  assumes "t \<le> t'" and "verify hmac t' s tok p = Inr sub"
  shows "verify hmac t s tok p = Inr sub"
  using assms by (rule tok.refused_later)

theorem acceptance_downward_closed_witness:
  "\<exists>tok. verify (\<lambda>_ _. 7) 0 \<lparr>signer_key = []\<rparr> tok purpose_confirm_subscriber = Inr [65]"
proof -
  have live: "token_live (5 * second) second"
    by (simp add: token_live_def expiry_seconds_def unix_seconds_def second_def zero_time_def)
  obtain tok where ok: "verify (\<lambda>_ _. 7) second \<lparr>signer_key = []\<rparr> tok purpose_confirm_subscriber = Inr [65]"
    using tok.link_round_trip [of purpose_confirm_subscriber "5 * second" second] live by fastforce
  show ?thesis
    by (rule exI [of _ tok], rule acceptance_downward_closed [OF _ ok]) (simp add: second_def)
qed

text \<open>
  Tokens are unambiguous: two issued tokens with the same text have the same purpose,
  subject and (as 64-bit seconds) issue and expiry times.
\<close>

theorem issue_injective:
  assumes "issue hmac t0 s p sub e = Inr tok" and "issue hmac' t0' s' p' sub' e' = Inr tok"
  shows "purpose_byte p = purpose_byte p' \<and> sub = sub' \<and>
    (word_of_int (expiry_seconds e) :: int64) = word_of_int (expiry_seconds e') \<and>
    (word_of_int (unix_seconds t0) :: int64) = word_of_int (unix_seconds t0')"
proof -
  obtain pl pl' where pl: "pl = token_payload (purpose_byte p) (word_of_int (unix_seconds t0)) (word_of_int (expiry_seconds e)) sub"
      "b64_decode tok = Some (pl @ digest_bytes (hmac (signer_key s) pl))"
    and pl': "pl' = token_payload (purpose_byte p') (word_of_int (unix_seconds t0')) (word_of_int (expiry_seconds e')) sub'"
      "b64_decode tok = Some (pl' @ digest_bytes (hmac' (signer_key s') pl'))"
    by (rule issue_Inr [OF assms(1)], rule issue_Inr [OF assms(2)]) blast
  then have "pl = pl'" by (simp add: append_eq_append_conv dig.length_enc)
  with pl(1) pl'(1) show ?thesis by (simp add: payload_eq_iff)
qed

theorem issue_injective_witness:
  "purpose_byte purpose_confirm_subscriber = purpose_byte purpose_confirm_subscriber \<and> [65] = [65 :: byte] \<and>
    (word_of_int (expiry_seconds 0) :: int64) = word_of_int (expiry_seconds (second div 2)) \<and>
    (word_of_int (unix_seconds 0) :: int64) = word_of_int (unix_seconds 1)"
proof -
  have e: "expiry_seconds (second div 2) = expiry_seconds 0" "unix_seconds 1 = unix_seconds 0"
    by (simp_all add: expiry_seconds_def unix_seconds_def second_def zero_time_def)
  obtain tok where 1: "issue (\<lambda>_ _. 7) 0 \<lparr>signer_key = []\<rparr> purpose_confirm_subscriber [65] 0 = Inr tok"
    using tok.issue_total [of purpose_confirm_subscriber] by fastforce
  then have 2: "issue (\<lambda>_ _. 7) 1 \<lparr>signer_key = []\<rparr> purpose_confirm_subscriber [65] (second div 2) = Inr tok"
    by (simp add: issue_def e)
  show ?thesis by (rule issue_injective [OF 1 2])
qed

end
