(* ===== verification/JsonDecode.thy ===== *)
theory JsonDecode
  imports Http
begin

text \<open>
  \<open>encoding/json\<close> decoding of a parsed value into a struct of string fields, the only shape
  the program decodes: the subscribe request, the queue payloads and the provider's answers.
  A key matches a field up to letter case (with the two Unicode letters that fold to ASCII),
  the last matching key wins, null leaves the field alone, another type is an error after the
  rest was decoded.
\<close>

text \<open>\<open>foldName\<close> for a comparison with a lower-case ASCII name: U+017F is an s, U+212A a k.\<close>

fun fold_name :: "string \<Rightarrow> string" where
  "fold_name [] = []"
| "fold_name (c # cs) =
     (if c = CHR 0xC5 \<and> cs \<noteq> [] \<and> hd cs = CHR 0xBF then CHR ''s'' # fold_name (tl cs)
      else if c = CHR 0xE2 \<and> take 2 cs = [CHR 0x84, CHR 0xAA] then CHR ''k'' # fold_name (drop 2 cs)
      else ascii_lower c # fold_name cs)"

text \<open>The value of one field, over the keys in order.\<close>

fun str_field :: "string \<Rightarrow> (string \<times> json) list \<Rightarrow> string \<Rightarrow> string" where
  "str_field name [] acc = acc"
| "str_field name ((k, v) # kvs) acc =
     str_field name kvs (if fold_name k = name then (case v of JStr s \<Rightarrow> s | _ \<Rightarrow> acc) else acc)"

fun json_kind :: "json \<Rightarrow> string" where
  "json_kind JNull = ''null''"
| "json_kind (JBool b) = ''bool''"
| "json_kind (JInt i) = ''number''"
| "json_kind (JStr s) = ''string''"
| "json_kind (JArr vs) = ''array''"
| "json_kind (JObj kvs) = ''object''"

definition is_text_or_null :: "json \<Rightarrow> bool" where
  "is_text_or_null v = (case v of JNull \<Rightarrow> True | JStr s \<Rightarrow> True | _ \<Rightarrow> False)"

text \<open>
  The first type error of the fields, and (if \<open>strict\<close>, for \<open>DisallowUnknownFields\<close>, which
  quotes it) the first unknown key; Go reports whichever comes first. \<open>pkg\<close> and \<open>tname\<close> name the struct in its message.
\<close>

fun field_error :: "(string \<Rightarrow> string) option \<Rightarrow> string \<Rightarrow> string list \<Rightarrow> (string \<times> json) list \<Rightarrow> gerror option" where
  "field_error strict tname names [] = None"
| "field_error strict tname names ((k, v) # kvs) =
     (if fold_name k \<in> set names then
        if is_text_or_null v then field_error strict tname names kvs
        else Some (Msg (''json: cannot unmarshal '' @ json_kind v @ '' into Go struct field '' @
               tname @ ''.'' @ fold_name k @ '' of type string''))
      else (case strict of
              Some uq \<Rightarrow> Some (Msg (''json: unknown field '' @ go_quote uq k))
            | None \<Rightarrow> field_error strict tname names kvs))"

text \<open>The error, if any, and the fields as far as they could be set.\<close>

definition decode_struct ::
  "(string \<Rightarrow> string) option \<Rightarrow> string \<Rightarrow> string \<Rightarrow> string list \<Rightarrow> json \<Rightarrow> gerror option \<times> (string \<Rightarrow> string)" where
  "decode_struct strict pkg tname names v =
     (case v of
        JObj kvs \<Rightarrow> (field_error strict tname names kvs, \<lambda>name. str_field name kvs '''')
      | JNull \<Rightarrow> (None, \<lambda>name. '''')
      | _ \<Rightarrow> (Some (Msg (''json: cannot unmarshal '' @ json_kind v @ '' into Go value of type '' @
                pkg @ ''.'' @ tname)), \<lambda>name. ''''))"

section \<open>Objects the program itself encodes\<close>

lemma fold_name_lower:
  assumes "list_all (\<lambda>c. is_ascii c \<and> ascii_lower c = c) s"
  shows "fold_name s = s"
  using assms
  by (induction s rule: fold_name.induct) (auto simp: is_ascii_def)

lemma field_error_clean:
  "list_all (\<lambda>(k, v). fold_name k \<in> set names \<and> is_text_or_null v) kvs \<Longrightarrow>
     field_error strict tname names kvs = None"
  by (induction kvs) auto

text \<open>Encoding a struct of strings and decoding it again gives the fields back.\<close>

lemma str_field_skip:
  "name \<notin> fold_name ` fst ` set kvs \<Longrightarrow> str_field name kvs acc = acc"
  by (induction kvs arbitrary: acc) auto

lemma str_field_encoded:
  assumes "distinct names" and "\<forall>n\<in>set names. fold_name n = n" and "n \<in> set names"
  shows "str_field n (map (\<lambda>n. (n, JStr (f n))) names) acc = f n"
  using assms
proof (induction names arbitrary: acc)
  case (Cons m ms)
  show ?case
  proof (cases "n = m")
    case True
    then have "n \<notin> fold_name ` fst ` set (map (\<lambda>n. (n, JStr (f n))) ms)"
      using Cons.prems by (auto simp: image_iff)
    then show ?thesis using True Cons.prems by (simp add: str_field_skip)
  next
    case False
    then show ?thesis using Cons by simp
  qed
qed simp

lemma decode_encoded:
  assumes "distinct names" and "\<forall>n\<in>set names. fold_name n = n"
  shows "fst (decode_struct strict pkg tname names (JObj (map (\<lambda>n. (n, JStr (f n))) names))) = None"
    and "n \<in> set names \<Longrightarrow>
      snd (decode_struct strict pkg tname names (JObj (map (\<lambda>n. (n, JStr (f n))) names))) n = f n"
  using assms
  by (auto simp: decode_struct_def str_field_encoded is_text_or_null_def list_all_iff
      intro!: field_error_clean)

end
