(* ===== verification/Mail.thy ===== *)
theory Mail
  imports JsonDecode
begin

text \<open>
  \<open>internal/email\<close>: the message, the \<open>Sender\<close> interface the worker depends on, and its two
  implementations, the in-memory \<open>Fake\<close> and the HTTP client \<open>Resend\<close>. The HTTP transport is a
  parameter; the requests handed to it are recorded.
\<close>

record message =
  m_from :: string
  m_to :: string
  m_subject :: string
  m_html :: string
  m_text :: string
  m_headers :: "(string \<times> string) list"
  m_reply_to :: string
  m_tag :: string
  m_idempotency_key :: string

text \<open>What \<open>Send\<close> answers: a panic, an error, or the provider's message id.\<close>

type_synonym send_result = "panic + gerror + string"

section \<open>The in-memory sender (fake.go)\<close>

record fake =
  fk_sent :: "message list"
  fk_fail_next :: "gerror option"
  fk_random :: "nat \<Rightarrow> bytes"
  fk_draws :: nat

definition new_fake :: "(nat \<Rightarrow> bytes) \<Rightarrow> fake" where
  "new_fake random = \<lparr>fk_sent = [], fk_fail_next = None, fk_random = random, fk_draws = 0\<rparr>"

definition fake_send :: "message \<Rightarrow> fake \<Rightarrow> send_result \<times> fake" where
  "fake_send m f =
     (case fk_fail_next f of
        Some e \<Rightarrow> (Inr (Inl e), f\<lparr>fk_fail_next := None\<rparr>)
      | None \<Rightarrow>
          (Inr (Inr (''fake_'' @ hex_encode (fk_random f (fk_draws f)))),
           f\<lparr>fk_sent := fk_sent f @ [m], fk_draws := fk_draws f + 1\<rparr>))"

definition fake_drain :: "fake \<Rightarrow> message list \<times> fake" where
  "fake_drain f = (fk_sent f, f\<lparr>fk_sent := []\<rparr>)"

section \<open>The Resend client (resend.go)\<close>

record resend =
  rs_api_key :: string
  rs_from :: string
  rs_base_url :: string

definition new_resend :: "string \<Rightarrow> string \<Rightarrow> resend" where
  "new_resend api_key default_from =
     \<lparr>rs_api_key = api_key, rs_from = default_from, rs_base_url = ''https://api.resend.com''\<rparr>"

text \<open>The JSON body; empty optional fields are left out of its encoding.\<close>

record resend_body =
  rb_from :: string
  rb_to :: "string list"
  rb_subject :: string
  rb_html :: string
  rb_text :: string
  rb_reply_to :: string
  rb_tags :: "(string \<times> string) list"
  rb_headers :: "(string \<times> string) list"

record http_post =
  hp_url :: string
  hp_headers :: "(string \<times> string) list"
  hp_body :: resend_body

text \<open>A response: the status and the first 64 KiB of its body, if they are JSON at all.\<close>

record http_response =
  hr_status :: int
  hr_body :: "json option"

type_synonym 'n transport = "http_post \<Rightarrow> 'n \<Rightarrow> (gerror + http_response) \<times> 'n"

definition resend_body_of :: "resend \<Rightarrow> message \<Rightarrow> resend_body" where
  "resend_body_of r m =
     \<lparr>rb_from = (if m_from m = '''' then rs_from r else m_from m), rb_to = [m_to m],
      rb_subject = m_subject m, rb_html = m_html m, rb_text = m_text m, rb_reply_to = m_reply_to m,
      rb_tags = (if m_tag m \<noteq> '''' then [(''kind'', m_tag m)] else []), rb_headers = m_headers m\<rparr>"

definition resend_request :: "resend \<Rightarrow> message \<Rightarrow> http_post" where
  "resend_request r m =
     \<lparr>hp_url = rs_base_url r @ ''/emails'',
      hp_headers = [(''Authorization'', ''Bearer '' @ rs_api_key r), (''Content-Type'', ''application/json'')] @
        (if m_idempotency_key m \<noteq> '''' then [(''Idempotency-Key'', m_idempotency_key m)] else []),
      hp_body = resend_body_of r m\<rparr>"

text \<open>\<open>json.Unmarshal\<close> with its error ignored.\<close>

definition response_field :: "string \<Rightarrow> http_response \<Rightarrow> string" where
  "response_field name resp =
     (case hr_body resp of None \<Rightarrow> '''' | Some v \<Rightarrow> snd (decode_struct None ''email'' '''' [name] v) name)"

text \<open>
  \<open>Send\<close>. \<open>hash\<close> is the keyed e-mail hash of the failure log line, which panics before
  \<open>InitEmailHash\<close>; the state is the network's, with the requests sent so far.
\<close>

definition resend_send ::
  "(string \<Rightarrow> panic + string) \<Rightarrow> 'n transport \<Rightarrow> resend \<Rightarrow>
     message \<Rightarrow> 'n \<times> http_post list \<Rightarrow> send_result \<times> 'n \<times> http_post list" where
  "resend_send hash http_do r m s = (case s of (n, log) \<Rightarrow>
     (let req = resend_request r m
      in case http_do req n of (res, n') \<Rightarrow>
         (let s' = (n', log @ [req])
          in case res of
               Inl e \<Rightarrow> (Inr (Inl (RetryableErr e)), s')
             | Inr resp \<Rightarrow>
                 let st = hr_status resp
                 in if 200 \<le> st \<and> st < 300 then (Inr (Inr (response_field ''id'' resp)), s')
                    else
                      let perr = response_field ''message'' resp;
                          msg = (if perr = '''' then ''resend http '' @ int_text st else perr)
                      in case hash (m_to m) of
                           Inl p \<Rightarrow> (Inl p, s')
                         | Inr h \<Rightarrow>
                             if st = 429 \<or> 500 \<le> st then (Inr (Inl (RetryableErr (Msg msg))), s')
                             else (Inr (Inl (Msg msg)), s'))))"

section \<open>What the worker relies on\<close>

text \<open>
  The contract of a \<open>Sender\<close>: one call hands over at most the one message it was given, marked
  with its recipient and idempotency key, and a success means that it did.
\<close>

locale sender =
  fixes send :: "message \<Rightarrow> 's \<Rightarrow> send_result \<times> 's" and posted :: "'s \<Rightarrow> (string \<times> string) list"
  assumes send_ok: "send m s = (Inr (Inr pid), s') \<Longrightarrow>
      posted s' = posted s @ [(m_to m, m_idempotency_key m)]"
    and send_failed: "send m s = (res, s') \<Longrightarrow>
      posted s' = posted s \<or> posted s' = posted s @ [(m_to m, m_idempotency_key m)]"
begin

lemma posted_prefix: "\<exists>new. posted (snd (send m s)) = posted s @ new \<and> length new \<le> 1"
  using send_failed [of m s] by (cases "send m s") fastforce

lemma posted_keys:
  "set (posted (snd (send m s))) \<subseteq> set (posted s) \<union> {(m_to m, m_idempotency_key m)}"
  using send_failed [of m s] by (cases "send m s") fastforce

end

definition fake_posted :: "fake \<Rightarrow> (string \<times> string) list" where
  "fake_posted f = map (\<lambda>m. (m_to m, m_idempotency_key m)) (fk_sent f)"

definition idempotency_of :: "http_post \<Rightarrow> string" where
  "idempotency_of p = (case map_of (hp_headers p) ''Idempotency-Key'' of None \<Rightarrow> '''' | Some k \<Rightarrow> k)"

definition resend_posted :: "'n \<times> http_post list \<Rightarrow> (string \<times> string) list" where
  "resend_posted s = map (\<lambda>p. (hd (rb_to (hp_body p)), idempotency_of p)) (snd s)"

lemma resend_request_marks:
  "(hd (rb_to (hp_body (resend_request r m))), idempotency_of (resend_request r m)) =
     (m_to m, m_idempotency_key m)"
  by (simp add: resend_request_def resend_body_of_def idempotency_of_def)

lemma resend_send_posts:
  "resend_posted (snd (resend_send hash http_do r m s)) = resend_posted s @ [(m_to m, m_idempotency_key m)]"
  by (auto simp: resend_send_def resend_posted_def resend_request_marks Let_def
      split: prod.splits sum.splits)

interpretation fake: sender fake_send fake_posted
  by unfold_locales (auto simp: fake_send_def fake_posted_def split: option.splits)

interpretation resend: sender "resend_send hash http_do r" resend_posted for hash http_do r
  by unfold_locales (metis resend_send_posts snd_conv)+

text \<open>
  Resend answers success exactly for a 2xx response; any other outcome is an error, which
  is retryable exactly if the transport failed or the status is 429 or at least 500.
\<close>

theorem resend_classifies:
  assumes "hash (m_to m) = Inr h" and "http_do (resend_request r m) n = (res, n')"
  shows "case fst (resend_send hash http_do r m (n, log)) of
           Inl p \<Rightarrow> False
         | Inr (Inr pid) \<Rightarrow> (\<exists>resp. res = Inr resp \<and> 200 \<le> hr_status resp \<and> hr_status resp < 300 \<and>
                              pid = response_field ''id'' resp)
         | Inr (Inl e) \<Rightarrow>
             (case res of
                Inl c \<Rightarrow> e = RetryableErr c
              | Inr resp \<Rightarrow> \<not> (200 \<le> hr_status resp \<and> hr_status resp < 300)) \<and>
             (errors_is ErrRetryable e \<longleftrightarrow>
                (case res of Inl c \<Rightarrow> True | Inr resp \<Rightarrow> hr_status resp = 429 \<or> 500 \<le> hr_status resp))"
  using assms by (auto simp: resend_send_def Let_def split: sum.splits)

definition sample_message :: message where
  "sample_message = \<lparr>m_from = '''', m_to = ''ann@example.org'', m_subject = ''Hi'', m_html = '''', m_text = ''Hi'',
     m_headers = [], m_reply_to = '''', m_tag = ''confirm_email'', m_idempotency_key = ''n1''\<rparr>"

text \<open>A transport that answers 503 once and then 200.\<close>

definition sample_transport :: "int transport" where
  "sample_transport p n = (Inr \<lparr>hr_status = n, hr_body = Some (JObj [(''id'', JStr ''m1'')])\<rparr>, 200)"

lemma resend_classifies_witness:
  "fst (resend_send (\<lambda>e. Inr ''h'') sample_transport (new_resend ''k'' ''f'') sample_message (503, [])) =
     Inr (Inl (RetryableErr (Msg ''resend http 503'')))"
proof -
  let ?r = "new_resend ''k'' ''f''"
  have "sample_transport (resend_request ?r sample_message) 503 =
      (Inr \<lparr>hr_status = 503, hr_body = Some (JObj [(''id'', JStr ''m1'')])\<rparr>, 200)"
    by (simp add: sample_transport_def)
  note outcome = resend_classifies [of "\<lambda>e. Inr ''h''" sample_message "''h''" sample_transport, OF refl this]
  have "fst (resend_send (\<lambda>e. Inr ''h'') sample_transport ?r sample_message (503, [])) =
      Inr (Inl (RetryableErr (Msg ''resend http 503'')))"
    by code_simp
  with outcome [of "[]"] show ?thesis by simp
qed

end
