(* ===== verification/Worker.thy ===== *)
theory Worker
  imports Pools Mail "HOL-Library.Signed_Division"
begin

text \<open>
  \<open>internal/notifications\<close>: the durable mail queue (\<open>queue.go\<close>), the templates
  (\<open>templates.go\<close>, \<open>helpers.go\<close>) and the worker (\<open>worker.go\<close>): claim, build, send, and settle
  each notification as sent, to be retried, dead or failed. A goroutine that panics takes the
  process down; that is a result of its own here.
\<close>

section \<open>The queue (queue.go)\<close>

definition kind_confirm_email :: string where "kind_confirm_email = ''confirm_email''"
definition kind_broadcast :: string where "kind_broadcast = ''broadcast''"

record confirm_payload =
  cp_confirm_url :: string
  cp_unsubscribe_url :: string

definition encode_confirm_payload :: "confirm_payload \<Rightarrow> json" where
  "encode_confirm_payload p =
     JObj [(''confirm_url'', JStr (cp_confirm_url p)), (''unsubscribe_url'', JStr (cp_unsubscribe_url p))]"

text \<open>\<open>Queue.Enqueue\<close>; encoding a struct of strings cannot fail.\<close>

definition enqueue :: "io \<Rightarrow> string \<Rightarrow> string \<Rightarrow> json \<Rightarrow> store \<Rightarrow> (gerror + uuid) \<times> store" where
  "enqueue io kind to_email payload =
     with_tx io (\<lambda>q k. enqueue_notification q k kind to_email payload)"

section \<open>Templates (templates.go)\<close>

definition newline :: string where "newline = [CHR 0x0A]"

definition render_confirm_email :: "confirm_payload \<Rightarrow> string \<times> string \<times> string" where
  \<open>render_confirm_email p =
     (''Confirm your subscription to Fund the Future'',
      join newline
        [''Welcome to Fund the Future.'',
         '''',
         ''Click the link below to confirm your subscription:'',
         cp_confirm_url p,
         '''',
         ''If you did not request this, you can ignore this email.'',
         '''',
         ''To stop receiving any email from us, use this one-click link:'',
         cp_unsubscribe_url p],
      join newline
        [''<!doctype html>'',
         ''<html><body style="font-family:Georgia, serif; max-width:560px; margin:auto; padding:24px; color:#2a2620;">'',
         ''<h1 style="font-weight:400; font-size:24px;">Welcome to Fund the Future</h1>'',
         ''<p>Click the button below to confirm your subscription. The link expires in seven days.</p>'',
         ''<p><a href="'' @ cp_confirm_url p @ ''" style="display:inline-block; padding:12px 20px; background:#5c7a5f; color:#f8f4ed; text-decoration:none; border-radius:4px;">Confirm subscription</a></p>'',
         ''<p style="color:#6b6660;">If you did not request this, you can ignore this email.</p>'',
         ''<hr style="border:none; border-top:1px solid #e8e0d6;"/>'',
         ''<p style="font-size:12px; color:#6b6660;">To stop receiving any email from us, <a href="'' @ cp_unsubscribe_url p @ ''">unsubscribe with one click</a>.</p>'',
         ''</body></html>''])\<close>

section \<open>The worker's configuration and surroundings\<close>

record worker_config =
  wc_concurrency :: int
  wc_outbound_rps :: int
  wc_max_attempts :: int
  wc_lease :: time
  wc_base_sleep :: time
  wc_max_daily :: int

definition new_worker :: "worker_config \<Rightarrow> worker_config" where
  "new_worker c =
     \<lparr>wc_concurrency = (if wc_concurrency c < 1 then 1 else wc_concurrency c),
      wc_outbound_rps = (if wc_outbound_rps c < 1 then 1 else wc_outbound_rps c),
      wc_max_attempts = (if wc_max_attempts c < 1 then 6 else wc_max_attempts c),
      wc_lease = (if wc_lease c \<le> 0 then 60 * second else wc_lease c),
      wc_base_sleep = (if wc_base_sleep c \<le> 0 then second else wc_base_sleep c),
      wc_max_daily = wc_max_daily c\<rparr>"

text \<open>
  What the worker meets: the database, the e-mail hash and its key, the uuid text of \<open>pgtype\<close>,
  and, by the number of transactions so far, the clock, the random draw, whether the context
  is cancelled, the answer of the rate limiter and the rows other claims have locked.
\<close>

record worker_env =
  we_io :: io
  we_hmac :: "bytes \<Rightarrow> bytes \<Rightarrow> digest"
  we_lower :: "string \<Rightarrow> string"
  we_key :: "bytes option"
  we_uuid_text :: "uuid \<Rightarrow> string"
  we_clock :: "nat \<Rightarrow> time"
  we_random :: "nat \<Rightarrow> nat"
  we_cancelled :: "nat \<Rightarrow> bool"
  we_limiter :: "nat \<Rightarrow> gerror option"
  we_locked :: "nat \<Rightarrow> uuid set"

record 's worker_state =
  ws_store :: store
  ws_sender :: 's

section \<open>Building the message\<close>

definition message_of ::
  "(uuid \<Rightarrow> string) \<Rightarrow> claimed \<Rightarrow> string \<Rightarrow> string \<Rightarrow> string \<Rightarrow> string \<Rightarrow> string \<Rightarrow> message" where
  "message_of uuid_text row subject txt html kind unsub =
     \<lparr>m_from = '''', m_to = cl_to_email row, m_subject = subject, m_html = html, m_text = txt,
      m_headers = [(''List-Unsubscribe'', ''<'' @ unsub @ ''>''),
                   (''List-Unsubscribe-Post'', ''List-Unsubscribe=One-Click'')],
      m_reply_to = '''', m_tag = kind, m_idempotency_key = uuid_text (cl_id row)\<rparr>"

definition build_message :: "(uuid \<Rightarrow> string) \<Rightarrow> claimed \<Rightarrow> gerror + message" where
  "build_message uuid_text row =
     (if cl_kind row = kind_confirm_email then
        (case decode_struct None ''notifications'' ''ConfirmEmailPayload''
                [''confirm_url'', ''unsubscribe_url''] (cl_payload row) of
           (Some e, f) \<Rightarrow> Inl e
         | (None, f) \<Rightarrow>
             let p = \<lparr>cp_confirm_url = f ''confirm_url'', cp_unsubscribe_url = f ''unsubscribe_url''\<rparr>;
                 (subject, txt, html) = render_confirm_email p
             in Inr (message_of uuid_text row subject txt html kind_confirm_email (cp_unsubscribe_url p)))
      else if cl_kind row = kind_broadcast then
        (case decode_struct None ''notifications'' ''BroadcastPayload''
                [''subject'', ''text'', ''html'', ''unsubscribe_url''] (cl_payload row) of
           (Some e, f) \<Rightarrow> Inl e
         | (None, f) \<Rightarrow>
             Inr (message_of uuid_text row (f ''subject'') (f ''text'') (f ''html'') kind_broadcast
                    (f ''unsubscribe_url'')))
      else Inl (Msg (''unknown notification kind: '' @ cl_kind row)))"

section \<open>Waiting and retrying\<close>

text \<open>\<open>rand.Int64N(n)\<close>: some value below \<open>n\<close> (any, by the draw), and a panic if \<open>n\<close> is not positive.\<close>

definition int64n :: "nat \<Rightarrow> int64 \<Rightarrow> panic + int64" where
  "int64n draw n =
     (if sint n \<le> 0 then Inl (Panic ''invalid argument to Int64N'')
      else Inr (word_of_int (int draw mod sint n)))"

text \<open>\<open>backoff\<close>, in 64-bit arithmetic as \<open>time.Duration\<close> computes it.\<close>

definition backoff :: "nat \<Rightarrow> int \<Rightarrow> panic + int64" where
  "backoff draw attempt =
     (let a = (if attempt < 0 then 0 else if attempt > 30 then 30 else attempt);
          raw = push_bit (nat a) 1 * word_of_int (30 * second) :: int64;
          base = (if sint raw > 30 * minute then word_of_int (30 * minute) else raw)
      in case int64n draw (word_of_int (sint base sdiv 4)) of
           Inl p \<Rightarrow> Inl p
         | Inr jit \<Rightarrow> Inr (base + jit))"

definition truncate_bytes :: "string \<Rightarrow> nat \<Rightarrow> string" where
  "truncate_bytes s n = (if length s \<le> n then s else take n s)"

text \<open>
  \<open>withRetry\<close>: up to \<open>attempts\<close> tries; it gives up early when the context is cancelled after a
  failed one. The result is the last error, or none.
\<close>

fun with_retry ::
  "(nat \<Rightarrow> bool) \<Rightarrow> nat \<Rightarrow> (store \<Rightarrow> (gerror + unit) \<times> store) \<Rightarrow> gerror option \<Rightarrow> store \<Rightarrow> gerror option \<times> store"
where
  "with_retry cancelled 0 fn err st = (err, st)"
| "with_retry cancelled (Suc n) fn err st =
     (case fn st of
        (Inr u, st') \<Rightarrow> (None, st')
      | (Inl e, st') \<Rightarrow>
          if cancelled (st_count st') then (Some e, st')
          else with_retry cancelled n fn (Some e) st')"

section \<open>Settling a notification\<close>

definition log_entry ::
  "claimed \<Rightarrow> bytes \<Rightarrow> string option \<Rightarrow> log_status \<Rightarrow> string option \<Rightarrow> log_params" where
  "log_entry row hash pid status err =
     \<lparr>lp_notification_id = Some (cl_id row), lp_to_email_hash = hash, lp_provider = ''resend'',
      lp_provider_message_id = pid, lp_status = status, lp_error = err\<rparr>"

text \<open>Each settlement is one transaction: the row, and for the final ones the log entry.\<close>

definition sent_txn :: "claimed \<Rightarrow> bytes \<Rightarrow> string \<Rightarrow> unit txn" where
  "sent_txn row hash pid q k =
     q_bind (mark_notification_sent q (cl_id row))
       (\<lambda>_. insert_email_log q k (log_entry row hash (Some pid) LSent None))"

definition failed_txn :: "claimed \<Rightarrow> bytes \<Rightarrow> string \<Rightarrow> unit txn" where
  "failed_txn row hash err q k =
     q_bind (mark_notification_failed q (cl_id row) (Some err))
       (\<lambda>_. insert_email_log q k (log_entry row hash None LFailed (Some err)))"

definition dead_txn :: "claimed \<Rightarrow> bytes \<Rightarrow> string \<Rightarrow> unit txn" where
  "dead_txn row hash err q k =
     q_bind (mark_notification_dead q (cl_id row) (Some err))
       (\<lambda>_. insert_email_log q k (log_entry row hash None LDead (Some err)))"

definition retry_txn :: "claimed \<Rightarrow> time \<Rightarrow> string \<Rightarrow> unit txn" where
  "retry_txn row next_at err q k =
     schedule_notification_retry q (cl_id row) next_at (Some err)"

definition settle :: "worker_env \<Rightarrow> unit txn \<Rightarrow> store \<Rightarrow> gerror option \<times> store" where
  "settle env txn st = with_retry (we_cancelled env) 3 (with_tx (we_io env) txn) None st"

definition email_hash_bytes :: "worker_env \<Rightarrow> string \<Rightarrow> panic + bytes" where
  "email_hash_bytes env e = hash_email_bytes (we_hmac env) (we_lower env) (we_key env) e"

definition mark_sent :: "worker_env \<Rightarrow> claimed \<Rightarrow> string \<Rightarrow> store \<Rightarrow> panic + gerror option \<times> store" where
  "mark_sent env row pid st =
     (case email_hash_bytes env (cl_to_email row) of
        Inl p \<Rightarrow> Inl p
      | Inr hash \<Rightarrow> Inr (settle env (sent_txn row hash pid) st))"

definition mark_failed :: "worker_env \<Rightarrow> claimed \<Rightarrow> string \<Rightarrow> store \<Rightarrow> panic + gerror option \<times> store" where
  "mark_failed env row err st =
     (case email_hash_bytes env (cl_to_email row) of
        Inl p \<Rightarrow> Inl p
      | Inr hash \<Rightarrow> Inr (settle env (failed_txn row hash (truncate_bytes err 1000)) st))"

definition mark_dead :: "worker_env \<Rightarrow> claimed \<Rightarrow> string \<Rightarrow> store \<Rightarrow> panic + gerror option \<times> store" where
  "mark_dead env row err st =
     (case email_hash_bytes env (cl_to_email row) of
        Inl p \<Rightarrow> Inl p
      | Inr hash \<Rightarrow> Inr (settle env (dead_txn row hash (truncate_bytes err 1000)) st))"

definition schedule_retry ::
  "worker_env \<Rightarrow> claimed \<Rightarrow> string \<Rightarrow> int64 \<Rightarrow> store \<Rightarrow> gerror option \<times> store" where
  "schedule_retry env row err delay st =
     settle env (retry_txn row (we_clock env (st_count st) + sint delay) (truncate_bytes err 1000)) st"

section \<open>Dispatching and ticking\<close>

text \<open>A step of the worker either ends or takes the process down.\<close>

datatype 'a run = Ran 'a | Crashed panic

definition after_settling ::
  "'s worker_state \<Rightarrow> panic + gerror option \<times> store \<Rightarrow> unit run \<times> 's worker_state" where
  "after_settling ws r =
     (case r of
        Inl p \<Rightarrow> (Crashed p, ws)
      | Inr (err, st) \<Rightarrow> (Ran (), ws\<lparr>ws_store := st\<rparr>))"

text \<open>The second half of \<open>dispatch\<close>, once \<open>Send\<close> has answered.\<close>

definition after_send ::
  "worker_env \<Rightarrow> worker_config \<Rightarrow> claimed \<Rightarrow> send_result \<Rightarrow>
     's worker_state \<Rightarrow> unit run \<times> 's worker_state" where
  "after_send env cfg row res ws =
     (case res of
        Inl p \<Rightarrow> (Crashed p, ws)
      | Inr (Inr pid) \<Rightarrow> after_settling ws (mark_sent env row pid (ws_store ws))
      | Inr (Inl e) \<Rightarrow>
          if errors_is ErrRetryable e \<and> cl_attempts row < wc_max_attempts cfg then
            (case backoff (we_random env (st_count (ws_store ws))) (cl_attempts row) of
               Inl p \<Rightarrow> (Crashed p, ws)
             | Inr delay \<Rightarrow>
                 after_settling ws (Inr (schedule_retry env row (error_text e) delay (ws_store ws))))
          else if cl_attempts row \<ge> wc_max_attempts cfg then
            after_settling ws (mark_dead env row (error_text e) (ws_store ws))
          else after_settling ws (mark_failed env row (error_text e) (ws_store ws)))"

definition dispatch ::
  "worker_env \<Rightarrow> worker_config \<Rightarrow> (message \<Rightarrow> 's \<Rightarrow> send_result \<times> 's) \<Rightarrow>
     claimed \<Rightarrow> 's worker_state \<Rightarrow> unit run \<times> 's worker_state" where
  "dispatch env cfg send row ws =
     (case hash_email (we_hmac env) (we_lower env) (we_key env) (cl_to_email row) of
        Inl p \<Rightarrow> (Crashed p, ws)
      | Inr logged \<Rightarrow>
          (case build_message (we_uuid_text env) row of
             Inl e \<Rightarrow> after_settling ws (mark_failed env row (error_text e) (ws_store ws))
           | Inr msg \<Rightarrow>
               (let (res, sender') = send msg (ws_sender ws)
                in after_send env cfg row res (ws\<lparr>ws_sender := sender'\<rparr>))))"

text \<open>The loop over the claimed rows: the limiter may refuse to wait, which ends the tick.\<close>

fun dispatch_all ::
  "worker_env \<Rightarrow> worker_config \<Rightarrow> (message \<Rightarrow> 's \<Rightarrow> send_result \<times> 's) \<Rightarrow>
     claimed list \<Rightarrow> 's worker_state \<Rightarrow> gerror option run \<times> 's worker_state" where
  "dispatch_all env cfg send [] ws = (Ran None, ws)"
| "dispatch_all env cfg send (row # rows) ws =
     (case we_limiter env (st_count (ws_store ws)) of
        Some e \<Rightarrow> (Ran (Some e), ws)
      | None \<Rightarrow>
          (case dispatch env cfg send row ws of
             (Crashed p, ws') \<Rightarrow> (Crashed p, ws')
           | (Ran u, ws') \<Rightarrow> dispatch_all env cfg send rows ws'))"

definition claim_limit :: int where "claim_limit = 5"

definition lease_seconds :: "worker_config \<Rightarrow> int" where
  "lease_seconds cfg = to_int32 (wc_lease cfg sdiv second)"

definition claim_txn :: "worker_env \<Rightarrow> worker_config \<Rightarrow> nat \<Rightarrow> claimed list txn" where
  "claim_txn env cfg n q k = claim_due_notifications q (we_locked env n) claim_limit (lease_seconds cfg)"

text \<open>\<open>tick\<close>: the number of rows processed and an error.\<close>

definition over_cap ::
  "worker_env \<Rightarrow> worker_config \<Rightarrow> store \<Rightarrow> (gerror + bool) \<times> store" where
  "over_cap env cfg st =
     (if wc_max_daily cfg > 0 then
        (case with_tx (we_io env) (\<lambda>q k. count_sends_last_day q) st of
           (Inl e, st') \<Rightarrow> (Inl e, st')
         | (Inr sent, st') \<Rightarrow> (Inr (sent \<ge> wc_max_daily cfg), st'))
      else (Inr False, st))"

definition tick ::
  "worker_env \<Rightarrow> worker_config \<Rightarrow> (message \<Rightarrow> 's \<Rightarrow> send_result \<times> 's) \<Rightarrow>
     's worker_state \<Rightarrow> (int \<times> gerror option) run \<times> 's worker_state" where
  "tick env cfg send ws =
     (case over_cap env cfg (ws_store ws) of
        (Inl e, st) \<Rightarrow> (Ran (0, Some e), ws\<lparr>ws_store := st\<rparr>)
      | (Inr True, st) \<Rightarrow> (Ran (0, None), ws\<lparr>ws_store := st\<rparr>)
      | (Inr False, st) \<Rightarrow>
          (case with_tx (we_io env) (claim_txn env cfg (st_count st)) st of
             (Inl e, st') \<Rightarrow> (Ran (0, Some e), ws\<lparr>ws_store := st'\<rparr>)
           | (Inr rows, st') \<Rightarrow>
               if rows = [] then (Ran (0, None), ws\<lparr>ws_store := st'\<rparr>)
               else
                 (case dispatch_all env cfg send rows (ws\<lparr>ws_store := st'\<rparr>) of
                    (Crashed p, ws') \<Rightarrow> (Crashed p, ws')
                  | (Ran (Some e), ws') \<Rightarrow> (Ran (0, Some e), ws')
                  | (Ran None, ws') \<Rightarrow> (Ran (int (length rows), None), ws'))))"

text \<open>\<open>loop\<close>, for a bounded number of rounds; for the sleep between idle rounds see theory \<open>Shutdown\<close>.\<close>

fun worker_loop ::
  "nat \<Rightarrow> worker_env \<Rightarrow> worker_config \<Rightarrow> (message \<Rightarrow> 's \<Rightarrow> send_result \<times> 's) \<Rightarrow>
     's worker_state \<Rightarrow> unit run \<times> 's worker_state" where
  "worker_loop 0 env cfg send ws = (Ran (), ws)"
| "worker_loop (Suc n) env cfg send ws =
     (if we_cancelled env (st_count (ws_store ws)) then (Ran (), ws)
      else
        (case tick env cfg send ws of
           (Crashed p, ws') \<Rightarrow> (Crashed p, ws')
         | (Ran r, ws') \<Rightarrow> worker_loop n env cfg send ws'))"

end
