(* ===== verification/Subscribers.thy ===== *)
theory Subscribers
  imports Auth Tokens Worker
begin

text \<open>
  \<open>internal/subscribers/service.go\<close>: subscribe, confirm and unsubscribe (the pages on GET, the
  transitions on POST), the caller's own subscription, and the resend used by admins. The
  uuid type of \<open>pgtype\<close>, address and URL parsing, the JSON scanner and SHA-256 are parameters;
  random bytes and clock readings are arguments.
\<close>

section \<open>Configuration and surroundings\<close>

text \<open>A parsed URL: what precedes the path, the path, the query, and what follows.\<close>

record purl =
  pu_prefix :: string
  pu_path :: string
  pu_query :: "(string \<times> string) list"
  pu_suffix :: string

record deps =
  dp_base_url :: string
  dp_throttle :: time
  dp_unsubscribe_ttl :: time
  dp_confirm_ttl :: time

definition new_service :: "deps \<Rightarrow> deps" where
  "new_service d =
     d\<lparr>dp_confirm_ttl := (if dp_confirm_ttl d = 0 then 7 * day else dp_confirm_ttl d),
       dp_unsubscribe_ttl := (if dp_unsubscribe_ttl d = 0 then 365 * day else dp_unsubscribe_ttl d)\<rparr>"

text \<open>
  One request's surroundings. The clock readings: \<open>sv_start\<close> and \<open>sv_end\<close> around the handler,
  \<open>sv_now\<close> and \<open>sv_now_unsub\<close> for the two expiries, \<open>sv_time\<close> inside the signer.
\<close>

record subs_env =
  sv_hmac :: mac_fun
  sv_sha256 :: "bytes \<Rightarrow> digest"
  sv_signer :: signer
  sv_hash_key :: "bytes option"
  sv_lower :: "string \<Rightarrow> string"
  sv_quote :: "string \<Rightarrow> string"
  sv_io :: io
  sv_random :: bytes
  sv_uuid_text :: "uuid \<Rightarrow> string"
  sv_uuid_scan :: "string \<Rightarrow> uuid option"
  sv_parse_address :: "string \<Rightarrow> string option"
  sv_read_json :: "string \<Rightarrow> json option"
  sv_parse_url :: "string \<Rightarrow> purl option"
  sv_url_text :: "purl \<Rightarrow> string"
  sv_start :: time
  sv_now :: time
  sv_now_unsub :: time
  sv_end :: time
  sv_time :: time

section \<open>Helpers\<close>

definition recently_notified ::
  "subs_env \<Rightarrow> string \<Rightarrow> string \<Rightarrow> time \<Rightarrow> store \<Rightarrow> (gerror + bool) \<times> store" where
  "recently_notified env email kind window =
     with_tx (sv_io env) (\<lambda>q k. has_recent_notification_for_email q email kind (to_int32 (window sdiv second)))"

definition query_set :: "string \<Rightarrow> string \<Rightarrow> (string \<times> string) list \<Rightarrow> (string \<times> string) list" where
  "query_set k v q = (k, v) # filter (\<lambda>kv. fst kv \<noteq> k) q"

text \<open>\<open>buildURL\<close>, for its one parameter.\<close>

definition build_url :: "subs_env \<Rightarrow> deps \<Rightarrow> string \<Rightarrow> string \<Rightarrow> string \<Rightarrow> string" where
  "build_url env d path k v =
     (case sv_parse_url env (dp_base_url d) of
        None \<Rightarrow> dp_base_url d @ path
      | Some u \<Rightarrow> sv_url_text env
          (u\<lparr>pu_path := trim_right_chars ''/'' (pu_path u) @ path, pu_query := query_set k v (pu_query u)\<rparr>))"

fun token_error_text :: "(string \<Rightarrow> string) \<Rightarrow> token_error \<Rightarrow> string" where
  "token_error_text uq (UnknownPurpose p) = ''tokens: unknown purpose '' @ go_quote uq p"
| "token_error_text uq Malformed = ''tokens: malformed''"
| "token_error_text uq TooShort = ''tokens: too short''"
| "token_error_text uq BadSignature = ''tokens: bad signature''"
| "token_error_text uq BadVersion = ''tokens: bad version''"
| "token_error_text uq PurposeMismatch = ''tokens: purpose mismatch''"
| "token_error_text uq Expired = ''tokens: expired''"

definition issue_token :: "subs_env \<Rightarrow> purpose \<Rightarrow> bytes \<Rightarrow> time \<Rightarrow> gerror + string" where
  "issue_token env p subject expires =
     (case issue (sv_hmac env) (sv_time env) (sv_signer env) p subject expires of
        Inl e \<Rightarrow> Inl (Msg (token_error_text (sv_quote env) e))
      | Inr tok \<Rightarrow> Inr tok)"

definition unsubscribe_url :: "subs_env \<Rightarrow> deps \<Rightarrow> uuid \<Rightarrow> gerror + string" where
  "unsubscribe_url env d i =
     (case issue_token env purpose_unsubscribe_subscriber (bytes_of_string (sv_uuid_text env i))
             (sv_now_unsub env + dp_unsubscribe_ttl d) of
        Inl e \<Rightarrow> Inl e
      | Inr tok \<Rightarrow> Inr (build_url env d ''/v1/subscribers/unsubscribe'' ''token'' tok))"

definition normalize_email :: "subs_env \<Rightarrow> string \<Rightarrow> string option" where
  "normalize_email env input =
     (let s = trim_space input
      in if length s = 0 \<or> length s > 254 then None
         else case sv_parse_address env s of
           None \<Rightarrow> None
         | Some addr \<Rightarrow>
             (case last_index_of (CHR ''@'') addr of
                None \<Rightarrow> None
              | Some i \<Rightarrow>
                  if i < 1 \<or> i = length addr - 1 then None
                  else
                    let domain = drop (i + 1) addr
                    in if CHR ''.'' \<notin> set domain then None
                       else if CHR ''['' \<in> set domain \<or> CHR '']'' \<in> set domain then None
                       else Some (to_lower (sv_lower env) addr)))"

definition source_char :: "char \<Rightarrow> bool" where
  "source_char c \<longleftrightarrow> c \<in> set ''abcdefghijklmnopqrstuvwxyzABCDEFGHIJKLMNOPQRSTUVWXYZ0123456789_-''"

definition sanitize_source :: "string \<Rightarrow> string" where
  "sanitize_source s =
     (let t = filter source_char (trim_space s) in if length t > 32 then take 32 t else t)"

definition hash_raw_token :: "subs_env \<Rightarrow> bytes \<Rightarrow> bytes" where
  "hash_raw_token env raw = digest_bytes (sv_sha256 env raw)"

text \<open>\<open>newConfirmToken\<close>: 32 random bytes and their hash.\<close>

definition new_confirm_token :: "subs_env \<Rightarrow> bytes \<times> bytes" where
  "new_confirm_token env = (sv_random env, digest_bytes (sv_sha256 env (sv_random env)))"

definition non_empty :: "string \<Rightarrow> string option" where
  "non_empty s = (if s = '''' then None else Some s)"

text \<open>\<open>constantTimeDelay\<close>: how long it sleeps.\<close>

definition constant_time_delay :: "time \<Rightarrow> time \<Rightarrow> time \<Rightarrow> time" where
  "constant_time_delay start min_total now =
     (let elapsed = now - start in if elapsed < min_total then min_total - elapsed else 0)"

definition min_handler_latency :: time where "min_handler_latency = 200 * (second div 1000)"

text \<open>\<open>html.EscapeString\<close>.\<close>

definition escape_char :: "char \<Rightarrow> string" where
  \<open>escape_char c =
     (if c = CHR ''&'' then ''&amp;''
      else if c = CHR 0x27 then ''&#39;''
      else if c = CHR ''<'' then ''&lt;''
      else if c = CHR ''>'' then ''&gt;''
      else if c = CHR 0x22 then ''&#34;''
      else [c])\<close>

definition html_escape :: "string \<Rightarrow> string" where
  "html_escape s = concat (map escape_char s)"

definition render_interstitial :: "string \<Rightarrow> string \<Rightarrow> string \<Rightarrow> string \<Rightarrow> string \<Rightarrow> string" where
  \<open>render_interstitial title body button action_path token =
     join newline
      [''<!doctype html>'',
       ''<html lang="en"><head>'',
       ''<meta charset="utf-8">'',
       ''<meta name="viewport" content="width=device-width,initial-scale=1">'',
       ''<meta name="referrer" content="no-referrer">'',
       ''<title>'' @ html_escape title @ ''</title>'',
       ''<style>'',
       ''body{font:16px/1.5 system-ui,sans-serif;margin:0;padding:2rem;background:#fafafa;color:#111}'',
       ''.card{max-width:480px;margin:4rem auto;padding:2rem;background:#fff;border:1px solid #e5e5e5;border-radius:8px}'',
       ''button{font:inherit;padding:.6rem 1.2rem;border:0;border-radius:4px;background:#111;color:#fff;cursor:pointer}'',
       ''button:hover{background:#222}'',
       ''h1{margin:0 0 .5rem 0;font-size:1.25rem}'',
       ''p{margin:0 0 1rem 0;color:#444}'',
       ''</style>'',
       ''</head><body>'',
       ''<main class="card">'',
       ''<h1>'' @ html_escape title @ ''</h1>'',
       ''<p>'' @ html_escape body @ ''</p>'',
       ''<form method="POST" action="'' @ html_escape action_path @ ''">'',
       ''<input type="hidden" name="token" value="'' @ html_escape token @ ''">'',
       ''<button type="submit">'' @ html_escape button @ ''</button>'',
       ''</form>'',
       ''</main>'',
       ''</body></html>'']\<close>

definition render_error :: "string \<Rightarrow> string" where
  \<open>render_error msg =
     join newline
      [''<!doctype html>'',
       ''<html lang="en"><head>'',
       ''<meta charset="utf-8">'',
       ''<meta name="viewport" content="width=device-width,initial-scale=1">'',
       ''<meta name="referrer" content="no-referrer">'',
       ''<title>Error</title>'',
       ''<style>body{font:16px/1.5 system-ui,sans-serif;margin:0;padding:2rem;background:#fafafa;color:#111}.card{max-width:480px;margin:4rem auto;padding:2rem;background:#fff;border:1px solid #e5e5e5;border-radius:8px}</style>'',
       ''</head><body><main class="card"><h1>Sorry</h1><p>'' @ html_escape msg @ ''</p></main></body></html>'']\<close>

section \<open>Subscribe\<close>

definition uniform_ok :: json where
  "uniform_ok = JObj [(''message'', JStr ''If the address is valid, a confirmation email is on its way.''),
                      (''status'', JStr ''accepted'')]"

text \<open>The request body: at most 4 KiB of it, one JSON value, no unknown fields.\<close>

definition decode_subscribe :: "subs_env \<Rightarrow> request \<Rightarrow> gerror + string \<times> string" where
  "decode_subscribe env r =
     (case sv_read_json env (take 4096 (rq_body r)) of
        None \<Rightarrow> Inl (Msg ''invalid or truncated JSON'')
      | Some v \<Rightarrow>
          (case decode_struct (Some (sv_quote env)) ''subscribers'' ''subscribeReq'' [''email'', ''source''] v of
             (Some e, f) \<Rightarrow> Inl e
           | (None, f) \<Rightarrow> Inr (f ''email'', f ''source'')))"

text \<open>Who the statement runs as, and the user id to link: of a logged-in caller, if it is a uuid.\<close>

definition subscribe_identity :: "subs_env \<Rightarrow> request \<Rightarrow> jwt_context \<times> uuid option" where
  "subscribe_identity env r =
     (case rq_claims r of
        Some c \<Rightarrow>
          if c_sub c \<noteq> '''' then
            (\<lparr>jc_sub = c_sub c, jc_email = c_email c, jc_role = ''authenticated''\<rparr>, sv_uuid_scan env (c_sub c))
          else (\<lparr>jc_sub = '''', jc_email = '''', jc_role = ''anon''\<rparr>, None)
      | None \<Rightarrow> (\<lparr>jc_sub = '''', jc_email = '''', jc_role = ''anon''\<rparr>, None))"

text \<open>The transaction: the new or refreshed row's id, or none if the address is settled.\<close>

definition subscribe_txn :: "upsert_params \<Rightarrow> uuid option txn" where
  "subscribe_txn p q k =
     on_no_rows (q_bind (upsert_pending_subscriber q k p) (\<lambda>row. q_return (Some (s_id row))))
       (q_return None)"

text \<open>A log line with the e-mail hash panics before \<open>InitEmailHash\<close>.\<close>

definition log_hashed :: "subs_env \<Rightarrow> store \<times> rw \<Rightarrow> (store \<times> rw) outcome \<Rightarrow> (store \<times> rw) outcome" where
  "log_hashed env sw k = (if sv_hash_key env = None then Panicked sw else k)"

definition failed :: "request \<Rightarrow> string \<Rightarrow> store \<times> rw \<Rightarrow> (store \<times> rw) outcome" where
  "failed r m sw = (case sw of (s, w) \<Rightarrow> Done (s, write_error r (internal_error m) w))"

text \<open>The last part: the links and the queue.\<close>

definition subscribe_enqueue ::
  "subs_env \<Rightarrow> deps \<Rightarrow> request \<Rightarrow> string \<Rightarrow> string \<Rightarrow> uuid \<Rightarrow> store \<times> rw \<Rightarrow> (store \<times> rw) outcome" where
  "subscribe_enqueue env d r email signed_token i sw = (case sw of (s, w) \<Rightarrow>
     (let confirm = build_url env d ''/v1/subscribers/confirm'' ''token'' signed_token
      in case unsubscribe_url env d i of
           Inl e \<Rightarrow> failed r ''subscribe failed'' (s, w)
         | Inr unsub \<Rightarrow>
             (case enqueue (sv_io env) kind_confirm_email email
                     (encode_confirm_payload \<lparr>cp_confirm_url = confirm, cp_unsubscribe_url = unsub\<rparr>) s of
                (Inl e, s') \<Rightarrow> log_hashed env (s', w) (Done (s', write_json 202 uniform_ok w))
              | (Inr n, s') \<Rightarrow> Done (s', write_json 202 uniform_ok w))))"

text \<open>The middle part: token and upsert.\<close>

definition subscribe_upsert ::
  "subs_env \<Rightarrow> deps \<Rightarrow> request \<Rightarrow> string \<Rightarrow> string \<Rightarrow> store \<times> rw \<Rightarrow> (store \<times> rw) outcome" where
  "subscribe_upsert env d r email source sw = (case sw of (s, w) \<Rightarrow>
     (let (jc, user_id) = subscribe_identity env r;
          (raw, hash) = new_confirm_token env;
          expires = sv_now env + dp_confirm_ttl d
      in case issue_token env purpose_confirm_subscriber raw expires of
           Inl e \<Rightarrow> failed r ''subscribe failed'' (s, w)
         | Inr signed_token \<Rightarrow>
             (case with_user (sv_quote env) (sv_io env) jc
                     (subscribe_txn \<lparr>up_email = email, up_token_hash = hash, up_expires = expires,
                        up_source = non_empty source, up_user_id = user_id\<rparr>) s of
                (Inl e, s') \<Rightarrow> log_hashed env (s', w) (failed r ''subscribe failed'' (s', w))
              | (Inr None, s') \<Rightarrow> Done (s', write_json 202 uniform_ok w)
              | (Inr (Some i), s') \<Rightarrow> subscribe_enqueue env d r email signed_token i (s', w))))"

definition throttle_check :: "subs_env \<Rightarrow> deps \<Rightarrow> string \<Rightarrow> store \<Rightarrow> (gerror + bool) \<times> store" where
  "throttle_check env d email s =
     (if dp_throttle d > 0 then recently_notified env email kind_confirm_email (dp_throttle d) s
      else (Inr False, s))"

definition subscribe_body :: "subs_env \<Rightarrow> deps \<Rightarrow> request \<Rightarrow> store \<times> rw \<Rightarrow> (store \<times> rw) outcome" where
  "subscribe_body env d r sw = (case sw of (s, w) \<Rightarrow>
     (case decode_subscribe env r of
        Inl e \<Rightarrow>
          (case app_wrap (Some (bad_request ''invalid JSON'')) (Some e) of
             Some e' \<Rightarrow> Done (s, write_error r e' w) | None \<Rightarrow> Done (s, w))
      | Inr (email0, source0) \<Rightarrow>
          (case normalize_email env email0 of
             None \<Rightarrow> Done (s, write_error r (bad_request ''invalid email format'') w)
           | Some email \<Rightarrow>
               (case throttle_check env d email s of
                  (Inl e, s') \<Rightarrow> log_hashed env (s', w) (failed r ''subscribe failed'' (s', w))
                | (Inr True, s') \<Rightarrow> Done (s', write_json 202 uniform_ok w)
                | (Inr False, s') \<Rightarrow> subscribe_upsert env d r email (sanitize_source source0) (s', w)))))"

text \<open>Run a handler that only touches the store on the server's state.\<close>

definition on_store :: "(store \<times> rw \<Rightarrow> (store \<times> rw) outcome) \<Rightarrow> world \<times> rw \<Rightarrow> (world \<times> rw) outcome" where
  "on_store h ww = (case ww of (w, rw) \<Rightarrow>
     (case h (w_store w, rw) of
        Done (s, rw') \<Rightarrow> Done (w\<lparr>w_store := s\<rparr>, rw')
      | Panicked (s, rw') \<Rightarrow> Panicked (w\<lparr>w_store := s\<rparr>, rw')))"

text \<open>\<open>HandleSubscribe\<close>; the deferred delay runs at every return, panics included.\<close>

definition handle_subscribe :: "subs_env \<Rightarrow> deps \<Rightarrow> world handler" where
  "handle_subscribe env d r ww =
     (let nap = constant_time_delay (sv_start env) min_handler_latency (sv_end env)
      in case on_store (subscribe_body env d r) ww of
           Done (w, rw) \<Rightarrow> Done (w\<lparr>w_slept := w_slept w + nap\<rparr>, rw)
         | Panicked (w, rw) \<Rightarrow> Panicked (w\<lparr>w_slept := w_slept w + nap\<rparr>, rw))"

section \<open>Confirm\<close>

definition check_token :: "subs_env \<Rightarrow> string \<Rightarrow> purpose \<Rightarrow> token_error + bytes" where
  "check_token env tok p = verify (sv_hmac env) (sv_time env) (sv_signer env) tok p"

definition handle_confirm_get :: "subs_env \<Rightarrow> world handler" where
  "handle_confirm_get env r sw = (case sw of (s, w) \<Rightarrow>
     (let tok = trim_space (rq_query r ''token'')
      in if tok = '''' then
           Done (s, write_html 400 (render_error ''Missing or invalid confirmation link.'') w)
         else case check_token env tok purpose_confirm_subscriber of
           Inl e \<Rightarrow> Done (s, write_html 400 (render_error ''This confirmation link is invalid or has expired.'') w)
         | Inr raw \<Rightarrow>
             Done (s, write_html 200 (render_interstitial ''Confirm your subscription''
                      ''Click below to confirm your email address.'' ''Confirm'' ''/v1/subscribers/confirm'' tok) w)))"

text \<open>The token of a POST: the form field, else the query parameter.\<close>

definition posted_token :: "request \<Rightarrow> string" where
  "posted_token r =
     (let tok = trim_space (rq_form r ''token'')
      in if tok = '''' then trim_space (rq_query r ''token'') else tok)"

definition confirm_txn :: "bytes \<Rightarrow> unit txn" where
  "confirm_txn h q k =
     q_bind (get_subscriber_by_confirm_token_hash q h)
       (\<lambda>row. q_bind (confirm_subscriber_by_id q (s_id row)) (\<lambda>n. q_return ()))"

definition confirm_body :: "subs_env \<Rightarrow> request \<Rightarrow> store \<times> rw \<Rightarrow> (store \<times> rw) outcome" where
  "confirm_body env r sw = (case sw of (s, w) \<Rightarrow>
     (let tok = posted_token r
      in if tok = '''' then Done (s, write_error r (bad_request ''missing token'') w)
         else case check_token env tok purpose_confirm_subscriber of
           Inl e \<Rightarrow> Done (s, write_error r (bad_request ''invalid or expired token'') w)
         | Inr raw \<Rightarrow>
             (case with_tx (sv_io env) (confirm_txn (hash_raw_token env raw)) s of
                (Inl e, s') \<Rightarrow> Done (s', write_error r (bad_request ''invalid or expired token'') w)
              | (Inr u, s') \<Rightarrow> Done (s', write_json 200 (JObj [(''status'', JStr ''confirmed'')]) w))))"

definition handle_confirm_post :: "subs_env \<Rightarrow> world handler" where
  "handle_confirm_post env r = on_store (confirm_body env r)"

section \<open>Unsubscribe\<close>

definition handle_unsubscribe_get :: "subs_env \<Rightarrow> world handler" where
  "handle_unsubscribe_get env r sw = (case sw of (s, w) \<Rightarrow>
     (let tok = trim_space (rq_query r ''token'')
      in if tok = '''' then
           Done (s, write_html 400 (render_error ''Missing or invalid unsubscribe link.'') w)
         else case check_token env tok purpose_unsubscribe_subscriber of
           Inl e \<Rightarrow> Done (s, write_html 400 (render_error ''This unsubscribe link is invalid or has expired.'') w)
         | Inr raw \<Rightarrow>
             Done (s, write_html 200 (render_interstitial ''Unsubscribe''
                      ''Click below to confirm you want to stop receiving emails from us.'' ''Unsubscribe''
                      ''/v1/subscribers/unsubscribe'' tok) w)))"

definition unsubscribe_body :: "subs_env \<Rightarrow> request \<Rightarrow> store \<times> rw \<Rightarrow> (store \<times> rw) outcome" where
  "unsubscribe_body env r sw = (case sw of (s, w) \<Rightarrow>
     (let tok = posted_token r
      in if tok = '''' then Done (s, write_error r (bad_request ''missing token'') w)
         else case check_token env tok purpose_unsubscribe_subscriber of
           Inl e \<Rightarrow> Done (s, write_error r (bad_request ''invalid token'') w)
         | Inr subject \<Rightarrow>
             (case sv_uuid_scan env (string_of_bytes subject) of
                None \<Rightarrow> Done (s, write_error r (bad_request ''invalid token'') w)
              | Some i \<Rightarrow>
                  (case with_tx (sv_io env) (\<lambda>q k. unsubscribe_by_id q i) s of
                     (Inl e, s') \<Rightarrow> Done (s', write_error r (internal_error ''unsubscribe failed'') w)
                   | (Inr n, s') \<Rightarrow> Done (s', write_json 200 (JObj [(''status'', JStr ''unsubscribed'')]) w)))))"

definition handle_unsubscribe_post :: "subs_env \<Rightarrow> world handler" where
  "handle_unsubscribe_post env r = on_store (unsubscribe_body env r)"

section \<open>My subscription\<close>

definition my_subscription_txn :: "string \<Rightarrow> string txn" where
  "my_subscription_txn email q k =
     on_no_rows (q_bind (get_subscriber_by_email q email) (\<lambda>row. q_return (sub_status_text (s_status row))))
       (q_return ''none'')"

definition my_subscription_body :: "subs_env \<Rightarrow> request \<Rightarrow> store \<times> rw \<Rightarrow> (store \<times> rw) outcome" where
  "my_subscription_body env r sw = (case sw of (s, w) \<Rightarrow>
     (case rq_claims r of
        None \<Rightarrow> Done (s, write_error r (unauthorized ''login required'') w)
      | Some c \<Rightarrow>
          if c_email c = '''' then Done (s, write_error r (unauthorized ''login required'') w)
          else
            (case with_user (sv_quote env) (sv_io env)
                    \<lparr>jc_sub = c_sub c, jc_email = c_email c, jc_role = ''authenticated''\<rparr>
                    (my_subscription_txn (c_email c)) s of
               (Inl e, s') \<Rightarrow> failed r ''failed'' (s', w)
             | (Inr status, s') \<Rightarrow> Done (s', write_json 200 (JObj [(''status'', JStr status)]) w))))"

definition handle_my_subscription :: "subs_env \<Rightarrow> world handler" where
  "handle_my_subscription env r = on_store (my_subscription_body env r)"

section \<open>Resending the confirmation\<close>

text \<open>One transaction reads the row and refreshes its token; it yields the address.\<close>

definition resend_txn :: "uuid \<Rightarrow> bytes \<Rightarrow> time \<Rightarrow> string txn" where
  "resend_txn i hash expires q k =
     q_bind (get_subscriber_by_id q i) (\<lambda>sub.
       if s_status sub \<noteq> Pending then q_fail (conflict ''subscriber is not pending'')
       else
         q_bind
           (on_no_rows
             (q_bind (upsert_pending_subscriber q k \<lparr>up_email = s_email sub, up_token_hash = hash,
                        up_expires = expires, up_source = s_source sub, up_user_id = None\<rparr>)
               (\<lambda>row. q_return ()))
             (q_fail (conflict ''subscriber status changed'')))
           (\<lambda>u. q_return (s_email sub)))"

definition enqueue_confirm :: "subs_env \<Rightarrow> deps \<Rightarrow> uuid \<Rightarrow> store \<Rightarrow> gerror option \<times> store" where
  "enqueue_confirm env d i s =
     (let (raw, hash) = new_confirm_token env;
          expires = sv_now env + dp_confirm_ttl d
      in case issue_token env purpose_confirm_subscriber raw expires of
           Inl e \<Rightarrow> (Some e, s)
         | Inr signed_token \<Rightarrow>
             (case with_tx (sv_io env) (resend_txn i hash expires) s of
                (Inl e, s') \<Rightarrow> (Some e, s')
              | (Inr email, s') \<Rightarrow>
                  (case unsubscribe_url env d i of
                     Inl e \<Rightarrow> (Some e, s')
                   | Inr unsub \<Rightarrow>
                       let confirm = build_url env d ''/v1/subscribers/confirm'' ''token'' signed_token
                       in (case enqueue (sv_io env) kind_confirm_email email
                               (encode_confirm_payload \<lparr>cp_confirm_url = confirm, cp_unsubscribe_url = unsub\<rparr>) s' of
                             (Inl e, s'') \<Rightarrow> (Some e, s'')
                           | (Inr n, s'') \<Rightarrow> (None, s'')))))"

end
