(* ===== verification/Delivery.thy ===== *)
theory Delivery
  imports Worker
begin

text \<open>
  What one worker does with one notification: the waiting times of \<open>backoff\<close>, that a
  settlement happens as a whole or not at all however often it is retried, what each outcome
  of \<open>Send\<close> turns the row into, how many messages a tick can send, and the round trip of the
  payload from \<open>Enqueue\<close> to the message; and that a worker stops once it is cancelled.
\<close>

section \<open>Waiting times\<close>

definition backoff_base :: "int \<Rightarrow> int" where
  "backoff_base a = min (2 ^ nat a * (30 * second)) (30 * minute)"

lemma shifted_word: "push_bit n 1 * word_of_int x = (word_of_int (2 ^ n * x) :: int64)"
  by (simp add: push_bit_of_1)

lemma sint_shifted:
  assumes "n \<le> 28"
  shows "sint (push_bit n 1 * word_of_int (30 * second) :: int64) = 2 ^ n * (30 * second)"
proof -
  have "(2 :: int) ^ n \<le> 2 ^ 28" using assms by (rule power_increasing) simp
  then have "2 ^ n * (30 * second) < 2 ^ 63" by (simp add: second_def)
  moreover have "- (2 ^ 63) \<le> 2 ^ n * (30 * second)"
    by (rule order_trans [of _ 0]) (simp_all add: second_def)
  ultimately show ?thesis unfolding shifted_word by (intro sint_int64)
qed

lemma int64n_range:
  assumes "0 < sint n"
  shows "\<exists>j. int64n draw n = Inr j \<and> 0 \<le> sint j \<and> sint j < sint n"
proof -
  let ?m = "int draw mod sint n"
  have m: "0 \<le> ?m" "?m < sint n" using assms by simp_all
  moreover have "sint n < 2 ^ 63" using sint_lt [of n] by simp
  ultimately have "sint (word_of_int ?m :: int64) = ?m"
    by (intro sint_int64) linarith+
  then show ?thesis using assms m by (simp add: int64n_def)
qed

lemma backoff_base_bounds:
  "0 \<le> a \<Longrightarrow> 30 * second \<le> backoff_base a \<and> backoff_base a \<le> 30 * minute"
proof -
  have "(1 :: int) \<le> 2 ^ nat a" by simp
  then show ?thesis by (auto simp: backoff_base_def minute_def second_def min_def)
qed

lemma backoff_value:
  assumes "0 \<le> a" and "a \<le> 28"
  shows "\<exists>d. backoff draw a = Inr d \<and> backoff_base a \<le> sint d \<and>
           4 * sint d < 5 * backoff_base a \<and> sint d < 38 * minute"
proof -
  let ?raw = "push_bit (nat a) 1 * word_of_int (30 * second) :: int64"
  define base where "base = (if sint ?raw > 30 * minute then word_of_int (30 * minute) else ?raw)"
  have raw: "sint ?raw = 2 ^ nat a * (30 * second)" using assms by (intro sint_shifted) simp
  have cap: "sint (word_of_int (30 * minute) :: int64) = 30 * minute"
    by (rule sint_int64) (simp_all add: minute_def second_def)
  have base: "sint base = backoff_base a"
    using raw cap by (simp add: base_def backoff_base_def min_def)
  note b = backoff_base_bounds [OF assms(1)]
  have quarter: "sint (word_of_int (sint base sdiv 4) :: int64) = backoff_base a div 4"
    unfolding base using b
    by (subst sint_int64) (auto simp: signed_divide_int_def minute_def second_def)
  have "0 < backoff_base a div 4" using b by (auto simp: second_def)
  then obtain j where j: "int64n draw (word_of_int (sint base sdiv 4)) = Inr j"
    "0 \<le> sint j" "sint j < backoff_base a div 4"
    using int64n_range [of "word_of_int (sint base sdiv 4)" draw] unfolding quarter by blast
  have "sint (base + j) = sint base + sint j"
  proof -
    have "base + j = word_of_int (sint base + sint j)" by simp
    also have "sint (word_of_int (sint base + sint j) :: int64) = sint base + sint j"
      unfolding base using b j by (intro sint_int64) (auto simp: minute_def second_def)
    finally show ?thesis .
  qed
  moreover have "backoff draw a = Inr (base + j)"
  proof -
    have clamp: "(if a < 0 then 0 else if a > 30 then 30 else a) = a" using assms by simp
    show ?thesis
      unfolding backoff_def Let_def clamp base_def [symmetric] j(1) by simp
  qed
  ultimately show ?thesis
    using base j b by (auto simp: minute_def second_def)
qed

text \<open>
  C36: up to the 28th attempt the wait is the exponential base, 30 seconds doubled per attempt
  and at most 30 minutes, plus a jitter of less than a quarter of it.
\<close>

theorem backoff_in_range:
  "0 \<le> a \<Longrightarrow> a \<le> 28 \<Longrightarrow>
     \<exists>d. backoff draw a = Inr d \<and> backoff_base a \<le> sint d \<and>
       4 * sint d < 5 * backoff_base a \<and> sint d < 38 * minute"
  by (rule backoff_value)

lemma backoff_in_range_witness:
  "\<exists>d. backoff 12345 3 = Inr d \<and> 240 * second \<le> sint d \<and> sint d < 300 * second"
  using backoff_in_range [of 3 12345] by (auto simp: backoff_base_def minute_def second_def)

lemma backoff_panics:
  assumes "nat (if a < 0 then 0 else if a > 30 then 30 else a) = n"
    and "\<not> sint (push_bit n 1 * word_of_int (30 * second) :: int64) > 30 * minute"
    and "sint (word_of_int (sint (push_bit n 1 * word_of_int (30 * second) :: int64) sdiv 4) :: int64) \<le> 0"
  shows "backoff draw a = Inl (Panic ''invalid argument to Int64N'')"
  unfolding backoff_def Let_def assms(1) if_not_P [OF assms(2)] int64n_def if_P [OF assms(3)] by simp

lemma shifts_29_30:
  "\<not> sint (push_bit 29 1 * word_of_int (30 * second) :: int64) > 30 * minute"
  "sint (word_of_int (sint (push_bit 29 1 * word_of_int (30 * second) :: int64) sdiv 4) :: int64) \<le> 0"
  "\<not> sint (push_bit 30 1 * word_of_int (30 * second) :: int64) > 30 * minute"
  "sint (word_of_int (sint (push_bit 30 1 * word_of_int (30 * second) :: int64) sdiv 4) :: int64) \<le> 0"
  by code_simp+

text \<open>
  From the 29th attempt on the shifted duration no longer fits 64 bits: the base comes
  out negative, the cap does not see it, and \<open>rand.Int64N\<close> panics. The clamp to 30 does not
  prevent that.
\<close>

theorem backoff_overflows:
  assumes "29 \<le> a"
  shows "backoff draw a = Inl (Panic ''invalid argument to Int64N'')"
proof (cases "a = 29")
  case True
  then show ?thesis by (intro backoff_panics [OF _ shifts_29_30(1,2)]) simp
next
  case False
  with assms show ?thesis by (intro backoff_panics [OF _ shifts_29_30(3,4)]) auto
qed

lemma backoff_overflows_witness: "backoff 0 29 = Inl (Panic ''invalid argument to Int64N'')"
  by (rule backoff_overflows) simp

section \<open>A settlement happens as a whole or not at all\<close>

definition no_lost_commit :: "io \<Rightarrow> bool" where
  "no_lost_commit io \<longleftrightarrow> (\<forall>n e. io_fault io n \<noteq> Some (LostCommit e))"

lemma with_tx_error_keeps_db:
  "no_lost_commit io \<Longrightarrow> with_tx io fn st = (Inl e, st') \<Longrightarrow> st_db st' = st_db st"
  unfolding with_tx_def by (erule run_txn_cases) (auto simp: no_lost_commit_def)

lemma with_tx_ok:
  "with_tx io fn st = (Inr x, st') \<Longrightarrow>
     \<exists>q k. q_ident q = IdService \<and> q_pg q = io_pg io \<and> fn q k (st_db st) = Inr (x, st_db st')"
  using service.run_ok by fastforce

lemma with_tx_no_fault:
  "io_fault io (st_count st) = None \<Longrightarrow>
     with_tx io fn st =
       (case fn (txn_ctx io IdService (st_count st)) (io_uuid io (st_count st)) (st_db st) of
          Inl e \<Rightarrow> (Inl e, st\<lparr>st_count := st_count st + 1\<rparr>)
        | Inr (x, d) \<Rightarrow> (Inr x, \<lparr>st_db = d, st_count = st_count st + 1\<rparr>))"
  by (cases st) (auto simp: with_tx_def run_txn_def Let_def split: sum.splits prod.splits)

lemma with_retry_once:
  assumes "\<And>st st' e. fn st = (Inl e, st') \<Longrightarrow> st_db st' = st_db st"
    and "with_retry cancelled n fn err st = (res, st')"
  shows "(res = None \<and> (\<exists>s. st_db s = st_db st \<and> fn s = (Inr (), st'))) \<or>
         (st_db st' = st_db st \<and> (n = 0 \<longrightarrow> res = err) \<and> (0 < n \<longrightarrow> res \<noteq> None))"
  using assms(2)
proof (induction n arbitrary: err st)
  case (Suc n)
  obtain r s where fn: "fn st = (r, s)" by fastforce
  show ?case
  proof (cases r)
    case (Inl e)
    then have db: "st_db s = st_db st" using assms(1) fn by blast
    show ?thesis
    proof (cases "cancelled (st_count s)")
      case True
      then show ?thesis using Suc.prems fn Inl db by auto
    next
      case False
      then have "with_retry cancelled n fn (Some e) s = (res, st')" using Suc.prems fn Inl by simp
      from Suc.IH [OF this] db show ?thesis by auto
    qed
  next
    case (Inr u)
    then show ?thesis using Suc.prems fn by auto
  qed
qed simp

lemma settle_once:
  assumes "no_lost_commit (we_io env)" and "settle env txn st = (res, st')"
  shows "(res = None \<and> (\<exists>q k. q_ident q = IdService \<and> q_pg q = io_pg (we_io env) \<and>
            txn q k (st_db st) = Inr ((), st_db st'))) \<or>
         (res \<noteq> None \<and> st_db st' = st_db st)"
proof -
  have "(res = None \<and> (\<exists>s. st_db s = st_db st \<and> with_tx (we_io env) txn s = (Inr (), st'))) \<or>
      (st_db st' = st_db st \<and> res \<noteq> None)"
    using with_retry_once [where fn = "with_tx (we_io env) txn", OF with_tx_error_keeps_db [OF assms(1)],
        OF _ assms(2) [unfolded settle_def]]
    by simp
  then show ?thesis by (metis with_tx_ok)
qed

section \<open>What each settlement does to the database\<close>

definition settled_db :: "uuid \<Rightarrow> (notification \<Rightarrow> notification) \<Rightarrow> email_log list \<Rightarrow> db \<Rightarrow> db" where
  "settled_db i f ls d =
     d\<lparr>db_notifications := update_where (\<lambda>r. n_id r = i) f (db_notifications d),
       db_email_log := db_email_log d @ ls\<rparr>"

lemma settled_db_simps [simp]:
  "db_notifications (settled_db i f ls d) = update_where (\<lambda>r. n_id r = i) f (db_notifications d)"
  "db_email_log (settled_db i f ls d) = db_email_log d @ ls"
  "db_subscribers (settled_db i f ls d) = db_subscribers d"
  "db_admins (settled_db i f ls d) = db_admins d"
  by (simp_all add: settled_db_def)

lemma pg_text_resend [simp]: "pg_text ''resend''"
  by code_simp

text \<open>A settlement writes one row and (if final) one log entry, whose id must be new.\<close>

lemma insert_after_update_iff:
  assumes "\<And>r. n_id (f r) = n_id r" and "lp_notification_id lp = Some i"
  shows "insert_email_log q k lp (d\<lparr>db_notifications := update_where (\<lambda>r. n_id r = i) f (db_notifications d)\<rparr>) =
           Inr (u, d') \<longleftrightarrow>
         list_all pg_text (lp_provider lp # opt_text (lp_provider_message_id lp) @ opt_text (lp_error lp)) \<and>
         q_ident q = IdService \<and> k \<notin> l_id ` set (db_email_log d) \<and> i \<in> n_id ` set (db_notifications d) \<and>
         d' = settled_db i f [log_row q k lp] d"
proof -
  have u: "row_update n_id f" by unfold_locales (rule assms(1))
  show ?thesis
    by (auto simp: insert_email_log_def query_iff email_log_ok_def log_row_def assms(2) settled_db_def
        row_update.key_set_update [OF u] split: if_splits)
qed

lemma settlement_iff:
  "sent_txn row hash pid q k d = Inr (u, d') \<longleftrightarrow> pg_text pid \<and>
     q_ident q = IdService \<and> k \<notin> l_id ` set (db_email_log d) \<and> cl_id row \<in> n_id ` set (db_notifications d) \<and>
     d' = settled_db (cl_id row) (sent_row (q_now q)) [log_row q k (log_entry row hash (Some pid) LSent None)] d"
  "failed_txn row hash err q k d = Inr (u, d') \<longleftrightarrow> pg_text err \<and>
     q_ident q = IdService \<and> k \<notin> l_id ` set (db_email_log d) \<and> cl_id row \<in> n_id ` set (db_notifications d) \<and>
     d' = settled_db (cl_id row) (failed_row (q_now q) (Some err))
            [log_row q k (log_entry row hash None LFailed (Some err))] d"
  "dead_txn row hash err q k d = Inr (u, d') \<longleftrightarrow> pg_text err \<and>
     q_ident q = IdService \<and> k \<notin> l_id ` set (db_email_log d) \<and> cl_id row \<in> n_id ` set (db_notifications d) \<and>
     d' = settled_db (cl_id row) (dead_row (q_now q) (Some err))
            [log_row q k (log_entry row hash None LDead (Some err))] d"
  "retry_txn row next_at err q k d = Inr (u, d') \<longleftrightarrow> pg_text err \<and> q_ident q = IdService \<and>
     d' = settled_db (cl_id row) (retry_row (q_now q) next_at (Some err)) [] d"
  by (auto simp: sent_txn_def failed_txn_def dead_txn_def retry_txn_def mark_notification_sent_def
      mark_notification_failed_def mark_notification_dead_def schedule_notification_retry_def
      query_iff opt_text_def insert_after_update_iff row_simps log_entry_def settled_db_def)

section \<open>The outcome of a delivery attempt\<close>

text \<open>
  The specification: what one attempt decides about a notification, and what that means for
  the database. A transient error is retried while attempts are left, any error on the last
  attempt is final as "dead", a permanent one before that as "failed".
\<close>

datatype verdict = Delivered string | TryAgain string | GiveUp string | Reject string

definition verdict_of :: "int \<Rightarrow> claimed \<Rightarrow> gerror + string \<Rightarrow> verdict" where
  "verdict_of max_attempts row res =
     (case res of
        Inr pid \<Rightarrow> Delivered pid
      | Inl e \<Rightarrow>
          if cl_attempts row \<ge> max_attempts then GiveUp (truncate_bytes (error_text e) 1000)
          else if errors_is ErrRetryable e then TryAgain (truncate_bytes (error_text e) 1000)
          else Reject (truncate_bytes (error_text e) 1000))"

fun verdict_status :: "verdict \<Rightarrow> notif_status" where
  "verdict_status (Delivered pid) = NSent"
| "verdict_status (TryAgain err) = NPending"
| "verdict_status (GiveUp err) = NDead"
| "verdict_status (Reject err) = NFailed"

fun verdict_row :: "time \<Rightarrow> time \<Rightarrow> verdict \<Rightarrow> notification \<Rightarrow> notification" where
  "verdict_row now next_at (Delivered pid) = sent_row now"
| "verdict_row now next_at (TryAgain err) = retry_row now next_at (Some err)"
| "verdict_row now next_at (GiveUp err) = dead_row now (Some err)"
| "verdict_row now next_at (Reject err) = failed_row now (Some err)"

fun verdict_log :: "claimed \<Rightarrow> bytes \<Rightarrow> verdict \<Rightarrow> log_params list" where
  "verdict_log row hash (Delivered pid) = [log_entry row hash (Some pid) LSent None]"
| "verdict_log row hash (TryAgain err) = []"
| "verdict_log row hash (GiveUp err) = [log_entry row hash None LDead (Some err)]"
| "verdict_log row hash (Reject err) = [log_entry row hash None LFailed (Some err)]"

fun verdict_text :: "verdict \<Rightarrow> string" where
  "verdict_text (Delivered pid) = pid"
| "verdict_text (TryAgain err) = err"
| "verdict_text (GiveUp err) = err"
| "verdict_text (Reject err) = err"

definition verdict_db :: "qctx \<Rightarrow> uuid \<Rightarrow> time \<Rightarrow> claimed \<Rightarrow> bytes \<Rightarrow> verdict \<Rightarrow> db \<Rightarrow> db" where
  "verdict_db q k next_at row hash v =
     settled_db (cl_id row) (verdict_row (q_now q) next_at v) (map (log_row q k) (verdict_log row hash v))"

text \<open>The transaction the worker runs for a verdict, and when it succeeds.\<close>

fun verdict_txn :: "time \<Rightarrow> claimed \<Rightarrow> bytes \<Rightarrow> verdict \<Rightarrow> unit txn" where
  "verdict_txn next_at row hash (Delivered pid) = sent_txn row hash pid"
| "verdict_txn next_at row hash (TryAgain err) = retry_txn row next_at err"
| "verdict_txn next_at row hash (GiveUp err) = dead_txn row hash err"
| "verdict_txn next_at row hash (Reject err) = failed_txn row hash err"

lemma verdict_txn_effect:
  assumes "verdict_txn next_at row hash v q k d = Inr (u, d')"
  shows "d' = verdict_db q k next_at row hash v d" and "q_ident q = IdService" and "pg_text (verdict_text v)"
    and "verdict_log row hash v \<noteq> [] \<Longrightarrow>
           k \<notin> l_id ` set (db_email_log d) \<and> cl_id row \<in> n_id ` set (db_notifications d)"
  using assms by (cases v; auto simp: settlement_iff verdict_db_def)+

lemma verdict_txn_succeeds:
  assumes "pg_text (verdict_text v)" and "q_ident q = IdService"
    and "k \<notin> l_id ` set (db_email_log d)" and "cl_id row \<in> n_id ` set (db_notifications d)"
  shows "verdict_txn next_at row hash v q k d = Inr ((), verdict_db q k next_at row hash v d)"
  using assms by (cases v) (simp_all add: settlement_iff verdict_db_def)

lemma verdict_row_simps [row_simps]:
  "n_id (verdict_row now next_at v r) = n_id r"
  "n_status (verdict_row now next_at v r) = verdict_status v"
  "n_attempts (verdict_row now next_at v r) = n_attempts r"
  "n_locked_until (verdict_row now next_at v r) = None"
  by (cases v; simp add: row_simps sent_row_def retry_row_def dead_row_def failed_row_def)+

lemma verdict_log_nil: "verdict_log row hash v = [] \<longleftrightarrow> \<not> terminal_status (verdict_status v)"
  by (cases v) (auto simp: terminal_status_def)

text \<open>The second half of \<open>dispatch\<close> is exactly the settlement of the verdict.\<close>

definition row_hash :: "worker_env \<Rightarrow> bytes \<Rightarrow> claimed \<Rightarrow> bytes" where
  "row_hash env key row =
     digest_bytes (we_hmac env key (bytes_of_string (to_lower (we_lower env) (trim_space (cl_to_email row)))))"

lemma hash_with_key:
  "we_key env = Some key \<Longrightarrow> email_hash_bytes env (cl_to_email row) = Inr (row_hash env key row)"
  "we_key env = Some key \<Longrightarrow> \<exists>h. hash_email (we_hmac env) (we_lower env) (we_key env) (cl_to_email row) = Inr h"
  by (simp_all add: email_hash_bytes_def hash_email_bytes_def hash_email_def row_hash_def)

lemma after_send_settles:
  assumes "we_key env = Some key" and "0 \<le> cl_attempts row" and "cl_attempts row \<le> 28"
  shows "\<exists>next_at. we_clock env (st_count (ws_store ws)) + backoff_base (cl_attempts row) \<le> next_at \<and>
      after_send env cfg row (Inr res) ws =
        (Ran (), ws\<lparr>ws_store := snd (settle env
           (verdict_txn next_at row (row_hash env key row) (verdict_of (wc_max_attempts cfg) row res))
           (ws_store ws))\<rparr>)"
proof -
  obtain d where d: "backoff (we_random env (st_count (ws_store ws))) (cl_attempts row) = Inr d"
      "backoff_base (cl_attempts row) \<le> sint d"
    using backoff_value [OF assms(2,3)] by blast
  show ?thesis
    using d
    by (intro exI [of _ "we_clock env (st_count (ws_store ws)) + sint d"])
      (auto simp: after_send_def verdict_of_def after_settling_def mark_sent_def mark_failed_def
        mark_dead_def schedule_retry_def hash_with_key [OF assms(1)] split: sum.splits prod.splits)
qed

lemma dispatch_unfold:
  assumes "we_key env = Some key" and "build_message (we_uuid_text env) row = Inr msg"
    and "send msg (ws_sender ws) = (res, s)"
  shows "dispatch env cfg send row ws = after_send env cfg row res (ws\<lparr>ws_sender := s\<rparr>)"
  using hash_with_key(2) [OF assms(1), of row] assms(2,3) by (auto simp: dispatch_def)

text \<open>
  C18: With a working database one dispatch carries out exactly the verdict on the send: the
  row gets its status in one transaction together with its log entry, a retry waits for at
  least the exponential base from now, and the process does not stop.
\<close>

theorem dispatch_implements_verdict:
  assumes "we_key env = Some key" and "0 \<le> cl_attempts row" and "cl_attempts row \<le> 28"
    and "build_message (we_uuid_text env) row = Inr msg"
    and "send msg (ws_sender ws) = (Inr res, s)"
    and "n = st_count (ws_store ws)" and "d = st_db (ws_store ws)" and "io_fault (we_io env) n = None"
    and "v = verdict_of (wc_max_attempts cfg) row res" and "pg_text (verdict_text v)"
    and "io_uuid (we_io env) n \<notin> l_id ` set (db_email_log d)" and "cl_id row \<in> n_id ` set (db_notifications d)"
  shows "\<exists>next_at. we_clock env n + backoff_base (cl_attempts row) \<le> next_at \<and>
    dispatch env cfg send row ws =
      (Ran (), \<lparr>ws_store = \<lparr>st_db = verdict_db (txn_ctx (we_io env) IdService n) (io_uuid (we_io env) n) next_at
                                   row (row_hash env key row) v d,
                           st_count = n + 1\<rparr>, ws_sender = s\<rparr>)"
proof -
  obtain next_at where next_at: "we_clock env n + backoff_base (cl_attempts row) \<le> next_at"
    "dispatch env cfg send row ws =
      (Ran (), ws\<lparr>ws_sender := s, ws_store := snd (settle env
           (verdict_txn next_at row (row_hash env key row) v) (ws_store ws))\<rparr>)"
    using after_send_settles [OF assms(1-3), of "ws\<lparr>ws_sender := s\<rparr>" cfg res] assms(6,9)
      dispatch_unfold [of env key row msg send ws "Inr res" s cfg, OF assms(1,4,5)] by auto
  have "verdict_txn next_at row (row_hash env key row) v (txn_ctx (we_io env) IdService n) (io_uuid (we_io env) n) d =
      Inr ((), verdict_db (txn_ctx (we_io env) IdService n) (io_uuid (we_io env) n) next_at row (row_hash env key row) v d)"
    using assms(10-12) by (intro verdict_txn_succeeds) simp_all
  then have "with_tx (we_io env) (verdict_txn next_at row (row_hash env key row) v) (ws_store ws) =
      (Inr (), \<lparr>st_db = verdict_db (txn_ctx (we_io env) IdService n) (io_uuid (we_io env) n) next_at row
                  (row_hash env key row) v d, st_count = n + 1\<rparr>)"
    using assms(6-8) by (subst with_tx_no_fault) simp_all
  then have "settle env (verdict_txn next_at row (row_hash env key row) v) (ws_store ws) =
      (None, \<lparr>st_db = verdict_db (txn_ctx (we_io env) IdService n) (io_uuid (we_io env) n) next_at row
                (row_hash env key row) v d, st_count = n + 1\<rparr>)"
    by (simp add: settle_def numeral_3_eq_3)
  with next_at show ?thesis by (intro exI [of _ next_at]) (cases ws; simp)
qed

section \<open>Error texts the database cannot store\<close>

lemma settle_impossible:
  assumes "\<And>q k d u d'. txn q k d \<noteq> Inr (u, d')"
  shows "st_db (snd (settle env txn st)) = st_db st"
proof -
  have none: "\<not> (\<exists>q k x. (q_ident q = IdService \<and> q_pg q = io_pg (we_io env)) \<and> txn q k d = Inr (x, d'))" for d d'
    using assms by auto
  have err: "st_db st' = st_db st" if "with_tx (we_io env) txn st = (Inl e, st')" for st st' e
    using service.run_error [OF that] none by blast
  have ok: "with_tx (we_io env) txn st \<noteq> (Inr u, st')" for st u st'
    using service.run_ok [of "we_io env" txn st u st'] none by blast
  obtain res st' where s: "settle env txn st = (res, st')" by fastforce
  show ?thesis
    using with_retry_once [where fn = "with_tx (we_io env) txn", OF err, OF _ s [unfolded settle_def]] ok s
    by auto
qed

text \<open>
  C35: the error text is cut at 1000 bytes, and PostgreSQL refuses text that is not UTF-8. If
  the cut splits a character, nothing about the failed attempt can be recorded, whatever the
  database does: the row stays as it is, in \<open>sending\<close>.
\<close>

theorem unstorable_error_leaves_row:
  assumes "we_key env = Some key" and "0 \<le> cl_attempts row" and "cl_attempts row \<le> 28"
    and "build_message (we_uuid_text env) row = Inr msg"
    and "send msg (ws_sender ws) = (Inr (Inl e), s)"
    and "\<not> pg_text (truncate_bytes (error_text e) 1000)"
  shows "fst (dispatch env cfg send row ws) = Ran () \<and>
         st_db (ws_store (snd (dispatch env cfg send row ws))) = st_db (ws_store ws)"
proof -
  let ?v = "verdict_of (wc_max_attempts cfg) row (Inl e)"
  have "\<not> pg_text (verdict_text ?v)" using assms(6) by (simp add: verdict_of_def)
  then have no: "verdict_txn next_at row h ?v q k d \<noteq> Inr (u, d')" for next_at h q k d u d'
    using verdict_txn_effect(3) by blast
  obtain next_at where "dispatch env cfg send row ws =
      (Ran (), ws\<lparr>ws_sender := s, ws_store := snd (settle env
           (verdict_txn next_at row (row_hash env key row) ?v) (ws_store ws))\<rparr>)"
    using after_send_settles [OF assms(1-3), of "ws\<lparr>ws_sender := s\<rparr>" cfg "Inl e"]
      dispatch_unfold [of env key row msg send ws "Inr (Inl e)" s cfg, OF assms(1,4,5)] by auto
  then show ?thesis using settle_impossible [OF no] by simp
qed

section \<open>What a tick sends\<close>

definition row_mark :: "worker_env \<Rightarrow> claimed \<Rightarrow> string \<times> string" where
  "row_mark env row = (cl_to_email row, we_uuid_text env (cl_id row))"

text \<open>
  The marks (recipient and idempotency key) of the pending rows of a database, and whether
  the daily cap is reached when the tick looks.
\<close>

definition due_marks :: "worker_env \<Rightarrow> store \<Rightarrow> (string \<times> string) set" where
  "due_marks env st =
     (\<lambda>r. (n_to_email r, we_uuid_text env (n_id r))) ` {r \<in> set (db_notifications (st_db st)). n_status r = NPending}"

definition at_cap :: "worker_env \<Rightarrow> worker_config \<Rightarrow> store \<Rightarrow> bool" where
  "at_cap env cfg st \<longleftrightarrow> wc_max_daily cfg > 0 \<and>
     int (length (filter (sent_last_day (io_now (we_io env) (st_count st))) (db_notifications (st_db st)))) \<ge>
       wc_max_daily cfg"

lemma count_sends_service:
  "q_ident q = IdService \<Longrightarrow> count_sends_last_day q d =
     Inr (int (length (filter (sent_last_day (q_now q)) (db_notifications d))), d)"
  by (simp add: count_sends_last_day_def read_internal_def may_read_internal_def visible_notifications_def
      select_internal_def)

lemma over_cap_passed:
  assumes "over_cap env cfg st = (Inr False, st')"
  shows "st_db st' = st_db st" and "\<not> at_cap env cfg st"
proof -
  have "st_db st' = st_db st \<and> \<not> at_cap env cfg st"
  proof (cases "wc_max_daily cfg > 0")
    case True
    then obtain n where tx: "with_tx (we_io env) (\<lambda>q k. count_sends_last_day q) st = (Inr n, st')"
      and n: "\<not> n \<ge> wc_max_daily cfg"
      using assms by (auto simp: over_cap_def split: sum.splits prod.splits)
    have "count_sends_last_day (txn_ctx (we_io env) IdService (st_count st)) (st_db st) = Inr (n, st_db st')"
      using tx unfolding with_tx_def by (cases rule: run_txn_cases) auto
    then show ?thesis using n by (auto simp: count_sends_service at_cap_def)
  next
    case False
    then show ?thesis using assms by (simp add: over_cap_def at_cap_def)
  qed
  then show "st_db st' = st_db st" and "\<not> at_cap env cfg st" by simp_all
qed

lemma claimed_rows:
  assumes "with_tx (we_io env) (claim_txn env cfg n) st = (Inr rows, st')"
  shows "length rows \<le> 5"
    and "row \<in> set rows \<Longrightarrow> \<exists>r\<in>set (db_notifications (st_db st)). n_status r = NPending \<and>
           row_mark env row = (n_to_email r, we_uuid_text env (n_id r))"
proof -
  obtain q where "claim_due_notifications q (we_locked env n) claim_limit (lease_seconds cfg) (st_db st) =
      Inr (rows, st_db st')"
    using with_tx_ok [OF assms] by (auto simp: claim_txn_def)
  note rows = claim_effect(3) [OF this]
  show "length rows \<le> 5"
    using due_rows_basic(1) [of "q_now q" "we_locked env n" claim_limit] by (simp add: rows claim_limit_def)
  show "row \<in> set rows \<Longrightarrow> \<exists>r\<in>set (db_notifications (st_db st)). n_status r = NPending \<and>
      row_mark env row = (n_to_email r, we_uuid_text env (n_id r))"
    using due_rows_basic(2)
    by (fastforce simp: rows claimed_of_def leased_row_def row_mark_def claim_due_pred_def)
qed

context sender
begin

definition sends_only :: "(string \<times> string) set \<Rightarrow> nat \<Rightarrow> 's \<Rightarrow> 's \<Rightarrow> bool" where
  "sends_only K n s s' \<longleftrightarrow> (\<exists>new. posted s' = posted s @ new \<and> length new \<le> n \<and> set new \<subseteq> K)"

lemma sends_only_refl: "sends_only K n s s"
  by (auto simp: sends_only_def intro: exI [of _ "[]"])

lemma sends_only_trans:
  "sends_only K m s t \<Longrightarrow> sends_only L n t u \<Longrightarrow> sends_only (K \<union> L) (m + n) s u"
  by (fastforce simp: sends_only_def)

lemma sends_only_mono: "sends_only K m s t \<Longrightarrow> K \<subseteq> L \<Longrightarrow> m \<le> n \<Longrightarrow> sends_only L n s t"
  unfolding sends_only_def by (meson order_trans)

lemma send_sends: "sends_only {(m_to m, m_idempotency_key m)} 1 s (snd (send m s))"
  using send_failed [of m s] unfolding sends_only_def
  by (cases "send m s") (fastforce intro: exI [of _ "[]"])

lemma built_mark:
  "build_message txt row = Inr msg \<Longrightarrow> m_to msg = cl_to_email row \<and> m_idempotency_key msg = txt (cl_id row)"
  by (auto simp: build_message_def message_of_def Let_def split: if_splits prod.splits option.splits)

lemma after_settling_sender [simp]: "ws_sender (snd (after_settling ws r)) = ws_sender ws"
  by (auto simp: after_settling_def split: sum.splits prod.splits)

lemma after_send_sender [simp]: "ws_sender (snd (after_send env cfg row res ws)) = ws_sender ws"
  by (auto simp: after_send_def split: sum.splits)

lemma dispatch_sends:
  "sends_only {row_mark env row} 1 (ws_sender ws) (ws_sender (snd (dispatch env cfg send row ws)))"
proof (cases "build_message (we_uuid_text env) row")
  case (Inl e)
  then show ?thesis by (auto simp: dispatch_def sends_only_refl split: sum.splits)
next
  case (Inr msg)
  then show ?thesis
    using send_sends [of msg "ws_sender ws"] built_mark [OF Inr]
    by (auto simp: dispatch_def row_mark_def sends_only_refl split: sum.splits prod.splits)
qed

lemma dispatch_all_sends:
  "sends_only (row_mark env ` set rows) (length rows) (ws_sender ws)
     (ws_sender (snd (dispatch_all env cfg send rows ws)))"
proof (induction rows arbitrary: ws)
  case (Cons row rows)
  obtain r ws' where d: "dispatch env cfg send row ws = (r, ws')" by fastforce
  have one: "sends_only {row_mark env row} 1 (ws_sender ws) (ws_sender ws')"
    using dispatch_sends [of env row ws cfg] d by simp
  have "sends_only (row_mark env ` set (row # rows)) (length (row # rows)) (ws_sender ws) (ws_sender ws')"
    by (rule sends_only_mono [OF one]) simp_all
  moreover have "sends_only (row_mark env ` set (row # rows)) (length (row # rows)) (ws_sender ws)
      (ws_sender (snd (dispatch_all env cfg send rows ws')))"
    using sends_only_trans [OF one Cons.IH [of ws']] by simp
  ultimately show ?case
    using d by (auto simp: sends_only_refl split: option.splits run.splits)
qed (simp add: sends_only_refl)

lemma tick_sends:
  obtains (idle) "ws_sender (snd (tick env cfg send ws)) = ws_sender ws"
    | (busy) rows st st' where "over_cap env cfg (ws_store ws) = (Inr False, st)"
      "with_tx (we_io env) (claim_txn env cfg (st_count st)) st = (Inr rows, st')"
      "sends_only (row_mark env ` set rows) (length rows) (ws_sender ws) (ws_sender (snd (tick env cfg send ws)))"
proof -
  obtain r st where cap: "over_cap env cfg (ws_store ws) = (r, st)" by fastforce
  obtain c st' where claim: "with_tx (we_io env) (claim_txn env cfg (st_count st)) st = (c, st')" by fastforce
  show thesis
  proof (cases "r = Inr False \<and> (\<exists>rows. c = Inr rows \<and> rows \<noteq> [])")
    case True
    then obtain rows where rows: "r = Inr False" "c = Inr rows" "rows \<noteq> []" by blast
    have "ws_sender (snd (tick env cfg send ws)) =
        ws_sender (snd (dispatch_all env cfg send rows (ws\<lparr>ws_store := st'\<rparr>)))"
      using cap claim rows by (auto simp: tick_def split: prod.splits run.splits option.splits)
    with busy cap claim rows dispatch_all_sends [of env rows "ws\<lparr>ws_store := st'\<rparr>" cfg]
    show thesis by auto
  next
    case False
    then have "ws_sender (snd (tick env cfg send ws)) = ws_sender ws"
      using cap claim by (auto simp: tick_def split: sum.splits bool.splits)
    then show thesis by (rule idle)
  qed
qed

lemma tick_posts_bounded:
  "\<exists>new. posted (ws_sender (snd (tick env cfg send ws))) = posted (ws_sender ws) @ new \<and>
     length new \<le> 5 \<and>
     set new \<subseteq> due_marks env (ws_store ws) \<and> (at_cap env cfg (ws_store ws) \<longrightarrow> new = [])"
proof (cases rule: tick_sends [of env cfg ws])
  case idle
  then show ?thesis by (intro exI [of _ "[]"]) simp
next
  case (busy rows st st')
  note cap = over_cap_passed [OF busy(1)] and rows = claimed_rows [OF busy(2)]
  obtain new where "posted (ws_sender (snd (tick env cfg send ws))) = posted (ws_sender ws) @ new"
    "length new \<le> length rows" "set new \<subseteq> row_mark env ` set rows"
    using busy(3) unfolding sends_only_def by blast
  moreover have "row_mark env ` set rows \<subseteq> due_marks env (ws_store ws)"
    using rows(2) unfolding cap(1) due_marks_def by (intro image_subsetI) (metis (mono_tags, lifting) image_eqI mem_Collect_eq)
  ultimately show ?thesis using rows(1) cap(2) by (intro exI [of _ new]) auto
qed

end

text \<open>
  One tick hands the provider at most five messages, each addressed to the recipient of a
  pending notification and carrying that notification's id as its idempotency key, so a
  repeated attempt repeats the key; once the daily cap is reached it hands over none.
\<close>

theorem tick_sends_bounded:
  "\<exists>new. resend_posted (ws_sender (snd (tick env cfg (resend_send hash http_do r) ws))) =
           resend_posted (ws_sender ws) @ new \<and>
     length new \<le> 5 \<and> set new \<subseteq> due_marks env (ws_store ws) \<and> (at_cap env cfg (ws_store ws) \<longrightarrow> new = [])"
  by (rule resend.tick_posts_bounded)

section \<open>From \<open>Enqueue\<close> to the message\<close>

lemma payload_names: "fold_name ''confirm_url'' = ''confirm_url''" "fold_name ''unsubscribe_url'' = ''unsubscribe_url''"
  by (rule fold_name_lower, code_simp)+

lemma decode_confirm_payload:
  "decode_struct None pkg tname [''confirm_url'', ''unsubscribe_url''] (encode_confirm_payload p) = (err, f) \<Longrightarrow>
     err = None \<and> f ''confirm_url'' = cp_confirm_url p \<and> f ''unsubscribe_url'' = cp_unsubscribe_url p"
  using payload_names
  by (auto simp: decode_struct_def encode_confirm_payload_def is_text_or_null_def)

definition confirm_message :: "(uuid \<Rightarrow> string) \<Rightarrow> uuid \<Rightarrow> string \<Rightarrow> confirm_payload \<Rightarrow> message" where
  "confirm_message txt i to_email p =
     \<lparr>m_from = '''', m_to = to_email, m_subject = fst (render_confirm_email p),
      m_html = snd (snd (render_confirm_email p)), m_text = fst (snd (render_confirm_email p)),
      m_headers = [(''List-Unsubscribe'', ''<'' @ cp_unsubscribe_url p @ ''>''),
                   (''List-Unsubscribe-Post'', ''List-Unsubscribe=One-Click'')],
      m_reply_to = '''', m_tag = ''confirm_email'', m_idempotency_key = txt i\<rparr>"

lemma build_confirm:
  assumes "cl_kind c = kind_confirm_email" and "cl_payload c = encode_confirm_payload p"
  shows "build_message txt c = Inr (confirm_message txt (cl_id c) (cl_to_email c) p)"
proof -
  obtain err f where d: "decode_struct None ''notifications'' ''ConfirmEmailPayload''
      [''confirm_url'', ''unsubscribe_url''] (encode_confirm_payload p) = (err, f)" by fastforce
  have p: "\<lparr>cp_confirm_url = cp_confirm_url p, cp_unsubscribe_url = cp_unsubscribe_url p\<rparr> = p" by simp
  then show ?thesis
    using decode_confirm_payload [OF d] d assms
    by (simp add: build_message_def message_of_def confirm_message_def Let_def kind_confirm_email_def
        case_prod_beta p)
qed

lemma sublist_join:
  assumes "p \<in> set ps"
  shows "sublist p (join sep ps)"
proof (cases ps)
  case (Cons q qs)
  show ?thesis
  proof (cases "p = q")
    case True
    then show ?thesis by (simp add: join_def Cons)
  next
    case False
    then obtain pre post where "qs = pre @ p # post" using assms Cons by (auto dest: split_list)
    then have "join sep ps = (q @ concat (map (\<lambda>q. sep @ q) pre) @ sep) @ p @ concat (map (\<lambda>q. sep @ q) post)"
      by (simp add: join_def Cons)
    then show ?thesis unfolding sublist_def by blast
  qed
qed (use assms in simp)

lemma sublist_in_join: "a @ p @ b \<in> set ps \<Longrightarrow> sublist p (join sep ps)"
  by (rule sublist_order.order.trans [OF sublist_appendI sublist_join])

lemma enqueue_effect:
  assumes "enqueue io kind to_email payload st = (Inr i, st')"
  shows "i \<notin> n_id ` set (db_notifications (st_db st)) \<and> (\<exists>q. st_db st' = (st_db st)
    \<lparr>db_notifications := db_notifications (st_db st) @ [fresh_notification q i kind to_email payload]\<rparr>)"
proof -
  obtain q k where "enqueue_notification q k kind to_email payload (st_db st) = Inr (i, st_db st')"
    using with_tx_ok [OF assms [unfolded enqueue_def]] by blast
  then show ?thesis
    unfolding enqueue_iff by blast
qed

text \<open>
  The way through the queue loses nothing: what \<open>Enqueue\<close> stored for a confirmation is, once
  claimed, built into a message to the same address that shows both links, names the
  unsubscribe link for one-click clients, and carries the id \<open>Enqueue\<close> returned as its key.
\<close>

theorem enqueued_confirmation_is_built:
  assumes "enqueue io kind_confirm_email to_email (encode_confirm_payload p) st = (Inr i, st')"
    and "claim_due_notifications q skip lim lease (st_db st') = Inr (rows, d')"
    and "c \<in> set rows" and "cl_id c = i"
  shows "\<exists>m. build_message txt c = Inr m \<and> m_to m = to_email \<and> m_idempotency_key m = txt i \<and>
    sublist (cp_confirm_url p) (m_text m) \<and> sublist (cp_confirm_url p) (m_html m) \<and>
    sublist (cp_unsubscribe_url p) (m_text m) \<and>
    (''List-Unsubscribe'', ''<'' @ cp_unsubscribe_url p @ ''>'') \<in> set (m_headers m)"
proof -
  obtain r where r: "r \<in> set (db_notifications (st_db st'))" "c = claimed_of (leased_row (q_now q) lease r)"
    using assms(3) unfolding claim_effect(3) [OF assms(2)] by (auto dest: due_rows_basic(2))
  have "n_id r = i" using assms(4) r(2) by (simp add: claimed_of_def row_simps)
  moreover obtain q' where "i \<notin> n_id ` set (db_notifications (st_db st))" "st_db st' = (st_db st)\<lparr>db_notifications :=
      db_notifications (st_db st) @ [fresh_notification q' i kind_confirm_email to_email (encode_confirm_payload p)]\<rparr>"
    using enqueue_effect [OF assms(1)] by blast
  ultimately have "r = fresh_notification q' i kind_confirm_email to_email (encode_confirm_payload p)"
    using r(1) by auto
  then have "build_message txt c = Inr (confirm_message txt i to_email p)"
    using build_confirm [of c p] assms(4) r(2) by (simp add: claimed_of_def leased_row_def)
  moreover have "sublist (cp_confirm_url p) (fst (snd (render_confirm_email p)))"
    "sublist (cp_unsubscribe_url p) (fst (snd (render_confirm_email p)))"
    by (auto simp: render_confirm_email_def intro!: sublist_join)
  moreover have "sublist (cp_confirm_url p) (snd (snd (render_confirm_email p)))"
    unfolding render_confirm_email_def
    by (simp only: snd_conv, rule sublist_in_join, (rule list.set_intros(2), rule list.set_intros(2), rule list.set_intros(2), rule list.set_intros(2)), rule list.set_intros(1))
  ultimately show ?thesis by (simp add: confirm_message_def)
qed

section \<open>Sample worker\<close>

definition sample_env :: worker_env where
  "sample_env = \<lparr>we_io = sample_io, we_hmac = (\<lambda>k m. 5), we_lower = id, we_key = Some [1],
     we_uuid_text = (\<lambda>u. int_text (uint u)), we_clock = (\<lambda>n. int n * second), we_random = id,
     we_cancelled = (\<lambda>n. False), we_limiter = (\<lambda>n. None), we_locked = (\<lambda>n. {})\<rparr>"

definition sample_cfg :: worker_config where
  "sample_cfg = new_worker \<lparr>wc_concurrency = 2, wc_outbound_rps = 5, wc_max_attempts = 6,
     wc_lease = 60 * second, wc_base_sleep = 0, wc_max_daily = 5000\<rparr>"

definition sample_payload :: confirm_payload where
  "sample_payload = \<lparr>cp_confirm_url = ''https://x/c'', cp_unsubscribe_url = ''https://x/u''\<rparr>"

definition sample_queued :: notification where
  "sample_queued = fresh_notification (sample_q IdService 0) 1 kind_confirm_email ''ann@example.org''
     (encode_confirm_payload sample_payload)"

definition sample_sending :: notification where
  "sample_sending = leased_row 500 60 sample_queued"

definition sample_ws :: "'s \<Rightarrow> 's worker_state" where
  "sample_ws s = \<lparr>ws_store = \<lparr>st_db = (sample_db [])\<lparr>db_notifications := [sample_sending]\<rparr>, st_count = 3\<rparr>,
     ws_sender = s\<rparr>"

lemma sample_row_facts:
  "cl_id (claimed_of sample_sending) = 1" "cl_kind (claimed_of sample_sending) = kind_confirm_email"
  "cl_payload (claimed_of sample_sending) = encode_confirm_payload sample_payload"
  "cl_attempts (claimed_of sample_sending) = 1" "n_id sample_sending = 1"
  by (simp_all add: sample_sending_def sample_queued_def claimed_of_def leased_row_def)

lemma sample_env_simps:
  "we_key sample_env = Some [1]" "we_io sample_env = sample_io" "io_fault sample_io n = None"
  "io_uuid sample_io n = word_of_nat n"
  by (simp_all add: sample_env_def sample_io_def)

lemma dispatch_implements_verdict_witness:
  "fst (dispatch sample_env sample_cfg (\<lambda>m s. (Inr (Inr ''p''), s)) (claimed_of sample_sending) (sample_ws ())) = Ran () \<and>
   map n_status (db_notifications (st_db (ws_store (snd
     (dispatch sample_env sample_cfg (\<lambda>m s. (Inr (Inr ''p''), s)) (claimed_of sample_sending) (sample_ws ())))))) = [NSent]"
proof -
  let ?send = "\<lambda>m s. (Inr (Inr ''p''), s) :: send_result \<times> unit"
  let ?ws = "sample_ws () :: unit worker_state"
  have p: "pg_text (verdict_text (Delivered ''p''))" by code_simp
  have ws: "st_count (ws_store ?ws) = 3" "db_email_log (st_db (ws_store ?ws)) = []"
    "db_notifications (st_db (ws_store ?ws)) = [sample_sending]"
    by (simp_all add: sample_ws_def)
  have build: "build_message (we_uuid_text sample_env) (claimed_of sample_sending) =
      Inr (confirm_message (we_uuid_text sample_env) 1 (cl_to_email (claimed_of sample_sending)) sample_payload)"
    using build_confirm [OF sample_row_facts(2,3)] by (simp add: sample_row_facts)
  have v: "Delivered ''p'' = verdict_of (wc_max_attempts sample_cfg) (claimed_of sample_sending) (Inr ''p'')"
    by (simp add: verdict_of_def)
  have "\<exists>next_at. dispatch sample_env sample_cfg ?send (claimed_of sample_sending) ?ws =
      (Ran (), \<lparr>ws_store = \<lparr>st_db = verdict_db (txn_ctx (we_io sample_env) IdService 3) (io_uuid (we_io sample_env) 3)
          next_at (claimed_of sample_sending) (row_hash sample_env [1] (claimed_of sample_sending)) (Delivered ''p'')
          (st_db (ws_store ?ws)), st_count = 3 + 1\<rparr>, ws_sender = ()\<rparr>)"
    using dispatch_implements_verdict [where send = ?send, OF sample_env_simps(1) _ _ build refl
        ws(1) [symmetric] refl _ v p]
    by (simp add: sample_row_facts sample_env_simps ws) blast
  then obtain next_at where "dispatch sample_env sample_cfg ?send (claimed_of sample_sending) ?ws =
      (Ran (), \<lparr>ws_store = \<lparr>st_db = verdict_db (txn_ctx (we_io sample_env) IdService 3) (io_uuid (we_io sample_env) 3)
          next_at (claimed_of sample_sending) (row_hash sample_env [1] (claimed_of sample_sending)) (Delivered ''p'')
          (st_db (ws_store ?ws)), st_count = 3 + 1\<rparr>, ws_sender = ()\<rparr>)" by blast
  then show ?thesis by (simp add: verdict_db_def ws sample_row_facts row_simps)
qed

definition long_error :: gerror where
  "long_error = Msg (replicate 999 CHR ''x'' @ [CHR 0xC3, CHR 0xA9])"

lemma utf8_valid_ascii_append: "list_all is_ascii s \<Longrightarrow> utf8_valid (s @ t) = utf8_valid t"
  by (induction s) (auto simp: is_ascii_def Let_def)

lemma long_error_text:
  "pg_text (error_text long_error)" "\<not> pg_text (truncate_bytes (error_text long_error) 1000)"
proof -
  have x: "list_all is_ascii (replicate 999 CHR ''x'')" by (simp add: list_all_iff is_ascii_def)
  have t: "truncate_bytes (error_text long_error) 1000 = replicate 999 CHR ''x'' @ [CHR 0xC3]"
    by (simp add: truncate_bytes_def long_error_def)
  show "pg_text (error_text long_error)"
    by (simp add: pg_text_def long_error_def utf8_valid_ascii_append [OF x] utf8_cont_def)
  show "\<not> pg_text (truncate_bytes (error_text long_error) 1000)"
    unfolding t by (simp add: pg_text_def utf8_valid_ascii_append [OF x])
qed

lemma unstorable_error_leaves_row_witness:
  "map n_status (db_notifications (st_db (ws_store (snd (dispatch sample_env sample_cfg
     (\<lambda>m s. (Inr (Inl long_error), s)) (claimed_of sample_sending) (sample_ws ())))))) = [NSending]"
proof -
  let ?send = "\<lambda>m s. (Inr (Inl long_error), s) :: send_result \<times> unit"
  note unstorable_error_leaves_row [where env = sample_env and row = "claimed_of sample_sending" and send = ?send
      and ws = "sample_ws ()" and e = long_error and s = "()" and cfg = sample_cfg,
      OF sample_env_simps(1) _ _ build_confirm [OF sample_row_facts(2,3)] _ long_error_text(2)]
  then show ?thesis
    by (simp add: sample_row_facts) (simp add: sample_ws_def sample_sending_def row_simps)
qed

lemma tick_sends_bounded_witness:
  "resend_posted (ws_sender (snd (tick sample_env (sample_cfg\<lparr>wc_max_daily := 1\<rparr>)
      (resend_send (\<lambda>e. Inr ''h'') sample_transport (new_resend ''k'' ''f''))
      \<lparr>ws_store = \<lparr>st_db = (sample_db [])\<lparr>db_notifications := [sent_row 0 sample_sending]\<rparr>, st_count = 3\<rparr>,
       ws_sender = (200, [])\<rparr>))) = []"
proof -
  let ?ws = "\<lparr>ws_store = \<lparr>st_db = (sample_db [])\<lparr>db_notifications := [sent_row 0 sample_sending]\<rparr>, st_count = 3\<rparr>,
       ws_sender = (200 :: int, [] :: http_post list)\<rparr>"
  have "at_cap sample_env (sample_cfg\<lparr>wc_max_daily := 1\<rparr>) (ws_store ?ws)"
    by (simp add: at_cap_def sent_last_day_def sent_row_def sample_env_simps)
      (simp add: sample_io_def second_def day_def minute_def)
  with tick_sends_bounded [of sample_env "sample_cfg\<lparr>wc_max_daily := 1\<rparr>" "\<lambda>e. Inr ''h''" sample_transport
      "new_resend ''k'' ''f''" ?ws]
  show ?thesis by (auto simp: resend_posted_def)
qed

lemma enqueued_confirmation_is_built_witness:
  "\<exists>m. build_message (\<lambda>u. ''id'')
     \<lparr>cl_id = 4, cl_kind = kind_confirm_email, cl_to_email = ''ann@example.org'',
      cl_payload = encode_confirm_payload sample_payload, cl_attempts = 1\<rparr> = Inr m \<and>
     m_to m = ''ann@example.org'' \<and> m_idempotency_key m = ''id''"
proof -
  let ?st = "\<lparr>st_db = sample_db [], st_count = 4\<rparr>"
  let ?n = "fresh_notification (txn_ctx sample_io IdService 4) 4 kind_confirm_email ''ann@example.org''
      (encode_confirm_payload sample_payload)"
  let ?st' = "\<lparr>st_db = (sample_db [])\<lparr>db_notifications := [?n]\<rparr>, st_count = 5\<rparr>"
  let ?q = "sample_q IdService (9 * second)"
  have texts: "list_all pg_text [kind_confirm_email, ''ann@example.org'']" by code_simp
  have 1: "enqueue sample_io kind_confirm_email ''ann@example.org'' (encode_confirm_payload sample_payload) ?st =
      (Inr 4, ?st')"
  proof -
    have "enqueue_notification (txn_ctx sample_io IdService 4) 4 kind_confirm_email ''ann@example.org''
        (encode_confirm_payload sample_payload) (sample_db []) = Inr (4, (sample_db [])\<lparr>db_notifications := [?n]\<rparr>)"
      unfolding enqueue_iff using texts by simp
    then show ?thesis by (simp add: enqueue_def with_tx_no_fault sample_env_simps)
  qed
  have 2: "claim_due_notifications ?q {} 5 60 (st_db ?st') =
      Inr ([claimed_of (leased_row (9 * second) 60 ?n)],
           (sample_db [])\<lparr>db_notifications := [leased_row (9 * second) 60 ?n]\<rparr>)"
    by (simp add: claim_due_notifications_def service_only_def sample_q_def due_rows_def claim_due_pred_def
        fresh_notification_def sample_io_def second_def)
  show ?thesis
    using enqueued_confirmation_is_built [OF 1 2, of "claimed_of (leased_row (9 * second) 60 ?n)" "\<lambda>u. ''id''"]
    by (auto simp: claimed_of_def leased_row_def)
qed

section \<open>A tick ends, and so does a cancelled worker\<close>

lemma with_tx_count: "with_tx io fn st = (res, st') \<Longrightarrow> st_count st' = st_count st + 1"
  using run_txn_count [of io "Inr IdService" fn st] by (simp add: with_tx_def)

lemma with_retry_count:
  assumes "\<And>s x s'. fn s = (x, s') \<Longrightarrow> st_count s' = st_count s + 1"
    and "with_retry cancelled n fn err st = (res, st')"
  shows "st_count st \<le> st_count st' \<and> st_count st' \<le> st_count st + n"
  using assms(2)
proof (induction n arbitrary: err st)
  case (Suc n)
  obtain x s' where fn: "fn st = (x, s')" by fastforce
  show ?case
    using Suc.prems Suc.IH [of _ s'] assms(1) [OF fn] fn by (fastforce split: sum.splits if_splits)
qed simp

lemma settle_count: "settle env txn st = (res, st') \<Longrightarrow> st_count st \<le> st_count st' \<and> st_count st' \<le> st_count st + 3"
  unfolding settle_def by (rule with_retry_count [OF with_tx_count])

lemma dispatch_count:
  assumes "dispatch env cfg send row ws = (r, ws')"
  shows "st_count (ws_store ws) \<le> st_count (ws_store ws') \<and> st_count (ws_store ws') \<le> st_count (ws_store ws) + 3"
  using assms
  by (auto simp: dispatch_def after_send_def after_settling_def mark_sent_def mark_failed_def mark_dead_def
      schedule_retry_def split: sum.splits prod.splits if_splits dest: settle_count)

lemma dispatch_all_count:
  assumes "dispatch_all env cfg send rows ws = (r, ws')"
  shows "st_count (ws_store ws) \<le> st_count (ws_store ws') \<and>
    st_count (ws_store ws') \<le> st_count (ws_store ws) + 3 * length rows"
  using assms
proof (induction rows arbitrary: ws)
  case (Cons row rows)
  obtain o1 w1 where d: "dispatch env cfg send row ws = (o1, w1)" by fastforce
  show ?case
    using Cons.prems Cons.IH [of w1] dispatch_count [OF d] d by (auto split: option.splits run.splits)
qed simp

lemma over_cap_count:
  assumes "over_cap env cfg st = (c, st')"
  shows "st_count st' = st_count st + (if wc_max_daily cfg > 0 then 1 else 0)"
  using assms by (auto simp: over_cap_def split: if_splits sum.splits prod.splits dest: with_tx_count)

lemma tick_count:
  assumes "tick env cfg send ws = (res, ws')"
  shows "st_count (ws_store ws) < st_count (ws_store ws')" "st_count (ws_store ws') \<le> st_count (ws_store ws) + 17"
    and "res = Ran (n, e) \<Longrightarrow> 0 \<le> n \<and> n \<le> 5 \<and> (0 < n \<longrightarrow> e = None)"
proof -
  obtain c st where cap: "over_cap env cfg (ws_store ws) = (c, st)" by fastforce
  obtain cl st1 where tx: "with_tx (we_io env) (claim_txn env cfg (st_count st)) st = (cl, st1)" by fastforce
  note n1 = over_cap_count [OF cap] and n2 = with_tx_count [OF tx]
  have all: "(st_count (ws_store ws) < st_count (ws_store ws') \<and> st_count (ws_store ws') \<le> st_count (ws_store ws) + 17) \<and>
      (res = Ran (n, e) \<longrightarrow> 0 \<le> n \<and> n \<le> 5 \<and> (0 < n \<longrightarrow> e = None))"
  proof (cases "c = Inr False")
    case False
    then have "wc_max_daily cfg > 0" using cap by (auto simp: over_cap_def split: if_splits)
    then show ?thesis using False assms cap n1 by (auto simp: tick_def split: sum.splits bool.splits)
  next
    case True
    show ?thesis
    proof (cases cl)
      case (Inl x)
      then show ?thesis using True assms cap tx n1 n2 by (auto simp: tick_def)
    next
      case (Inr rows)
      obtain o1 w1 where d: "dispatch_all env cfg send rows (ws\<lparr>ws_store := st1\<rparr>) = (o1, w1)" by fastforce
      have five: "length rows \<le> 5" by (rule claimed_rows(1) [OF tx [unfolded Inr]])
      then show ?thesis
        using True assms cap tx Inr d n1 n2 dispatch_all_count [OF d]
        by (auto simp: tick_def split: if_splits run.splits option.splits)
    qed
  qed
  then show "st_count (ws_store ws) < st_count (ws_store ws')" "st_count (ws_store ws') \<le> st_count (ws_store ws) + 17"
    "res = Ran (n, e) \<Longrightarrow> 0 \<le> n \<and> n \<le> 5 \<and> (0 < n \<longrightarrow> e = None)" by blast+
qed

text \<open>
  A worker stops when it is told to: every tick makes at least one and at most 17
  transactions, so if the context is cancelled from the \<open>k\<close>-th transaction on, the loop returns
  (any two fuels above the transactions left give the same result, so the fuel never runs
  out), and at most 16 more transactions are made after that point.
\<close>

theorem cancelled_worker_stops:
  assumes "\<And>c. k \<le> c \<Longrightarrow> we_cancelled env c"
    and "k - st_count (ws_store ws) < n" and "k - st_count (ws_store ws) < m"
  shows "worker_loop n env cfg send ws = worker_loop m env cfg send ws \<and>
    st_count (ws_store (snd (worker_loop n env cfg send ws))) \<le> max (st_count (ws_store ws)) (k + 16)"
  using assms(2,3)
proof (induction n arbitrary: m ws)
  case (Suc n)
  then obtain m' where m: "m = Suc m'" by (cases m) auto
  show ?case
  proof (cases "we_cancelled env (st_count (ws_store ws))")
    case True
    then show ?thesis by (simp add: m)
  next
    case False
    then have k: "st_count (ws_store ws) < k" using assms(1) not_le by blast
    obtain r ws' where t: "tick env cfg send ws = (r, ws')" by fastforce
    note c = tick_count(1,2) [OF t]
    show ?thesis
    proof (cases r)
      case (Ran x)
      have "k - st_count (ws_store ws') < n" "k - st_count (ws_store ws') < m'"
        using Suc.prems c(1) k m by linarith+
      from Suc.IH [OF this] show ?thesis using t Ran False c(2) k m by auto
    next
      case (Crashed p)
      then show ?thesis using t False c(2) k m by auto
    qed
  qed
qed simp

lemma cancelled_worker_stops_witness:
  "worker_loop 5 (sample_env\<lparr>we_cancelled := (\<lambda>c. 4 \<le> c)\<rparr>) sample_cfg (resend_send (\<lambda>e. Inr ''h'') sample_transport (new_resend ''k'' ''f''))
     (sample_ws (200 :: int, [])) =
   worker_loop 100 (sample_env\<lparr>we_cancelled := (\<lambda>c. 4 \<le> c)\<rparr>) sample_cfg (resend_send (\<lambda>e. Inr ''h'') sample_transport (new_resend ''k'' ''f''))
     (sample_ws (200 :: int, []))"
proof -
  have "we_cancelled (sample_env\<lparr>we_cancelled := (\<lambda>c. 4 \<le> c)\<rparr>) c" if "4 \<le> c" for c using that by simp
  moreover have "4 - x < (5 :: nat)" "4 - x < (100 :: nat)" for x by simp_all
  ultimately show ?thesis by (intro cancelled_worker_stops [THEN conjunct1])
qed

end
