(* ===== verification/Workers.thy ===== *)
theory Workers
  imports Delivery
begin

text \<open>
  All workers together, interleaved transaction by transaction with the rest of the program:
  a state is the database and the notifications in flight, each with the worker that claimed
  it. A worker settles what it has in flight, or drops it (its process died, the limiter was
  cancelled, or the settlement could not be written). No answer to a commit is lost here; theory
  \<open>Faults\<close> adds that. The theorems are about every reachable
  state; the last section shows that \<open>tick\<close> really takes such steps.
\<close>

section \<open>The step relation\<close>

record sys =
  sy_db :: db
  sy_flight :: "(nat \<times> claimed) list"

text \<open>What a worker may decide: retry only before, "dead" only at the last attempt.\<close>

fun verdict_allowed :: "int \<Rightarrow> claimed \<Rightarrow> verdict \<Rightarrow> bool" where
  "verdict_allowed max_attempts row (TryAgain err) \<longleftrightarrow> cl_attempts row < max_attempts"
| "verdict_allowed max_attempts row (GiveUp err) \<longleftrightarrow> cl_attempts row \<ge> max_attempts"
| "verdict_allowed max_attempts row v \<longleftrightarrow> True"

text \<open>The statements of the rest of the program.\<close>

inductive other_step :: "qctx \<Rightarrow> db \<Rightarrow> db \<Rightarrow> bool" for q d where
  upsert: "upsert_pending_subscriber q k p d = Inr (r, d') \<Longrightarrow> other_step q d d'"
| confirm: "confirm_subscriber_by_id q k d = Inr (n, d') \<Longrightarrow> other_step q d d'"
| unsubscribe: "unsubscribe_by_id q k d = Inr (n, d') \<Longrightarrow> other_step q d d'"
| enqueue: "enqueue_notification q k kind to_email payload d = Inr (i, d') \<Longrightarrow> other_step q d d'"
| promote: "add_admin q k d = Inr (u, d') \<Longrightarrow> other_step q d d'"
| demote: "remove_admin q k d = Inr (u, d') \<Longrightarrow> other_step q d d'"

inductive sys_step :: "pg_ops \<Rightarrow> int \<Rightarrow> sys \<Rightarrow> sys \<Rightarrow> bool" for pg max_attempts where
  claim: "claim_due_notifications q skip lim lease d = Inr (rows, d') \<Longrightarrow> q_pg q = pg \<Longrightarrow>
     sys_step pg max_attempts \<lparr>sy_db = d, sy_flight = F\<rparr> \<lparr>sy_db = d', sy_flight = map (Pair w) rows @ F\<rparr>"
| settle: "(w, row) \<in> set F \<Longrightarrow> verdict_allowed max_attempts row v \<Longrightarrow>
     verdict_txn next_at row hash v q k d = Inr (u, d') \<Longrightarrow> q_pg q = pg \<Longrightarrow>
     sys_step pg max_attempts \<lparr>sy_db = d, sy_flight = F\<rparr> \<lparr>sy_db = d', sy_flight = remove1 (w, row) F\<rparr>"
| drop: "(w, row) \<in> set F \<Longrightarrow>
     sys_step pg max_attempts \<lparr>sy_db = d, sy_flight = F\<rparr> \<lparr>sy_db = d, sy_flight = remove1 (w, row) F\<rparr>"
| other: "other_step q d d' \<Longrightarrow> q_pg q = pg \<Longrightarrow>
     sys_step pg max_attempts \<lparr>sy_db = d, sy_flight = F\<rparr> \<lparr>sy_db = d', sy_flight = F\<rparr>"

inductive_cases sys_stepE: "sys_step pg max_attempts s s'"

abbreviation sys_steps :: "pg_ops \<Rightarrow> int \<Rightarrow> sys \<Rightarrow> sys \<Rightarrow> bool" where
  "sys_steps pg max_attempts \<equiv> (sys_step pg max_attempts)\<^sup>*\<^sup>*"

definition sys_start :: "uuid list \<Rightarrow> sys" where
  "sys_start users = \<lparr>sy_db = empty_db users, sy_flight = []\<rparr>"

section \<open>The invariant\<close>

text \<open>The audit trail of a row: the statuses of the log entries that name it.\<close>

definition log_of :: "email_log list \<Rightarrow> uuid \<Rightarrow> log_status list" where
  "log_of ls i = map l_status (filter (\<lambda>l. l_notification_id l = Some i) ls)"

fun expected_log :: "notif_status \<Rightarrow> log_status list" where
  "expected_log NPending = []"
| "expected_log NSending = []"
| "expected_log NSent = [LSent]"
| "expected_log NFailed = [LFailed]"
| "expected_log NDead = [LDead]"

definition row_inv :: "int \<Rightarrow> email_log list \<Rightarrow> notification \<Rightarrow> bool" where
  "row_inv max_attempts ls r \<longleftrightarrow>
     n_attempts r \<le> max_attempts \<and> (n_status r = NPending \<longrightarrow> n_attempts r < max_attempts) \<and>
     (n_status r = NDead \<longrightarrow> n_attempts r = max_attempts) \<and>
     log_of ls (n_id r) = expected_log (n_status r)"

definition owned :: "notification list \<Rightarrow> claimed \<Rightarrow> bool" where
  "owned ns c \<longleftrightarrow> (\<exists>r. lookup_row n_id (cl_id c) ns = Some r \<and> n_status r = NSending \<and> c = claimed_of r)"

definition flight_ids :: "sys \<Rightarrow> uuid list" where
  "flight_ids s = map (\<lambda>f. cl_id (snd f)) (sy_flight s)"

definition sys_inv :: "pg_ops \<Rightarrow> int \<Rightarrow> sys \<Rightarrow> bool" where
  "sys_inv pg max_attempts s \<longleftrightarrow>
     db_ok pg (sy_db s) \<and> distinct (flight_ids s) \<and>
     (\<forall>f\<in>set (sy_flight s). owned (db_notifications (sy_db s)) (snd f)) \<and>
     (\<forall>r\<in>set (db_notifications (sy_db s)). row_inv max_attempts (db_email_log (sy_db s)) r)"

lemma sys_inv_start: "sys_inv pg max_attempts (sys_start users)"
  by (simp add: sys_inv_def sys_start_def db_ok_empty flight_ids_def) (simp add: empty_db_def)

lemma log_of_append: "log_of (ls @ ls') i = log_of ls i @ log_of ls' i"
  by (simp add: log_of_def)

lemma log_of_new_id:
  assumes "db_ok pg d" and "i \<notin> n_id ` set (db_notifications d)"
  shows "log_of (db_email_log d) i = []"
  using assms db_ok_dest(5) [OF assms(1)] by (force simp: log_of_def filter_empty_conv email_log_ok_def)

lemma log_of_verdict:
  "log_of (map (log_row q k) (verdict_log row hash v)) i =
     (if i = cl_id row then expected_log (verdict_status v) else [])"
  by (cases v) (auto simp: log_of_def log_row_def log_entry_def)

lemma lookup_in_flight:
  assumes "\<forall>f\<in>set F. owned ns (snd f)" and "(w, c) \<in> set F"
  obtains r where "lookup_row n_id (cl_id c) ns = Some r" "n_status r = NSending" "c = claimed_of r"
  using assms by (force simp: owned_def)

lemma remove1_distinct_keys:
  assumes "distinct (map key F)" and "x \<in> set F"
  shows "distinct (map key (remove1 x F))" and "f \<in> set (remove1 x F) \<Longrightarrow> f \<in> set F \<and> key f \<noteq> key x"
proof -
  note d = assms(1) [unfolded distinct_map]
  show "distinct (map key (remove1 x F))"
    using d by (auto simp: distinct_map intro: inj_on_subset)
  show "f \<in> set F \<and> key f \<noteq> key x" if "f \<in> set (remove1 x F)"
    using that d assms(2) by (auto dest: inj_onD)
qed

text \<open>Claiming.\<close>

lemma owned_claim_old:
  assumes "claim_due_notifications q skip lim lease d = Inr (rows, d')"
    and "distinct (map n_id (db_notifications d))" and "owned (db_notifications d) c"
  shows "owned (db_notifications d') c" and "cl_id c \<notin> cl_id ` set rows"
proof -
  obtain r where r: "lookup_row n_id (cl_id c) (db_notifications d) = Some r" "n_status r = NSending"
      "c = claimed_of r"
    using assms(3) by (auto simp: owned_def)
  let ?due = "due_rows (q_now q) skip lim d"
  have ids: "cl_id ` set rows = n_id ` set ?due" using claim_ids [OF assms(1)] by (metis list.set_map)
  have in_due: "n_id r \<notin> n_id ` set ?due"
  proof
    assume "n_id r \<in> n_id ` set ?due"
    then obtain x where x: "x \<in> set ?due" "n_id x = n_id r" by auto
    then have "x = r"
      using distinct_keys_eq [OF assms(2)] due_rows_basic(2) [OF x(1)] lookup_row_Some [OF r(1)] by metis
    then show False using due_rows_basic(2) [OF x(1)] r(2) by (simp add: claim_due_pred_def)
  qed
  have "n_id r = cl_id c" using lookup_row_Some [OF r(1)] by simp
  then show "cl_id c \<notin> cl_id ` set rows" using ids in_due by simp
  show "owned (db_notifications d') c"
    using r in_due \<open>n_id r = cl_id c\<close>
    by (auto simp: owned_def claim_effect(4) [OF assms(1)] leased.lookup_update)
qed

lemma owned_claim_new:
  assumes "claim_due_notifications q skip lim lease d = Inr (rows, d')"
    and "distinct (map n_id (db_notifications d))" and "c \<in> set rows"
  shows "owned (db_notifications d') c"
proof -
  obtain r where r: "r \<in> set (due_rows (q_now q) skip lim d)" "c = claimed_of (leased_row (q_now q) lease r)"
    using assms(3) claim_effect(3) [OF assms(1)] by auto
  have "lookup_row n_id (n_id r) (db_notifications d) = Some r"
    using lookup_row_unique [OF assms(2)] due_rows_basic(2) [OF r(1)] by blast
  then show ?thesis
    using r by (auto simp: owned_def claim_effect(4) [OF assms(1)] leased.lookup_update claimed_of_def row_simps)
qed

lemma row_inv_claim:
  assumes "claim_due_notifications q skip lim lease d = Inr (rows, d')"
    and "distinct (map n_id (db_notifications d))"
    and "\<forall>r\<in>set (db_notifications d). row_inv m (db_email_log d) r"
    and "r \<in> set (db_notifications d')"
  shows "row_inv m (db_email_log d') r"
proof -
  let ?due = "due_rows (q_now q) skip lim d"
  obtain r0 where r0: "r0 \<in> set (db_notifications d)"
    "r = (if n_id r0 \<in> n_id ` set ?due then leased_row (q_now q) lease r0 else r0)"
  proof -
    have "db_notifications d' =
        update_where (\<lambda>r. n_id r \<in> n_id ` set ?due) (leased_row (q_now q) lease) (db_notifications d)"
      by (simp add: claim_effect(4) [OF assms(1)])
    then have "\<exists>r0\<in>set (db_notifications d).
        r = (if n_id r0 \<in> n_id ` set ?due then leased_row (q_now q) lease r0 else r0)"
      using assms(4) by (intro in_update_where) simp
    then show thesis by (elim bexE) (rule that)
  qed
  have "n_status r0 = NPending" if "n_id r0 \<in> n_id ` set ?due"
  proof -
    from that obtain x where x: "n_id r0 = n_id x" "x \<in> set ?due" by (rule imageE)
    then have "r0 = x" using distinct_keys_eq [OF assms(2) r0(1) _ x(1)] due_rows_basic(2) [OF x(2)] by blast
    then show ?thesis using due_rows_basic(2) [OF x(2)] by (simp add: claim_due_pred_def)
  qed
  moreover have "row_inv m (db_email_log d) r0" "db_email_log d' = db_email_log d"
    using assms(3) r0(1) by (simp_all add: claim_effect(4) [OF assms(1)])
  ultimately show ?thesis
    unfolding r0(2) by (cases "n_id r0 \<in> n_id ` set ?due") (simp_all add: row_inv_def row_simps)
qed

text \<open>Settling.\<close>

lemma owned_settled:
  assumes "owned ns c" and "cl_id c \<noteq> i" and "\<And>r. n_id (f r) = n_id r"
  shows "owned (update_where (\<lambda>r. n_id r = i) f ns) c"
proof -
  have u: "row_update n_id f" by unfold_locales (rule assms(3))
  obtain r where r: "lookup_row n_id (cl_id c) ns = Some r" "n_status r = NSending" "c = claimed_of r"
    using assms(1) by (auto simp: owned_def)
  moreover have "n_id r \<noteq> i" using lookup_row_Some [OF r(1)] assms(2) by simp
  ultimately show ?thesis by (auto simp: owned_def row_update.lookup_update [OF u])
qed

lemma row_inv_settled:
  assumes "owned (db_notifications d) row" and "distinct (map n_id (db_notifications d))"
    and "verdict_allowed m row v"
    and "\<forall>r\<in>set (db_notifications d). row_inv m (db_email_log d) r"
    and "r \<in> set (db_notifications (verdict_db q k next_at row hash v d))"
  shows "row_inv m (db_email_log (verdict_db q k next_at row hash v d)) r"
proof -
  obtain r0 where r0: "r0 \<in> set (db_notifications d)"
    "r = (if n_id r0 = cl_id row then verdict_row (q_now q) next_at v r0 else r0)"
    using in_update_where assms(5) unfolding verdict_db_def settled_db_simps by fastforce
  have inv: "row_inv m (db_email_log d) r0" using assms(4) r0(1) by blast
  show ?thesis
  proof (cases "n_id r0 = cl_id row")
    case True
    then have "n_status r0 = NSending \<and> row = claimed_of r0"
      using assms(1) lookup_row_unique [OF assms(2) r0(1)] by (auto simp: owned_def)
    then have "n_status r0 = NSending" "cl_attempts row = n_attempts r0" by (simp_all add: claimed_of_def)
    with True inv r0(2) assms(3) show ?thesis
      by (cases v) (auto simp: row_inv_def row_simps verdict_db_def log_of_append log_of_verdict
          simp del: verdict_log.simps)
  next
    case False
    with inv r0(2) show ?thesis
      by (simp add: row_inv_def verdict_db_def log_of_append log_of_verdict)
  qed
qed

lemma db_ok_verdict:
  assumes "db_ok pg d" and "verdict_txn next_at row hash v q k d = Inr (u, d')"
  shows "db_ok pg d'"
  using assms
  by (cases v)
    (auto simp: sent_txn_def failed_txn_def dead_txn_def retry_txn_def query_iff dest: db_ok_marks db_ok_log)

text \<open>The rest of the program: it only ever adds pending rows.\<close>

lemma other_step_notifications:
  assumes "other_step q d d'"
  obtains (same) "db_notifications d' = db_notifications d" "db_email_log d' = db_email_log d"
    | (enqueued) k kind to_email payload where "k \<notin> n_id ` set (db_notifications d)"
      "db_email_log d' = db_email_log d"
      "db_notifications d' = db_notifications d @ [fresh_notification q k kind to_email payload]"
  using assms
proof cases
  case (upsert k p r)
  then show thesis by (cases rule: upsert_effect) (rule same; simp)+
next
  case (confirm k n)
  show thesis
    by (rule same) (simp_all add: exec_update_effect(1) [OF confirm [unfolded confirm_subscriber_by_id_def]])
next
  case (unsubscribe k n)
  show thesis
    by (rule same) (simp_all add: exec_update_effect(1) [OF unsubscribe [unfolded unsubscribe_by_id_def]])
next
  case (enqueue k kind to_email payload i)
  then show thesis by (intro enqueued) (simp_all add: query_iff)
next
  case (promote k u)
  then show thesis by (intro same) (auto simp: add_admin_def query_iff split: if_splits)
next
  case (demote k u)
  then show thesis by (intro same) (auto simp: remove_admin_def query_iff)
qed

lemma other_step_db_step: "other_step q d d' \<Longrightarrow> db_step q d d'"
  by (erule other_step.cases) (auto intro: db_step.intros)

lemma sys_inv_step:
  assumes "sys_step pg m s s'" and "sys_inv pg m s" and "0 < m"
  shows "sys_inv pg m s'"
  using assms(1)
proof cases
  case (claim q skip lim lease d rows d' F w)
  have inv: "db_ok pg d" "distinct (map (\<lambda>f. cl_id (snd f)) F)" "\<forall>f\<in>set F. owned (db_notifications d) (snd f)"
    "\<forall>r\<in>set (db_notifications d). row_inv m (db_email_log d) r"
    using assms(2) claim by (auto simp: sys_inv_def flight_ids_def)
  note keys = db_ok_dest(4) [OF inv(1)]
  have "distinct (map cl_id rows)"
    unfolding claim_ids [OF claim(3)] by (rule due_rows_facts(1) [OF keys])
  moreover have "cl_id (snd f) \<notin> cl_id ` set rows" if "f \<in> set F" for f
    using owned_claim_old(2) [OF claim(3) keys] inv(3) that by blast
  ultimately have "distinct (map (\<lambda>f. cl_id (snd f)) (map (Pair w) rows @ F))"
    using inv(2) by (auto simp: comp_def) (metis imageI snd_conv)
  moreover have "\<forall>f\<in>set (map (Pair w) rows @ F). owned (db_notifications d') (snd f)"
    using owned_claim_old(1) [OF claim(3) keys] owned_claim_new [OF claim(3) keys] inv(3) by auto
  moreover have "\<forall>r\<in>set (db_notifications d'). row_inv m (db_email_log d') r"
    using row_inv_claim [OF claim(3) keys inv(4)] by blast
  ultimately show ?thesis
    unfolding claim(2) sys_inv_def flight_ids_def sys.select_convs
    using db_ok_claim [OF inv(1) claim(3)] by blast
next
  case (settle w row F v next_at hash q k d u d')
  have inv: "db_ok pg d" "distinct (map (\<lambda>f. cl_id (snd f)) F)" "\<forall>f\<in>set F. owned (db_notifications d) (snd f)"
    "\<forall>r\<in>set (db_notifications d). row_inv m (db_email_log d) r"
    using assms(2) settle by (auto simp: sys_inv_def flight_ids_def)
  note keys = db_ok_dest(4) [OF inv(1)]
  have d': "d' = verdict_db q k next_at row hash v d" by (rule verdict_txn_effect(1) [OF settle(5)])
  note left = remove1_distinct_keys [OF inv(2) settle(3)]
  have own: "owned (db_notifications d) row" using inv(3) settle(3) by auto
  have "owned (db_notifications d') (snd f)" if "f \<in> set (remove1 (w, row) F)" for f
    using left(2) [OF that] inv(3) unfolding d' verdict_db_def settled_db_simps
    by (intro owned_settled) (auto simp: row_simps)
  moreover note left(1)
  ultimately show ?thesis
    using settle(2) db_ok_verdict [OF inv(1) settle(5)] row_inv_settled [OF own keys settle(4) inv(4)]
    by (auto simp: sys_inv_def flight_ids_def d')
next
  case (drop w row F d)
  have "distinct (map (\<lambda>f. cl_id (snd f)) F)"
    using assms(2) drop by (simp add: sys_inv_def flight_ids_def)
  from remove1_distinct_keys [OF this drop(3)] show ?thesis
    using assms(2) drop by (auto simp: sys_inv_def flight_ids_def)
next
  case (other q d d' F)
  have inv: "db_ok pg d" "distinct (map (\<lambda>f. cl_id (snd f)) F)" "\<forall>f\<in>set F. owned (db_notifications d) (snd f)"
    "\<forall>r\<in>set (db_notifications d). row_inv m (db_email_log d) r"
    using assms(2) other by (auto simp: sys_inv_def flight_ids_def)
  have ok: "db_ok pg d'" using db_ok_step [OF other_step_db_step [OF other(3)] inv(1) other(4)] .
  from other(3) show ?thesis
  proof (cases rule: other_step_notifications)
    case same
    then show ?thesis using other inv ok by (auto simp: sys_inv_def flight_ids_def)
  next
    case (enqueued k kind to_email payload)
    have "owned (db_notifications d') c" if "owned (db_notifications d) c" for c
      using that enqueued by (auto simp: owned_def lookup_row_append split: option.splits)
    moreover have "row_inv m (db_email_log d') (fresh_notification q k kind to_email payload)"
      using log_of_new_id [OF inv(1) enqueued(1)] enqueued(2) assms(3) by (simp add: row_inv_def)
    ultimately show ?thesis using other inv ok enqueued by (auto simp: sys_inv_def flight_ids_def)
  qed
qed

lemma sys_inv_steps:
  assumes "sys_steps pg m s s'" and "sys_inv pg m s" and "0 < m"
  shows "sys_inv pg m s'"
  using assms by induction (auto intro: sys_inv_step)

lemma in_flight_sending:
  assumes "sys_inv pg m s" and "r \<in> set (db_notifications (sy_db s))" and "n_id r \<in> set (flight_ids s)"
  shows "n_status r = NSending"
proof -
  have keys: "distinct (map n_id (db_notifications (sy_db s)))"
    using assms(1) by (simp add: sys_inv_def db_ok_def)
  from assms(3) obtain f where f: "f \<in> set (sy_flight s)" "cl_id (snd f) = n_id r"
    by (force simp: flight_ids_def)
  then have "owned (db_notifications (sy_db s)) (snd f)" using assms(1) by (simp add: sys_inv_def)
  then show ?thesis using lookup_row_unique [OF keys assms(2)] f(2) by (auto simp: owned_def)
qed

section \<open>What holds in every reachable state\<close>

text \<open>
  However many workers run, and whatever the rest of the program does in between: no
  notification is in flight twice, and one in flight is marked "sending"; a notification has
  exactly one log entry if it is sent, failed or dead, with that status, and none before;
  attempts never exceed the maximum, and a dead one has used them all.
\<close>

theorem queue_is_consistent:
  assumes "sys_steps pg m (sys_start users) s" and "0 < m" and "r \<in> set (db_notifications (sy_db s))"
  shows "distinct (flight_ids s) \<and>
    (n_id r \<in> set (flight_ids s) \<longrightarrow> n_status r = NSending) \<and>
    log_of (db_email_log (sy_db s)) (n_id r) = expected_log (n_status r) \<and>
    n_attempts r \<le> m \<and> (n_status r = NDead \<longrightarrow> n_attempts r = m)"
proof -
  have inv: "sys_inv pg m s" by (rule sys_inv_steps [OF assms(1) sys_inv_start assms(2)])
  note in_flight_sending [OF inv assms(3)]
  then show ?thesis using inv assms(3) by (auto simp: sys_inv_def row_inv_def)
qed

text \<open>A row that is neither pending nor in flight is out of everybody's reach.\<close>

definition out_of_reach :: "sys \<Rightarrow> notification \<Rightarrow> bool" where
  "out_of_reach s r \<longleftrightarrow>
     r \<in> set (db_notifications (sy_db s)) \<and> n_status r \<noteq> NPending \<and> n_id r \<notin> set (flight_ids s)"

lemma update_where_keeps: "r \<in> set rows \<Longrightarrow> \<not> p r \<Longrightarrow> r \<in> set (update_where p f rows)"
  by (auto simp: update_where_def image_iff intro: bexI [of _ r])

lemma out_of_reach_step:
  assumes "sys_step pg m s s'" and "db_ok pg (sy_db s)" and "out_of_reach s r"
  shows "out_of_reach s' r \<and>
    log_of (db_email_log (sy_db s')) (n_id r) = log_of (db_email_log (sy_db s)) (n_id r)"
  using assms(1)
proof cases
  case (claim q skip lim lease d rows d' F w)
  have keys: "distinct (map n_id (db_notifications d))"
    using assms(2) claim by (auto simp: db_ok_def)
  have r: "r \<in> set (db_notifications d)" "n_status r \<noteq> NPending" "n_id r \<notin> (\<lambda>f. cl_id (snd f)) ` set F"
    using assms(3) claim by (auto simp: out_of_reach_def flight_ids_def)
  have new: "n_id r \<notin> n_id ` set (due_rows (q_now q) skip lim d)"
  proof
    assume "n_id r \<in> n_id ` set (due_rows (q_now q) skip lim d)"
    then obtain x where x: "n_id r = n_id x" "x \<in> set (due_rows (q_now q) skip lim d)" by (rule imageE)
    then have "r = x" using distinct_keys_eq [OF keys r(1) _ x(1)] due_rows_basic(2) [OF x(2)] by blast
    then show False using due_rows_basic(2) [OF x(2)] r(2) by (simp add: claim_due_pred_def)
  qed
  moreover have "cl_id ` set rows = n_id ` set (due_rows (q_now q) skip lim d)"
    using claim_ids [OF claim(3)] by (metis list.set_map)
  ultimately have "n_id r \<notin> set (flight_ids s')"
    using claim(2) r(3) by (auto simp: flight_ids_def image_iff)
  moreover have "r \<in> set (db_notifications d')"
    unfolding claim_effect(4) [OF claim(3)] using update_where_keeps r(1) new by simp
  ultimately show ?thesis
    using claim r(2) by (simp add: out_of_reach_def claim_effect(4) [OF claim(3)])
next
  case (settle w row F v next_at hash q k d u d')
  have d': "d' = verdict_db q k next_at row hash v d" by (rule verdict_txn_effect(1) [OF settle(5)])
  have r: "r \<in> set (db_notifications d)" "n_status r \<noteq> NPending" "n_id r \<notin> (\<lambda>f. cl_id (snd f)) ` set F"
    using assms(3) settle by (auto simp: out_of_reach_def flight_ids_def)
  then have "n_id r \<noteq> cl_id row" using settle(3) by (metis image_eqI snd_conv)
  moreover have "n_id r \<notin> set (flight_ids s')"
    using settle(2) r(3) by (auto simp: flight_ids_def dest: set_remove1_subset [THEN subsetD])
  ultimately show ?thesis
    using settle(1,2) r update_where_keeps
    by (simp add: out_of_reach_def d' verdict_db_def log_of_append log_of_verdict)
next
  case (drop w row F d)
  then show ?thesis
    using assms(3) by (auto simp: out_of_reach_def flight_ids_def dest: set_remove1_subset [THEN subsetD])
next
  case (other q d d' F)
  from other(3) show ?thesis
    by (cases rule: other_step_notifications)
      (use other assms(3) in \<open>auto simp: out_of_reach_def flight_ids_def\<close>)
qed

lemma out_of_reach_steps:
  assumes "sys_steps pg m s s'" and "sys_inv pg m s" and "0 < m" and "out_of_reach s r"
  shows "out_of_reach s' r \<and>
    log_of (db_email_log (sy_db s')) (n_id r) = log_of (db_email_log (sy_db s)) (n_id r)"
  using assms(1)
proof induction
  case base
  show ?case using assms(4) by simp
next
  case (step s1 s2)
  have "db_ok pg (sy_db s1)" using sys_inv_steps [OF step.hyps(1) assms(2,3)] by (simp add: sys_inv_def)
  from out_of_reach_step [OF step.hyps(2) this] step.IH show ?case by simp
qed

text \<open>
  A notification that is sent, failed or dead is settled for good: whatever happens later,
  the row never changes again, nobody works on it and its log does not grow.
\<close>

theorem settled_stays_settled:
  assumes "sys_steps pg m (sys_start users) s" and "sys_steps pg m s s'" and "0 < m"
    and "r \<in> set (db_notifications (sy_db s))" and "terminal_status (n_status r)"
  shows "r \<in> set (db_notifications (sy_db s')) \<and> n_id r \<notin> set (flight_ids s') \<and>
    log_of (db_email_log (sy_db s')) (n_id r) = expected_log (n_status r)"
proof -
  have inv: "sys_inv pg m s" by (rule sys_inv_steps [OF assms(1) sys_inv_start assms(3)])
  have "n_id r \<notin> set (flight_ids s)"
    using in_flight_sending [OF inv assms(4)] assms(5) by (auto simp: terminal_status_def)
  then have "out_of_reach s r" using assms(4,5) by (auto simp: out_of_reach_def terminal_status_def)
  from out_of_reach_steps [OF assms(2) inv assms(3) this] inv assms(4) show ?thesis
    by (auto simp: out_of_reach_def sys_inv_def row_inv_def)
qed

section \<open>The worker takes these steps\<close>

definition settles_or_keeps :: "worker_env \<Rightarrow> worker_config \<Rightarrow> claimed \<Rightarrow> db \<Rightarrow> db \<Rightarrow> bool" where
  "settles_or_keeps env cfg row d d' \<longleftrightarrow> d' = d \<or>
     (\<exists>next_at hash v q k. verdict_allowed (wc_max_attempts cfg) row v \<and> q_pg q = io_pg (we_io env) \<and>
        verdict_txn next_at row hash v q k d = Inr ((), d'))"

lemma keeps [simp]: "settles_or_keeps env cfg row d d"
  by (simp add: settles_or_keeps_def)

lemma settle_settles:
  assumes "no_lost_commit (we_io env)" and "verdict_allowed (wc_max_attempts cfg) row v"
  shows "settles_or_keeps env cfg row (st_db st) (st_db (snd (settle env (verdict_txn next_at row hash v) st)))"
proof -
  obtain res st' where "settle env (verdict_txn next_at row hash v) st = (res, st')" by fastforce
  with settle_once [OF assms(1) this] assms(2) show ?thesis by (auto simp: settles_or_keeps_def)
qed

text \<open>The four ways \<open>worker.go\<close> settles, as verdicts.\<close>

lemma marks_settle:
  assumes "no_lost_commit (we_io env)"
  shows "settles_or_keeps env cfg row (st_db (ws_store ws))
           (st_db (ws_store (snd (after_settling ws (mark_sent env row pid (ws_store ws))))))"
    and "settles_or_keeps env cfg row (st_db (ws_store ws))
           (st_db (ws_store (snd (after_settling ws (mark_failed env row err (ws_store ws))))))"
    and "cl_attempts row \<ge> wc_max_attempts cfg \<Longrightarrow> settles_or_keeps env cfg row (st_db (ws_store ws))
           (st_db (ws_store (snd (after_settling ws (mark_dead env row err (ws_store ws))))))"
    and "cl_attempts row < wc_max_attempts cfg \<Longrightarrow> settles_or_keeps env cfg row (st_db (ws_store ws))
           (st_db (ws_store (snd (after_settling ws (Inr (schedule_retry env row err delay (ws_store ws)))))))"
proof -
  note s = settle_settles [OF assms, of cfg row]
  show "settles_or_keeps env cfg row (st_db (ws_store ws))
      (st_db (ws_store (snd (after_settling ws (mark_sent env row pid (ws_store ws))))))"
    using s [of "Delivered pid" "ws_store ws"]
    by (auto simp: after_settling_def mark_sent_def split: sum.splits prod.splits) (metis snd_conv)
  show "settles_or_keeps env cfg row (st_db (ws_store ws))
      (st_db (ws_store (snd (after_settling ws (mark_failed env row err (ws_store ws))))))"
    using s [of "Reject (truncate_bytes err 1000)" "ws_store ws"]
    by (auto simp: after_settling_def mark_failed_def split: sum.splits prod.splits) (metis snd_conv)
  show "settles_or_keeps env cfg row (st_db (ws_store ws))
      (st_db (ws_store (snd (after_settling ws (mark_dead env row err (ws_store ws))))))"
    if "cl_attempts row \<ge> wc_max_attempts cfg"
    using that s [of "GiveUp (truncate_bytes err 1000)" "ws_store ws"]
    by (auto simp: after_settling_def mark_dead_def split: sum.splits prod.splits) (metis snd_conv)
  show "settles_or_keeps env cfg row (st_db (ws_store ws))
      (st_db (ws_store (snd (after_settling ws (Inr (schedule_retry env row err delay (ws_store ws)))))))"
    if "cl_attempts row < wc_max_attempts cfg"
    using that s [of "TryAgain (truncate_bytes err 1000)" "ws_store ws"]
    by (auto simp: after_settling_def schedule_retry_def split: prod.splits) (metis snd_conv)
qed

lemma after_send_settles_or_keeps:
  assumes "no_lost_commit (we_io env)"
  shows "settles_or_keeps env cfg row (st_db (ws_store ws)) (st_db (ws_store (snd (after_send env cfg row res ws))))"
  using marks_settle [OF assms, where ws = ws and cfg = cfg and row = row]
  by (auto simp: after_send_def split: sum.splits)

lemma dispatch_settles_or_keeps:
  assumes "no_lost_commit (we_io env)"
  shows "settles_or_keeps env cfg row (st_db (ws_store ws))
           (st_db (ws_store (snd (dispatch env cfg send row ws))))"
proof -
  have sent: "settles_or_keeps env cfg row (st_db (ws_store ws))
      (st_db (ws_store (snd (after_send env cfg row res (ws\<lparr>ws_sender := x\<rparr>)))))" for res x
    using after_send_settles_or_keeps [OF assms, of cfg row "ws\<lparr>ws_sender := x\<rparr>" res] by simp
  show ?thesis
    using marks_settle(2) [OF assms, of cfg row ws] sent
    by (auto simp: dispatch_def split: sum.splits prod.splits)
qed

lemma drop_all: "sys_steps pg m \<lparr>sy_db = d, sy_flight = map (Pair w) rows @ F\<rparr> \<lparr>sy_db = d, sy_flight = F\<rparr>"
proof (induction rows)
  case (Cons row rows)
  have "sys_step pg m \<lparr>sy_db = d, sy_flight = map (Pair w) (row # rows) @ F\<rparr>
      \<lparr>sy_db = d, sy_flight = map (Pair w) rows @ F\<rparr>"
    using sys_step.drop [of w row "map (Pair w) (row # rows) @ F" pg m d] by simp
  then show ?case using Cons by (rule converse_rtranclp_into_rtranclp)
qed simp

lemma settles_or_keeps_step:
  assumes "settles_or_keeps env cfg row d d'" and "io_pg (we_io env) = pg"
  shows "sys_step pg (wc_max_attempts cfg) \<lparr>sy_db = d, sy_flight = (w, row) # F\<rparr> \<lparr>sy_db = d', sy_flight = F\<rparr>"
  using assms(1) unfolding settles_or_keeps_def
proof (elim disjE exE conjE)
  show ?thesis if "d' = d"
    using sys_step.drop [of w row "(w, row) # F"] that by simp
  show ?thesis if "verdict_allowed (wc_max_attempts cfg) row v" "q_pg q = io_pg (we_io env)"
    "verdict_txn next_at row hash v q k d = Inr ((), d')" for next_at hash v q k
    using sys_step.settle [of w row "(w, row) # F", OF _ that(1,3)] that(2) assms(2) by simp
qed

lemma dispatch_all_steps:
  assumes "no_lost_commit (we_io env)" and "io_pg (we_io env) = pg"
  shows "sys_steps pg (wc_max_attempts cfg) \<lparr>sy_db = st_db (ws_store ws), sy_flight = map (Pair w) rows @ F\<rparr>
    \<lparr>sy_db = st_db (ws_store (snd (dispatch_all env cfg send rows ws))), sy_flight = F\<rparr>"
proof (induction rows arbitrary: ws)
  case (Cons row rows)
  show ?case
  proof (cases "we_limiter env (st_count (ws_store ws))")
    case (Some e)
    then show ?thesis using drop_all [of pg _ _ w "row # rows" F] by simp
  next
    case None
    obtain r ws' where d: "dispatch env cfg send row ws = (r, ws')" by fastforce
    have step: "sys_step pg (wc_max_attempts cfg)
        \<lparr>sy_db = st_db (ws_store ws), sy_flight = map (Pair w) (row # rows) @ F\<rparr>
        \<lparr>sy_db = st_db (ws_store ws'), sy_flight = map (Pair w) rows @ F\<rparr>"
      using settles_or_keeps_step [OF dispatch_settles_or_keeps [OF assms(1), of cfg row ws send] assms(2)]
      unfolding d by simp
    show ?thesis
    proof (cases r)
      case (Ran u)
      then show ?thesis
        using converse_rtranclp_into_rtranclp [OF step Cons.IH [of ws']] None d by simp
    next
      case (Crashed p)
      then show ?thesis
        using converse_rtranclp_into_rtranclp [OF step drop_all] None d by simp
    qed
  qed
qed simp

lemma over_cap_keeps_db:
  assumes "over_cap env cfg st = (c, st')"
  shows "st_db st' = st_db st"
proof -
  have "st_db (snd (with_tx (we_io env) (\<lambda>q k. count_sends_last_day q) st)) = st_db st"
    by (rule service.run_invariant [where I = "\<lambda>d. d = st_db st"]) (auto dest: reads_keep_db(7))
  with assms show ?thesis by (auto simp: over_cap_def split: if_splits sum.splits prod.splits)
qed

lemma tick_steps:
  assumes "no_lost_commit (we_io env)"
  shows "sys_steps (io_pg (we_io env)) (wc_max_attempts cfg)
    \<lparr>sy_db = st_db (ws_store ws), sy_flight = F\<rparr>
    \<lparr>sy_db = st_db (ws_store (snd (tick env cfg send ws))), sy_flight = F\<rparr>"
proof -
  obtain c st where cap: "over_cap env cfg (ws_store ws) = (c, st)" by fastforce
  have db: "st_db st = st_db (ws_store ws)" by (rule over_cap_keeps_db [OF cap])
  obtain r st' where claim: "with_tx (we_io env) (claim_txn env cfg (st_count st)) st = (r, st')" by fastforce
  show ?thesis
  proof (cases "c = Inr False")
    case False
    then show ?thesis using cap db by (auto simp: tick_def split: sum.splits bool.splits)
  next
    case True
    show ?thesis
    proof (cases r)
      case (Inl e)
      then have "st_db st' = st_db (ws_store ws)"
        using with_tx_error_keeps_db [OF assms claim [unfolded Inl]] db by simp
      then show ?thesis using cap True claim Inl by (simp add: tick_def)
    next
      case (Inr rows)
      obtain q where q: "q_pg q = io_pg (we_io env)"
        "claim_due_notifications q (we_locked env (st_count st)) claim_limit (lease_seconds cfg) (st_db st) =
           Inr (rows, st_db st')"
        using with_tx_ok [OF claim [unfolded Inr]] by (auto simp: claim_txn_def)
      note step = sys_step.claim [OF q(2,1), where F = F and w = 0]
      have "st_db (ws_store (snd (tick env cfg send ws))) =
          st_db (ws_store (snd (dispatch_all env cfg send rows (ws\<lparr>ws_store := st'\<rparr>))))"
        using cap True claim Inr by (auto simp: tick_def split: prod.splits run.splits option.splits)
      then show ?thesis
        using converse_rtranclp_into_rtranclp [OF step
            dispatch_all_steps [OF assms refl, of cfg "ws\<lparr>ws_store := st'\<rparr>", simplified]] db
        by simp
    qed
  qed
qed

text \<open>
  One tick of one worker, with other workers' notifications in flight and with any answers
  of the provider, the limiter and (but for lost commits) the database, is a sequence of the
  steps above from its first to its last transaction, also when it crashes.
\<close>

theorem tick_takes_system_steps:
  assumes "no_lost_commit (we_io env)"
  shows "sys_steps (io_pg (we_io env)) (wc_max_attempts cfg)
    \<lparr>sy_db = st_db (ws_store ws), sy_flight = F\<rparr>
    \<lparr>sy_db = st_db (ws_store (snd (tick env cfg send ws))), sy_flight = F\<rparr>"
  using assms by (rule tick_steps)

section \<open>A sample run\<close>

definition run_queued :: sys where
  "run_queued = \<lparr>sy_db = (empty_db [7])\<lparr>db_notifications := [sample_queued]\<rparr>, sy_flight = []\<rparr>"

definition run_claimed :: sys where
  "run_claimed = \<lparr>sy_db = (empty_db [7])\<lparr>db_notifications := [sample_sending]\<rparr>,
     sy_flight = [(0, claimed_of sample_sending)]\<rparr>"

definition run_dropped :: sys where
  "run_dropped = \<lparr>sy_db = (empty_db [7])\<lparr>db_notifications := [sample_sending]\<rparr>, sy_flight = []\<rparr>"

definition run_sent :: sys where
  "run_sent = \<lparr>sy_db = verdict_db (sample_q IdService 600) 9 0 (claimed_of sample_sending) [1] (Delivered ''p'')
     ((empty_db [7])\<lparr>db_notifications := [sample_sending]\<rparr>), sy_flight = []\<rparr>"

lemma run_transactions:
  "other_step (sample_q IdService 0) (empty_db [7]) (sy_db run_queued)"
  "claim_due_notifications (sample_q IdService 500) {} claim_limit 60 (sy_db run_queued) =
     Inr ([claimed_of sample_sending], sy_db run_claimed)"
  "verdict_txn 0 (claimed_of sample_sending) [1] (Delivered ''p'') (sample_q IdService 600) 9 (sy_db run_claimed) =
     Inr ((), sy_db run_sent)"
  "q_pg (sample_q i now) = sample_pg"
proof -
  have texts: "list_all pg_text [kind_confirm_email, ''ann@example.org'']" by code_simp
  have "enqueue_notification (sample_q IdService 0) 1 kind_confirm_email ''ann@example.org''
      (encode_confirm_payload sample_payload) (empty_db [7]) = Inr (1, sy_db run_queued)"
    unfolding enqueue_iff using texts by (simp add: empty_db_def sample_queued_def run_queued_def) (simp add: sample_q_def)
  then show "other_step (sample_q IdService 0) (empty_db [7]) (sy_db run_queued)" by (rule other_step.enqueue)
  show "claim_due_notifications (sample_q IdService 500) {} claim_limit 60 (sy_db run_queued) =
      Inr ([claimed_of sample_sending], sy_db run_claimed)"
    by (simp add: claim_due_notifications_def service_only_def sample_q_def due_rows_def claim_due_pred_def claim_limit_def
        sample_queued_def fresh_notification_def sample_sending_def run_queued_def run_claimed_def)
  have "pg_text (verdict_text (Delivered ''p''))" by code_simp
  then show "verdict_txn 0 (claimed_of sample_sending) [1] (Delivered ''p'') (sample_q IdService 600) 9 (sy_db run_claimed) =
      Inr ((), sy_db run_sent)"
    unfolding run_sent_def run_claimed_def sys.select_convs
    by (intro verdict_txn_succeeds) (simp_all add: sample_row_facts, simp_all add: sample_q_def empty_db_def)
qed (simp add: sample_q_def)

lemma run_steps:
  "sys_steps sample_pg 6 (sys_start [7]) run_queued"
  "sys_step sample_pg 6 run_queued run_claimed"
  "sys_step sample_pg 6 run_claimed run_dropped"
  "sys_step sample_pg 6 run_claimed run_sent"
  using sys_step.other [OF run_transactions(1,4), of 6 "[]"]
    sys_step.claim [OF run_transactions(2,4), of 6 "[]" 0]
    sys_step.drop [of 0 "claimed_of sample_sending" "[(0, claimed_of sample_sending)]" sample_pg 6 "sy_db run_claimed"]
    sys_step.settle [OF _ _ run_transactions(3,4), of 0 "[(0, claimed_of sample_sending)]" 6]
  by (auto simp: sys_start_def run_queued_def run_claimed_def run_dropped_def run_sent_def)

lemma run_to:
  "sys_steps sample_pg 6 (sys_start [7]) run_claimed" "sys_steps sample_pg 6 (sys_start [7]) run_sent"
  "sys_steps sample_pg 6 (sys_start [7]) run_dropped"
  using run_steps by (meson rtranclp.rtrancl_into_rtrancl)+

lemma queue_is_consistent_witness:
  "log_of (db_email_log (sy_db run_sent)) 1 = [LSent]"
proof -
  have "sent_row 600 sample_sending \<in> set (db_notifications (sy_db run_sent))"
    by (simp add: run_sent_def verdict_db_def sample_row_facts) (simp add: sample_q_def)
  from queue_is_consistent [OF run_to(2) _ this] show ?thesis by (simp add: row_simps sample_row_facts)
qed

lemma settled_stays_settled_witness:
  "log_of (db_email_log (sy_db run_sent)) 1 = expected_log NSent"
proof -
  have "sent_row 600 sample_sending \<in> set (db_notifications (sy_db run_sent))"
    by (simp add: run_sent_def verdict_db_def sample_row_facts) (simp add: sample_q_def)
  from settled_stays_settled [OF run_to(2) rtranclp.rtrancl_refl _ this]
  show ?thesis by (simp add: row_simps sample_row_facts terminal_status_def)
qed

lemma tick_takes_system_steps_witness:
  "sys_steps sample_pg 6 \<lparr>sy_db = (sample_db [])\<lparr>db_notifications := [sample_sending]\<rparr>, sy_flight = []\<rparr>
    \<lparr>sy_db = st_db (ws_store (snd (tick sample_env sample_cfg
        (resend_send (\<lambda>e. Inr ''h'') sample_transport (new_resend ''k'' ''f'')) (sample_ws (200 :: int, []))))),
     sy_flight = []\<rparr>"
proof -
  have cfg: "wc_max_attempts sample_cfg = 6" "io_pg (we_io sample_env) = sample_pg"
    by (simp_all add: sample_cfg_def new_worker_def sample_env_simps) (simp add: sample_io_def)
  have "no_lost_commit (we_io sample_env)" by (simp add: no_lost_commit_def sample_env_simps)
  have "st_db (ws_store (sample_ws s)) = (sample_db [])\<lparr>db_notifications := [sample_sending]\<rparr>" for s :: 's
    by (simp add: sample_ws_def)
  note start = this
  from tick_takes_system_steps [OF \<open>no_lost_commit (we_io sample_env)\<close>, of sample_cfg "sample_ws (200 :: int, [])" "[]"
      "resend_send (\<lambda>e. Inr ''h'') sample_transport (new_resend ''k'' ''f'')"]
  show ?thesis by (simp add: cfg start)
qed

end
