(* ===== verification/Subscriptions.thy ===== *)
theory Subscriptions
  imports Subscribers Workers
begin

text \<open>
  What \<open>HandleSubscribe\<close> of \<open>internal/subscribers/service.go\<close> guarantees: which answers a
  subscriber can get and what they reveal, what it stores, and that every request moves the
  database only through the statements of \<open>Lifecycle\<close>.
\<close>

section \<open>Small functions\<close>

lemma sanitize_source_chars: "list_all source_char (sanitize_source s)"
  by (auto simp: sanitize_source_def Let_def list_all_iff dest!: in_set_takeD)

lemma source_alphabet:
  "list_all (\<lambda>c. visible c \<and> is_ascii c)
     ''abcdefghijklmnopqrstuvwxyzABCDEFGHIJKLMNOPQRSTUVWXYZ0123456789_-''"
  by code_simp

lemma source_char_visible: "source_char c \<Longrightarrow> visible c \<and> is_ascii c"
  using source_alphabet unfolding source_char_def list_all_iff by (rule bspec)

lemma trim_source:
  assumes "list_all source_char s"
  shows "trim_space s = s"
proof (cases "s = []")
  case True
  then show ?thesis by (simp add: trim_space_def trim_runes_fixed)
next
  case False
  then have "source_char (hd s)" "source_char (last s)" using assms by (simp_all add: list_all_iff)
  with False source_char_visible show ?thesis by (intro trim_space_visible) blast+
qed

lemma sanitized_text: "pg_text (sanitize_source s)"
proof -
  have "list_all is_ascii (sanitize_source s)"
    using sanitize_source_chars source_char_visible by (auto simp: list_all_iff)
  moreover have "\<not> source_char (CHR 0x00)" by (simp add: source_char_def)
  ultimately show ?thesis
    using sanitize_source_chars [of s] by (auto simp: pg_text_def list_all_iff intro: utf8_valid_ascii)
qed

text \<open>
  C40: \<open>sanitizeSource\<close> leaves at most 32 letters, digits, underscores and hyphens, a text the
  database always accepts, and does nothing to a value it has already cleaned.
\<close>

theorem sanitize_source_is_clean:
  "length (sanitize_source s) \<le> 32 \<and> list_all source_char (sanitize_source s) \<and>
   pg_text (sanitize_source s) \<and> sanitize_source (sanitize_source s) = sanitize_source s"
proof (intro conjI)
  show len: "length (sanitize_source s) \<le> 32" by (simp add: sanitize_source_def Let_def)
  show src: "list_all source_char (sanitize_source s)" by (rule sanitize_source_chars)
  show "pg_text (sanitize_source s)" by (rule sanitized_text)
  have "filter source_char (sanitize_source s) = sanitize_source s"
    using src by (simp add: filter_id_conv list_all_iff)
  then show "sanitize_source (sanitize_source s) = sanitize_source s"
    using len trim_source [OF src] by (subst sanitize_source_def) (simp add: Let_def)
qed

lemma delay_pads: "min_total \<le> now - start + constant_time_delay start min_total now"
  "0 \<le> constant_time_delay start min_total now"
  by (simp_all add: constant_time_delay_def Let_def)

lemma html_escape_clean:
  "set (html_escape s) \<inter> {CHR ''<'', CHR ''>'', CHR 0x22, CHR 0x27} = {}"
proof -
  have "set (escape_char c) \<inter> {CHR ''<'', CHR ''>'', CHR 0x22, CHR 0x27} = {}" for c
    by (simp add: escape_char_def)
  then show ?thesis by (auto simp: html_escape_def)
qed

lemma html_escape_id: "list_all (\<lambda>c. escape_char c = [c]) s \<Longrightarrow> html_escape s = s"
  by (induction s) (simp_all add: html_escape_def)

lemma those_Some: "those xs = Some ys \<Longrightarrow> x \<in> set xs \<Longrightarrow> x \<noteq> None"
  by (induction xs arbitrary: ys) (auto split: option.splits)

lemma takeWhile_neq_all: "c \<notin> set xs \<Longrightarrow> takeWhile (\<lambda>x. x \<noteq> c) xs = xs"
  by (induction xs) auto

lemma dec_char_Some: "dec_char c \<noteq> None \<Longrightarrow> c \<in> set url_alphabet"
  by (rule ccontr) (auto simp: dec_char_def Let_def takeWhile_neq_all split: if_splits)

lemma b64_decode_chars:
  assumes "b64_decode tok = Some bs" and "c \<in> set tok"
  shows "c \<in> set url_alphabet \<or> is_newline c"
  using assms
  by (auto simp: b64_decode_def split: option.splits dest!: those_Some intro!: dec_char_Some)

lemma token_chars_plain: "list_all (\<lambda>c. escape_char c = [c]) (CHR 0x0A # CHR 0x0D # url_alphabet)"
  by code_simp

text \<open>A token that verifies stands in a page as it is.\<close>

lemma verified_token_plain:
  assumes "check_token env tok p = Inr raw"
  shows "html_escape tok = tok"
proof -
  obtain bs where "b64_decode tok = Some bs"
    using assms by (auto simp: check_token_def verify_def split: option.splits)
  have "escape_char c = [c]" if "c \<in> set tok" for c
  proof -
    have "c \<in> set (CHR 0x0A # CHR 0x0D # url_alphabet)"
      using b64_decode_chars [OF \<open>b64_decode tok = Some bs\<close> that] unfolding is_newline_def set_simps by blast
    then show ?thesis using token_chars_plain unfolding list_all_iff by (rule bspec [rotated])
  qed
  then show ?thesis by (intro html_escape_id) (simp add: list_all_iff)
qed

section \<open>Requests move the database by statements only\<close>

definition db_runs :: "pg_ops \<Rightarrow> db \<Rightarrow> db \<Rightarrow> bool" where
  "db_runs pg = (\<lambda>d d'. \<exists>q. q_pg q = pg \<and> other_step q d d')\<^sup>*\<^sup>*"

named_theorems run_intros \<open>a part of a request moves the database by statements only\<close>

lemma db_runs_refl [simp, intro]: "db_runs pg d d"
  by (simp add: db_runs_def)

lemma db_runs_trans: "db_runs pg d d' \<Longrightarrow> db_runs pg d' d'' \<Longrightarrow> db_runs pg d d''"
  unfolding db_runs_def by (rule rtranclp_trans)

lemma db_runs_step: "other_step q d d' \<Longrightarrow> db_runs (q_pg q) d d'"
  unfolding db_runs_def by blast

text \<open>Requests can do what the workers' step relation grants the rest of the program.\<close>

lemma db_runs_sys_steps: "db_runs pg d d' \<Longrightarrow> sys_steps pg m \<lparr>sy_db = d, sy_flight = F\<rparr> \<lparr>sy_db = d', sy_flight = F\<rparr>"
  unfolding db_runs_def
proof (induction rule: rtranclp_induct)
  case (step d1 d2)
  then have "sys_step pg m \<lparr>sy_db = d1, sy_flight = F\<rparr> \<lparr>sy_db = d2, sy_flight = F\<rparr>"
    by (auto intro: sys_step.other)
  with step.IH show ?case by (rule rtranclp.rtrancl_into_rtrancl)
qed simp

text \<open>So whatever holds of steps holds of requests: the table invariant and the life cycle.\<close>

lemma db_runs_steps: "db_runs pg d d' \<Longrightarrow> db_steps d d'"
  unfolding db_runs_def by (induction rule: rtranclp_induct) (auto intro: db_steps.intros other_step_db_step)

lemma db_runs_ok: "db_runs pg d d' \<Longrightarrow> db_ok pg d \<Longrightarrow> db_ok pg d'"
  unfolding db_runs_def by (induction rule: rtranclp_induct) (auto intro: db_ok_step other_step_db_step)

lemma with_tx_runs:
  assumes "\<And>q k d x d'. fn q k d = Inr (x, d') \<Longrightarrow> db_runs (q_pg q) d d'"
    and "with_tx io fn st = (res, st')"
  shows "db_runs (io_pg io) (st_db st) (st_db st')"
  using service.run_relation [of "db_runs (io_pg io)" st io fn] assms by fastforce

lemma with_user_runs:
  assumes "\<And>q k d x d'. fn q k d = Inr (x, d') \<Longrightarrow> db_runs (q_pg q) d d'"
    and "with_user uq io jc fn st = (res, st')"
  shows "db_runs (io_pg io) (st_db st) (st_db st')"
  using user.run_relation [where R = "db_runs (io_pg io)" and st = st and io = io and uq = uq and jc = jc and fn = fn]
    assms by fastforce

lemma txn_runs [run_intros]:
  "subscribe_txn p q k d = Inr (x1, d') \<Longrightarrow> db_runs (q_pg q) d d'"
  "confirm_txn h q k d = Inr (x2, d') \<Longrightarrow> db_runs (q_pg q) d d'"
  "unsubscribe_by_id q i d = Inr (x3, d') \<Longrightarrow> db_runs (q_pg q) d d'"
  "my_subscription_txn e q k d = Inr (x4, d') \<Longrightarrow> db_runs (q_pg q) d d'"
  "resend_txn i h t q k d = Inr (x5, d') \<Longrightarrow> db_runs (q_pg q) d d'"
  "enqueue_notification q k kind to_email payload d = Inr (x6, d') \<Longrightarrow> db_runs (q_pg q) d d'"
  "has_recent_notification_for_email q e kind window d = Inr (x7, d') \<Longrightarrow> db_runs (q_pg q) d d'"
proof -
  show "db_runs (q_pg q) d d'" if "subscribe_txn p q k d = Inr (x1, d')"
    using that by (auto simp: subscribe_txn_def query_iff intro: db_runs_step other_step.upsert)
  show "db_runs (q_pg q) d d'" if "confirm_txn h q k d = Inr (x2, d')"
    using that by (auto simp: confirm_txn_def query_iff dest!: reads_keep_db(3) intro: db_runs_step other_step.confirm)
  show "db_runs (q_pg q) d d'" if "my_subscription_txn e q k d = Inr (x4, d')"
    using that by (auto simp: my_subscription_txn_def query_iff dest!: reads_keep_db(1))
  show "db_runs (q_pg q) d d'" if "resend_txn i h t q k d = Inr (x5, d')"
    using that by (auto simp: resend_txn_def query_iff dest!: reads_keep_db(2) split: if_splits
        intro: db_runs_step other_step.upsert)
  show "db_runs (q_pg q) d d'" if "has_recent_notification_for_email q e kind window d = Inr (x7, d')"
    using reads_keep_db(6) [OF that] by simp
qed (auto intro: db_runs_step other_step.intros)

lemma enqueue_runs [run_intros]:
  "enqueue io kind to_email payload st = (res, st') \<Longrightarrow> db_runs (io_pg io) (st_db st) (st_db st')"
  unfolding enqueue_def by (erule with_tx_runs [rotated]) (rule txn_runs)

lemma throttle_runs [run_intros]:
  "throttle_check env d email st = (res, st') \<Longrightarrow> db_runs (io_pg (sv_io env)) (st_db st) (st_db st')"
  by (auto simp: throttle_check_def recently_notified_def split: if_splits
      elim!: with_tx_runs [rotated] intro: txn_runs)

text \<open>The database a handler's outcome leaves.\<close>

definition db_after :: "(store \<times> rw) outcome \<Rightarrow> db" where
  "db_after out = st_db (fst (outcome_value out))"

lemma db_after_simps [simp]:
  "db_after (Done (s, w)) = st_db s" "db_after (Panicked (s, w)) = st_db s"
  "db_after (failed r m (s, w)) = st_db s"
  "db_after (log_hashed env (s, w) (failed r m (s, w))) = st_db s"
  "db_after (log_hashed env (s, w) (Done (s, w'))) = st_db s"
  by (simp_all add: db_after_def failed_def log_hashed_def)

lemma subscribe_enqueue_runs:
  "db_runs (io_pg (sv_io env)) (st_db s) (db_after (subscribe_enqueue env d r email tok i (s, w)))"
  by (auto simp: subscribe_enqueue_def Let_def split: sum.splits prod.splits dest: enqueue_runs)

lemma subscribe_upsert_runs:
  "db_runs (io_pg (sv_io env)) (st_db s) (db_after (subscribe_upsert env d r email source (s, w)))"
proof -
  have run: "db_runs (io_pg (sv_io env)) (st_db s) (st_db s')"
    if "with_user (sv_quote env) (sv_io env) jc (subscribe_txn p) s = (res, s')" for jc p res s'
    by (rule with_user_runs [OF _ that]) (rule txn_runs)
  show ?thesis
    by (auto simp: subscribe_upsert_def Let_def split: sum.splits prod.splits option.splits
        dest: run db_runs_trans [OF run subscribe_enqueue_runs])
qed

lemma subscribe_body_runs:
  "db_runs (io_pg (sv_io env)) (st_db s) (db_after (subscribe_body env d r (s, w)))"
  by (auto simp: subscribe_body_def split: sum.splits prod.splits option.splits bool.splits
      dest: throttle_runs db_runs_trans [OF throttle_runs subscribe_upsert_runs])

section \<open>What a subscribe request can do and reveal\<close>

definition anonymous :: "request \<Rightarrow> bool" where
  "anonymous r \<longleftrightarrow> (case rq_claims r of None \<Rightarrow> True | Some c \<Rightarrow> c_sub c = '''')"

lemma anonymous_identity:
  "anonymous r \<Longrightarrow> subscribe_identity env r = (\<lparr>jc_sub = '''', jc_email = '''', jc_role = ''anon''\<rparr>, None)"
  by (auto simp: anonymous_def subscribe_identity_def split: option.splits)

lemma anon_subscribe_txn:
  "q_ident q = IdAnon \<Longrightarrow> \<exists>e. subscribe_txn p q k d = Inl e"
  by (simp add: subscribe_txn_def on_no_rows_def q_bind_def upsert_pending_subscriber_def with_text_def)

lemma anon_with_user:
  assumes "with_user uq io \<lparr>jc_sub = '''', jc_email = '''', jc_role = ''anon''\<rparr> (subscribe_txn p) s = (res, s')"
  shows "(\<exists>e. res = Inl e) \<and> st_db s' = st_db s"
proof -
  have "with_user uq io \<lparr>jc_sub = '''', jc_email = '''', jc_role = ''anon''\<rparr> (subscribe_txn p) s =
      run_txn io (Inr IdAnon) (subscribe_txn p) s"
    by (simp add: with_user_def valid_role_def Let_def)
  with assms have "run_txn io (Inr IdAnon) (subscribe_txn p) s = (res, s')" by simp
  then show ?thesis
  proof (cases rule: run_txn_cases)
    case (committed i x)
    then have "\<exists>e. subscribe_txn p (txn_ctx io i (st_count s)) (io_uuid io (st_count s)) (st_db s) = Inl e"
      by (intro anon_subscribe_txn) simp
    with committed(4) show ?thesis by simp
  next
    case (lost i x e)
    then have "\<exists>e. subscribe_txn p (txn_ctx io i (st_count s)) (io_uuid io (st_count s)) (st_db s) = Inl e"
      by (intro anon_subscribe_txn) simp
    with lost(4) show ?thesis by simp
  qed simp
qed

lemma throttle_keeps:
  assumes "throttle_check env d email s = (res, s')"
  shows "st_db s' = st_db s"
proof -
  have "st_db (snd (with_tx io (\<lambda>q k. has_recent_notification_for_email q e kind window) st)) = st_db st"
    for io e kind window st
    by (rule service.run_invariant [where I = "\<lambda>d. d = st_db st"]) (auto dest: reads_keep_db(6))
  with assms show ?thesis
    by (auto simp: throttle_check_def recently_notified_def split: if_splits) (metis snd_conv)
qed

text \<open>What a response shows: the status and, from the part this handler wrote, the body.\<close>

definition answers :: "rw \<Rightarrow> int \<Rightarrow> json \<Rightarrow> rw \<Rightarrow> bool" where
  "answers w st v w' \<longleftrightarrow> rw_status w' = st \<and> rw_body w' = rw_body w @ [JsonBody v]"

lemma answers_simps:
  "rw_sent w = None \<Longrightarrow> st \<noteq> 0 \<Longrightarrow> answers w st v (write_json st v w)"
  "rw_sent w = None \<Longrightarrow> app_as e = Some (st, c, m) \<Longrightarrow> st \<noteq> 0 \<Longrightarrow>
     answers w st (error_envelope c m (request_id_from_context r)) (write_error r e w)"
  by (simp_all add: answers_def rw_simps)

lemma answers_failed:
  "rw_sent w = None \<Longrightarrow> sv_hash_key env \<noteq> None \<Longrightarrow> \<exists>w'. log_hashed env (s, w) (failed r m (s, w)) = Done (s, w') \<and>
     answers w 500 (error_envelope CodeInternal m (request_id_from_context r)) w'"
  "rw_sent w = None \<Longrightarrow> \<exists>w'. failed r m (s, w) = Done (s, w') \<and>
     answers w 500 (error_envelope CodeInternal m (request_id_from_context r)) w'"
  by (auto simp: failed_def log_hashed_def intro!: answers_simps)

text \<open>The four answers a subscribe request can get.\<close>

inductive subscribe_answer :: "request \<Rightarrow> rw \<Rightarrow> rw \<Rightarrow> bool" for r w where
  accepted: "answers w 202 uniform_ok w' \<Longrightarrow> subscribe_answer r w w'"
| bad_json: "answers w 400 (error_envelope CodeBadRequest ''invalid JSON'' (request_id_from_context r)) w' \<Longrightarrow>
    subscribe_answer r w w'"
| bad_email: "answers w 400 (error_envelope CodeBadRequest ''invalid email format'' (request_id_from_context r)) w' \<Longrightarrow>
    subscribe_answer r w w'"
| failure: "answers w 500 (error_envelope CodeInternal ''subscribe failed'' (request_id_from_context r)) w' \<Longrightarrow>
    subscribe_answer r w w'"

lemma subscribe_enqueue_answer:
  assumes "rw_sent w = None" and "sv_hash_key env \<noteq> None"
  shows "\<exists>s' w'. subscribe_enqueue env d r email tok i (s, w) = Done (s', w') \<and> subscribe_answer r w w'"
proof -
  have "answers w 202 uniform_ok (write_json 202 uniform_ok w)" using assms(1) by (simp add: answers_simps)
  then show ?thesis
    using answers_failed(2) [OF assms(1), of r "''subscribe failed''" s] assms(2)
    by (auto simp: subscribe_enqueue_def Let_def log_hashed_def split: sum.splits prod.splits
        intro: subscribe_answer.intros)
qed

lemma subscribe_upsert_answer:
  assumes "rw_sent w = None" and "sv_hash_key env \<noteq> None"
  shows "\<exists>s' w'. subscribe_upsert env d r email source (s, w) = Done (s', w') \<and> subscribe_answer r w w'"
proof -
  note fail = answers_failed(1) [OF assms, of _ r "''subscribe failed''"] and
    fail' = answers_failed(2) [OF assms(1), of r "''subscribe failed''" s]
  have ok: "answers w 202 uniform_ok (write_json 202 uniform_ok w)" using assms(1) by (simp add: answers_simps)
  obtain jc u where jc: "subscribe_identity env r = (jc, u)" by fastforce
  obtain raw hash where rh: "new_confirm_token env = (raw, hash)" by fastforce
  let ?tok = "issue_token env purpose_confirm_subscriber raw (sv_now env + dp_confirm_ttl d)"
  let ?p = "\<lparr>up_email = email, up_token_hash = hash, up_expires = sv_now env + dp_confirm_ttl d,
      up_source = non_empty source, up_user_id = u\<rparr>"
  obtain res s' where run: "with_user (sv_quote env) (sv_io env) jc (subscribe_txn ?p) s = (res, s')" by fastforce
  show ?thesis
  proof (cases ?tok)
    case (Inl e)
    then show ?thesis using fail' by (auto simp: subscribe_upsert_def jc rh Let_def intro: subscribe_answer.intros)
  next
    case (Inr tok)
    show ?thesis
    proof (cases res)
      case (Inl e)
      then show ?thesis using Inr run fail [of s']
        by (auto simp: subscribe_upsert_def jc rh Let_def intro: subscribe_answer.intros)
    next
      case res: (Inr x)
      then show ?thesis using Inr run ok subscribe_enqueue_answer [OF assms, of d r email tok _ s']
        by (cases x) (auto simp: subscribe_upsert_def jc rh Let_def intro: subscribe_answer.intros)
    qed
  qed
qed

lemma subscribe_body_answer:
  assumes "rw_sent w = None" and "sv_hash_key env \<noteq> None"
  shows "\<exists>s' w'. subscribe_body env d r (s, w) = Done (s', w') \<and> subscribe_answer r w w'"
proof (cases "decode_subscribe env r")
  case (Inl e)
  have "answers w 400 (error_envelope CodeBadRequest ''invalid JSON'' (request_id_from_context r))
      (write_error r (AppError 400 CodeBadRequest ''invalid JSON'' (Some e)) w)"
    using assms(1) by (simp add: answers_simps)
  with Inl show ?thesis by (auto simp: subscribe_body_def bad_request_def intro: subscribe_answer.intros)
next
  case (Inr es)
  have bad: "answers w 400 (error_envelope CodeBadRequest ''invalid email format'' (request_id_from_context r))
      (write_error r (bad_request ''invalid email format'') w)"
    using assms(1) by (simp add: answers_simps)
  have ok: "answers w 202 uniform_ok (write_json 202 uniform_ok w)" using assms(1) by (simp add: answers_simps)
  obtain email source where es: "es = (email, source)" by fastforce
  show ?thesis
  proof (cases "normalize_email env email")
    case None
    with Inr es bad show ?thesis by (auto simp: subscribe_body_def intro: subscribe_answer.intros)
  next
    case (Some a)
    obtain res s' where t: "throttle_check env d a s = (res, s')" by fastforce
    show ?thesis
    proof (cases res)
      case (Inl e)
      then show ?thesis using Inr es Some t answers_failed(1) [OF assms, of s' r "''subscribe failed''"]
        by (auto simp: subscribe_body_def intro: subscribe_answer.intros)
    next
      case res: (Inr b)
      then show ?thesis
        using Inr es Some t ok subscribe_upsert_answer [OF assms, of d r a "sanitize_source source" s']
        by (cases b) (auto simp: subscribe_body_def intro: subscribe_answer.intros)
    qed
  qed
qed

lemma anon_upsert_step:
  assumes "anonymous r" and "rw_sent w = None"
  shows "db_after (subscribe_upsert env d r email source (s, w)) = st_db s"
    and "sv_hash_key env \<noteq> None \<Longrightarrow> \<exists>s' w'. subscribe_upsert env d r email source (s, w) = Done (s', w') \<and>
      answers w 500 (error_envelope CodeInternal ''subscribe failed'' (request_id_from_context r)) w'"
proof -
  note jc = anonymous_identity [OF assms(1), of env]
  obtain raw hash where rh: "new_confirm_token env = (raw, hash)" by fastforce
  let ?p = "\<lparr>up_email = email, up_token_hash = hash, up_expires = sv_now env + dp_confirm_ttl d,
      up_source = non_empty source, up_user_id = None\<rparr>"
  obtain res s' where run: "with_user (sv_quote env) (sv_io env) \<lparr>jc_sub = '''', jc_email = '''', jc_role = ''anon''\<rparr>
      (subscribe_txn ?p) s = (res, s')" by fastforce
  obtain e where res: "res = Inl e" "st_db s' = st_db s" using anon_with_user [OF run] by auto
  show "db_after (subscribe_upsert env d r email source (s, w)) = st_db s"
    using run res by (auto simp: subscribe_upsert_def jc rh Let_def split: sum.splits)
  show "\<exists>s' w'. subscribe_upsert env d r email source (s, w) = Done (s', w') \<and>
      answers w 500 (error_envelope CodeInternal ''subscribe failed'' (request_id_from_context r)) w'"
    if "sv_hash_key env \<noteq> None"
    using run res answers_failed(1) [OF assms(2) that, of s' r "''subscribe failed''"]
      answers_failed(2) [OF assms(2), of r "''subscribe failed''" s]
    by (auto simp: subscribe_upsert_def jc rh Let_def split: sum.splits)
qed

lemma handle_subscribe_outcome:
  "outcome_value (handle_subscribe env d r (wd, w)) =
     (let (s', w') = outcome_value (subscribe_body env d r (w_store wd, w))
      in (wd\<lparr>w_store := s', w_slept := w_slept wd +
            constant_time_delay (sv_start env) min_handler_latency (sv_end env)\<rparr>, w'))"
  by (cases "subscribe_body env d r (w_store wd, w)") (auto simp: handle_subscribe_def on_store_def Let_def)

subsection \<open>A sample request\<close>

definition sample_uuid_text :: "uuid \<Rightarrow> string" where
  "sample_uuid_text u = string_of_bytes (be_bytes 16 u)"

definition sample_uuid_scan :: "string \<Rightarrow> uuid option" where
  "sample_uuid_scan s = (if s = ''seven'' then Some 7 else get_be 16 (bytes_of_string s))"

definition sample_subs_env :: subs_env where
  "sample_subs_env =
     \<lparr>sv_hmac = (\<lambda>k m. 7), sv_sha256 = (\<lambda>m. of_be_bytes 0 m), sv_signer = \<lparr>signer_key = []\<rparr>,
      sv_hash_key = Some [], sv_lower = id, sv_quote = id, sv_io = sample_io, sv_random = replicate 32 1,
      sv_uuid_text = sample_uuid_text, sv_uuid_scan = sample_uuid_scan,
      sv_parse_address = Some,
      sv_read_json = (\<lambda>s. if s = '''' then None else Some (JObj [(''email'', JStr s)])),
      sv_parse_url = (\<lambda>s. None), sv_url_text = pu_path,
      sv_start = 0, sv_now = 5 * second, sv_now_unsub = 5 * second, sv_end = 0, sv_time = 6 * second\<rparr>"

definition sample_deps :: deps where
  "sample_deps = new_service \<lparr>dp_base_url = ''https://x'', dp_throttle = 0, dp_unsubscribe_ttl = 0, dp_confirm_ttl = 0\<rparr>"

definition sample_post :: "string \<Rightarrow> claims option \<Rightarrow> request" where
  "sample_post b c =
     \<lparr>rq_method = ''POST'', rq_path = '''', rq_header = (\<lambda>k. ''''), rq_query = (\<lambda>k. ''''), rq_form = (\<lambda>k. ''''),
      rq_url_param = (\<lambda>k. ''''), rq_body = b, rq_remote_addr = '''', rq_request_id = None, rq_claims = c\<rparr>"

lemma sample_uuid_codec: "codec sample_uuid_text sample_uuid_scan"
proof
  fix u :: uuid
  have "length ''seven'' \<noteq> length (be_bytes 16 u)" by simp
  then have "sample_uuid_text u \<noteq> ''seven''"
    unfolding sample_uuid_text_def by (metis length_map string_of_bytes_def)
  moreover have "bytes_of_string (sample_uuid_text u) = be_bytes 16 u"
    by (simp add: sample_uuid_text_def bytes_of_string_def string_of_bytes_def comp_def)
  ultimately show "sample_uuid_scan (sample_uuid_text u) = Some u"
    by (simp add: sample_uuid_scan_def get_be_bytes)
qed

lemmas sample_subs_simps = sample_subs_env_def sample_deps_def new_service_def sample_post_def

text \<open>
  C6: a visitor who is not logged in cannot subscribe: whatever he sends, no subscription and
  no message is stored, and a well-formed request with a valid address that no recent message
  throttles is answered 500. (Row-level security rejects the statement for role \<open>anon\<close>, see
  \<open>anon_upsert_is_rejected\<close>; the handler's comments expect it to pass.)
\<close>

theorem anonymous_subscribe_stores_nothing:
  assumes "anonymous r" and "rw_sent w = None"
    and "outcome_value (handle_subscribe env d r (wd, w)) = (wd', w')"
  shows "st_db (w_store wd') = st_db (w_store wd) \<and>
    (\<forall>email0 source0 email. decode_subscribe env r = Inr (email0, source0) \<longrightarrow>
       normalize_email env email0 = Some email \<longrightarrow>
       fst (throttle_check env d email (w_store wd)) = Inr False \<longrightarrow> sv_hash_key env \<noteq> None \<longrightarrow>
       answers w 500 (error_envelope CodeInternal ''subscribe failed'' (request_id_from_context r)) w')"
proof (intro conjI allI impI)
  let ?out = "subscribe_body env d r (w_store wd, w)"
  have out: "outcome_value ?out = (w_store wd', w')"
    using assms(3) by (auto simp: handle_subscribe_outcome Let_def split: prod.splits)
  have "db_after ?out = st_db (w_store wd)"
    using throttle_keeps anon_upsert_step(1) [OF assms(1,2)]
    by (auto simp: subscribe_body_def split: sum.splits prod.splits option.splits bool.splits)
  with out show "st_db (w_store wd') = st_db (w_store wd)" by (simp add: db_after_def)
  fix email0 source0 email
  assume a: "decode_subscribe env r = Inr (email0, source0)" "normalize_email env email0 = Some email"
    "fst (throttle_check env d email (w_store wd)) = Inr False" "sv_hash_key env \<noteq> None"
  obtain s' where t: "throttle_check env d email (w_store wd) = (Inr False, s')"
    using a(3) by (cases "throttle_check env d email (w_store wd)") auto
  obtain s'' w'' where "?out = Done (s'', w'')"
    "answers w 500 (error_envelope CodeInternal ''subscribe failed'' (request_id_from_context r)) w''"
    using anon_upsert_step(2) [OF assms(1,2) a(4), of d email "sanitize_source source0" s'] a(1,2) t
    by (auto simp: subscribe_body_def)
  with out show "answers w 500 (error_envelope CodeInternal ''subscribe failed'' (request_id_from_context r)) w'" by simp
qed

text \<open>
  C7: What a subscribe request reveals: once the hash key is installed it never panics and
  gets one of four answers, and every accepted one is the same, byte for byte, whether the
  address was new, pending, settled or throttled. Whatever the path, the handler has taken at
  least 200 milliseconds when it returns.
\<close>

theorem subscribe_answers_are_uniform:
  assumes "rw_sent w = None" and "sv_hash_key env \<noteq> None"
  shows "\<exists>wd' w'. handle_subscribe env d r (wd, w) = Done (wd', w') \<and> subscribe_answer r w w' \<and>
    (rw_status w' = 202 \<longrightarrow> rw_body w' = rw_body w @ [JsonBody uniform_ok]) \<and>
    200000000 \<le> (sv_end env - sv_start env) + (w_slept wd' - w_slept wd)"
proof -
  obtain s' w' where b: "subscribe_body env d r (w_store wd, w) = Done (s', w')" "subscribe_answer r w w'"
    using subscribe_body_answer [OF assms] by blast
  have "rw_status w' = 202 \<longrightarrow> rw_body w' = rw_body w @ [JsonBody uniform_ok]"
    using b(2) by cases (auto simp: answers_def)
  moreover have "(200000000 :: int) = min_handler_latency" by (simp add: min_handler_latency_def second_def)
  ultimately show ?thesis
    using b delay_pads(1) [of min_handler_latency "sv_end env" "sv_start env"]
    by (simp add: handle_subscribe_def on_store_def)
qed

lemma sample_decode:
  "decode_subscribe sample_subs_env (sample_post ''ann@example.org'' c) = Inr (''ann@example.org'', '''')"
  "normalize_email sample_subs_env ''ann@example.org'' = Some ''ann@example.org''"
proof -
  have "decode_struct (Some id) ''subscribers'' ''subscribeReq'' [''email'', ''source'']
      (JObj [(''email'', JStr ''ann@example.org'')]) = (None, \<lambda>n. str_field n [(''email'', JStr ''ann@example.org'')] '''')"
    by (simp add: decode_struct_def is_text_or_null_def ascii_lower_def)
  then show "decode_subscribe sample_subs_env (sample_post ''ann@example.org'' c) = Inr (''ann@example.org'', '''')"
    by (simp add: decode_subscribe_def sample_subs_simps ascii_lower_def)
  have "trim_space ''ann@example.org'' = ''ann@example.org''" by (rule trim_space_visible) (simp_all add: visible_def)
  then show "normalize_email sample_subs_env ''ann@example.org'' = Some ''ann@example.org''"
    by (simp add: normalize_email_def sample_subs_env_def last_index_of_def index_of_def to_lower_def is_ascii_def
        ascii_lower_def Let_def)
qed

lemma anonymous_subscribe_stores_nothing_witness:
  "\<exists>w'. answers new_rw 500 (error_envelope CodeInternal ''subscribe failed'' '''') w'"
proof -
  let ?r = "sample_post ''ann@example.org'' None"
  have anon: "anonymous ?r" by (simp add: anonymous_def sample_post_def)
  have keys: "sv_hash_key sample_subs_env \<noteq> None" by (simp add: sample_subs_env_def)
  have throttle: "fst (throttle_check sample_subs_env sample_deps ''ann@example.org'' (w_store sample_world)) = Inr False"
    by (simp add: throttle_check_def sample_subs_simps)
  have rid: "request_id_from_context ?r = ''''" by (simp add: request_id_from_context_def sample_post_def)
  obtain wd' w' where out: "outcome_value (handle_subscribe sample_subs_env sample_deps ?r (sample_world, new_rw)) = (wd', w')"
    by fastforce
  note sent = new_rw_simps(1)
  from anonymous_subscribe_stores_nothing [OF anon sent out] sample_decode throttle keys rid
  show ?thesis by auto
qed

lemma subscribe_answers_are_uniform_witness:
  "\<exists>wd' w'. handle_subscribe sample_subs_env sample_deps (sample_post '''' None) (sample_world, new_rw) = Done (wd', w') \<and>
     200000000 \<le> w_slept wd'"
proof -
  have "sv_hash_key sample_subs_env \<noteq> None" by (simp add: sample_subs_env_def)
  from subscribe_answers_are_uniform [OF new_rw_simps(1) this, of sample_deps "sample_post '''' None" sample_world]
  show ?thesis by (auto simp: sample_subs_env_def sample_world_def)
qed

section \<open>What a logged-in caller learns\<close>

lemma upsert_user_cases:
  assumes "q_ident q = IdUser (Some u) e" and "up_user_id p = Some u"
    and "list_all pg_text (up_email p # opt_text (up_source p))"
  shows "upsert_pending_subscriber q k p d =
    (case find (email_match q (up_email p)) (db_subscribers d) of
       None \<Rightarrow>
         if k \<in> s_id ` set (db_subscribers d) then Inl (PgError UniqueViolation)
         else if u \<notin> set (db_users d) then Inl (PgError ForeignKeyViolation)
         else Inr (proposed_row q k p, d\<lparr>db_subscribers := db_subscribers d @ [proposed_row q k p]\<rparr>)
     | Some old \<Rightarrow>
         if s_status old \<noteq> Pending then Inl (Sentinel ErrNoRows)
         else if \<not> (pending_only old \<and> select_subscriber (q_pg q) d (q_ident q) old \<and>
               select_subscriber (q_pg q) d (q_ident q) (refreshed_row q p old)) then Inl (PgError RowSecurityViolation)
         else if s_user_id old = None \<and> u \<notin> set (db_users d) then Inl (PgError ForeignKeyViolation)
         else Inr (refreshed_row q p old, d\<lparr>db_subscribers :=
                update_where (\<lambda>r. r = old) (refreshed_row q p) (db_subscribers d)\<rparr>))"
proof -
  have new: "pending_only (proposed_row q k p)" "select_subscriber (q_pg q) d (q_ident q) (proposed_row q k p)"
    "s_user_id (proposed_row q k p) = Some u"
    using assms(1,2) by (simp_all add: pending_only_def proposed_row_def select_subscriber_def)
  have upd: "pending_only (refreshed_row q p old) = pending_only old" for old
    by (simp add: pending_only_def refreshed_row_def)
  have owner: "s_user_id (refreshed_row q p old) \<noteq> s_user_id old \<and> \<not> fk_user d (s_user_id (refreshed_row q p old)) \<longleftrightarrow>
      s_user_id old = None \<and> u \<notin> set (db_users d)" for old
    using assms(2) by (auto simp: refreshed_row_def fk_user_def split: option.splits)
  show ?thesis
    unfolding upsert_pending_subscriber_def with_text_def Let_def assms(1)
    using assms(3) new upd owner assms(1)
    by (simp add: fk_user_def split: option.split)
qed

lemma user_identity:
  assumes "jc_sub jc \<noteq> ''''" and "pg_uuid (io_pg io) (jc_sub jc) = Some u" and "jc_role jc = ''authenticated''"
  shows "with_user uq io jc fn s = run_txn io (Inr (IdUser (Some u) (jc_email jc))) fn s"
  using assms by (simp add: with_user_def valid_role_def Let_def claims_of_def auth_uid_def jwt_email_def)

lemma issue_token_known:
  "purpose_byte p \<noteq> 0 \<Longrightarrow> \<exists>tok. issue_token env p subject expires = Inr tok"
  by (simp add: issue_token_def issue_def Let_def)

lemma unsubscribe_url_total: "\<exists>url. unsubscribe_url env d i = Inr url"
  using issue_token_known [of purpose_unsubscribe_subscriber env "bytes_of_string (sv_uuid_text env i)"
      "sv_now_unsub env + dp_unsubscribe_ttl d"]
  by (auto simp: unsubscribe_url_def)

lemma subscribe_enqueue_accepts:
  assumes "rw_sent w = None" and "sv_hash_key env \<noteq> None"
  shows "\<exists>s' w'. subscribe_enqueue env d r email tok i (s, w) = Done (s', w') \<and> rw_status w' = 202"
  using assms unsubscribe_url_total [of env d i]
  by (auto simp: subscribe_enqueue_def Let_def log_hashed_def rw_simps split: sum.splits prod.splits)

lemma run_txn_ok:
  assumes "io_fault io (st_count s) = None"
  shows "run_txn io (Inr i) fn s =
    (case fn (txn_ctx io i (st_count s)) (io_uuid io (st_count s)) (st_db s) of
       Inl e \<Rightarrow> (Inl e, s\<lparr>st_count := st_count s + 1\<rparr>)
     | Inr (x, d) \<Rightarrow> (Inr x, s\<lparr>st_count := st_count s + 1, st_db := d\<rparr>))"
  using assms by (simp add: run_txn_def Let_def split: sum.split prod.split)

definition email_row :: "io \<Rightarrow> string \<Rightarrow> db \<Rightarrow> subscriber option" where
  "email_row io e d = find (\<lambda>r. pg_lower (io_pg io) (s_email r) = pg_lower (io_pg io) e) (db_subscribers d)"

lemma logged_in_txn:
  assumes q: "q = txn_ctx io (IdUser (Some u) e) n" and p: "up_user_id p = Some u"
    "list_all pg_text (up_email p # opt_text (up_source p))"
    and d: "db_ok (io_pg io) d" "\<not> admin_uid d (Some u)" "u \<in> set (db_users d)" "k \<notin> s_id ` set (db_subscribers d)"
    and foreign: "pg_lower (io_pg io) (up_email p) \<noteq> pg_lower (io_pg io) e"
  shows "case email_row io (up_email p) d of
      None \<Rightarrow> \<exists>d'. subscribe_txn p q k d = Inr (Some k, d')
    | Some old \<Rightarrow>
        if s_status old \<noteq> Pending then subscribe_txn p q k d = Inr (None, d)
        else if s_user_id old = Some u then \<exists>d'. subscribe_txn p q k d = Inr (Some (s_id old), d')
        else subscribe_txn p q k d = Inl (PgError RowSecurityViolation)"
proof -
  have i: "q_ident q = IdUser (Some u) e" by (simp add: q)
  have find: "email_row io (up_email p) d = find (email_match q (up_email p)) (db_subscribers d)"
    by (simp add: email_row_def email_match_def [abs_def] q)
  note up = upsert_user_cases [OF i p, of k d, folded find]
  show ?thesis
  proof (cases "email_row io (up_email p) d")
    case None
    with up d show ?thesis
      by (simp add: subscribe_txn_def on_no_rows_def q_bind_def q_return_def proposed_row_def)
  next
    case (Some old)
    have old: "old \<in> set (db_subscribers d)" "pg_lower (io_pg io) (s_email old) = pg_lower (io_pg io) (up_email p)"
      using Some by (auto simp: email_row_def find_Some_iff)
    have pend: "s_status old = Pending \<Longrightarrow> pending_only old"
      using db_ok_dest(3) [OF d(1) old(1)] by (auto simp: subscriber_ok_def pending_clean_constraint_def pending_only_def)
    have sees: "select_subscriber (q_pg q) d (q_ident q) old \<longleftrightarrow> s_user_id old = Some u"
      using old(2) foreign d(2) by (auto simp: select_subscriber_def i q)
    have sees': "s_user_id old = Some u \<Longrightarrow> select_subscriber (q_pg q) d (q_ident q) (refreshed_row q p old)"
      by (auto simp: select_subscriber_def i refreshed_row_def)
    show ?thesis
      using up pend sees sees' by (simp add: Some subscribe_txn_def on_no_rows_def q_bind_def q_return_def row_simps)
  qed
qed

lemma upsert_reveals:
  assumes "rq_claims r = Some c" and "c_sub c \<noteq> ''''" and "sv_uuid_scan env (c_sub c) = Some u"
    and "pg_uuid (io_pg (sv_io env)) (c_sub c) = Some u"
    and "io_fault (sv_io env) (st_count s) = None"
    and "db_ok (io_pg (sv_io env)) (st_db s)" and "\<not> admin_uid (st_db s) (Some u)" and "u \<in> set (db_users (st_db s))"
    and "io_uuid (sv_io env) (st_count s) \<notin> s_id ` set (db_subscribers (st_db s))"
    and "pg_text email" and "pg_lower (io_pg (sv_io env)) email \<noteq> pg_lower (io_pg (sv_io env)) (c_email c)"
    and "rw_sent w = None" and "sv_hash_key env \<noteq> None"
  shows "\<exists>s' w'. subscribe_upsert env d r email (sanitize_source source) (s, w) = Done (s', w') \<and>
    rw_status w' =
      (case email_row (sv_io env) email (st_db s) of
         Some old \<Rightarrow> if s_status old = Pending \<and> s_user_id old \<noteq> Some u then 500 else 202
       | None \<Rightarrow> 202)"
proof -
  let ?io = "sv_io env" and ?n = "st_count s" and ?src = "sanitize_source source"
  let ?jc = "\<lparr>jc_sub = c_sub c, jc_email = c_email c, jc_role = ''authenticated''\<rparr>"
  obtain raw hash where rh: "new_confirm_token env = (raw, hash)" by fastforce
  let ?p = "\<lparr>up_email = email, up_token_hash = hash, up_expires = sv_now env + dp_confirm_ttl d,
      up_source = non_empty ?src, up_user_id = Some u\<rparr>"
  let ?q = "txn_ctx ?io (IdUser (Some u) (c_email c)) ?n" and ?k = "io_uuid ?io ?n"
  have jc: "subscribe_identity env r = (?jc, Some u)" using assms(1-3) by (simp add: subscribe_identity_def)
  obtain tok where tok: "issue_token env purpose_confirm_subscriber raw (sv_now env + dp_confirm_ttl d) = Inr tok"
    using issue_token_known [of purpose_confirm_subscriber env raw "sv_now env + dp_confirm_ttl d"] by auto
  have run: "with_user (sv_quote env) ?io ?jc (subscribe_txn ?p) s =
      run_txn ?io (Inr (IdUser (Some u) (c_email c))) (subscribe_txn ?p) s"
    using user_identity [of ?jc ?io u] assms(2,4) by simp
  have "list_all pg_text (up_email ?p # opt_text (up_source ?p))"
    using assms(10) sanitized_text [of source] by (simp add: opt_text_def non_empty_def)
  then have txn: "case email_row ?io email (st_db s) of
      None \<Rightarrow> \<exists>d'. subscribe_txn ?p ?q ?k (st_db s) = Inr (Some ?k, d')
    | Some old \<Rightarrow>
        if s_status old \<noteq> Pending then subscribe_txn ?p ?q ?k (st_db s) = Inr (None, st_db s)
        else if s_user_id old = Some u then \<exists>d'. subscribe_txn ?p ?q ?k (st_db s) = Inr (Some (s_id old), d')
        else subscribe_txn ?p ?q ?k (st_db s) = Inl (PgError RowSecurityViolation)"
    using logged_in_txn [OF refl, of ?p u "?io" "st_db s" ?k "c_email c" ?n] assms(6-9,11) by simp
  note up = subscribe_upsert_def jc rh tok run run_txn_ok [OF assms(5)]
  note enq = subscribe_enqueue_accepts [OF assms(12,13)]
  show ?thesis
  proof (cases "email_row ?io email (st_db s)")
    case None
    with txn enq show ?thesis by (auto simp: up Let_def)
  next
    case (Some old)
    then show ?thesis
      using txn enq assms(12,13)
      by (auto simp: up Let_def log_hashed_def failed_def rw_simps split: if_splits)
  qed
qed

text \<open>The throttle, as the database answers it: a mail of this kind to the address in the last window.\<close>

definition recently_mailed :: "subs_env \<Rightarrow> deps \<Rightarrow> string \<Rightarrow> store \<Rightarrow> bool" where
  "recently_mailed env d email s \<longleftrightarrow> dp_throttle d > 0 \<and>
     list_ex (recent_match (txn_ctx (sv_io env) IdService (st_count s)) email kind_confirm_email
       (to_int32 (dp_throttle d sdiv second))) (db_notifications (st_db s))"

lemma throttle_answers:
  assumes "io_fault (sv_io env) (st_count s) = None" and "pg_text email"
  shows "\<exists>s'. throttle_check env d email s = (Inr (recently_mailed env d email s), s') \<and> st_db s' = st_db s \<and>
    st_count s' = st_count s + (if dp_throttle d > 0 then 1 else 0)"
proof (cases "dp_throttle d > 0")
  case True
  have "pg_text kind_confirm_email" by code_simp
  then show ?thesis
    using True assms
    by (simp add: throttle_check_def recently_notified_def with_tx_no_fault recently_mailed_def
        has_recent_notification_for_email_def with_text_def read_internal_def may_read_internal_def
        visible_notifications_def select_internal_def)
next
  case False
  then show ?thesis by (simp add: throttle_check_def recently_mailed_def)
qed


definition sample_foreign :: subscriber where
  "sample_foreign = (sample_row 1 ''ann@example.org'')\<lparr>s_user_id := None\<rparr>"

definition sample_bob :: claims where
  "sample_bob = \<lparr>c_sub = ''seven'', c_email = ''bob@example.org'', c_role = ''authenticated''\<rparr>"

text \<open>The same address when it has just been mailed.\<close>

definition sample_asked :: "notification list \<Rightarrow> world" where
  "sample_asked ns = sample_world\<lparr>w_store := \<lparr>st_db = (sample_db [sample_foreign])\<lparr>db_notifications := ns\<rparr>, st_count = 2\<rparr>\<rparr>"

definition sample_throttled :: deps where
  "sample_throttled = sample_deps\<lparr>dp_throttle := 60 * second\<rparr>"

lemma sample_asked_facts:
  "db_ok sample_pg (st_db (w_store (sample_asked [])))"
  "db_ok sample_pg (st_db (w_store (sample_asked [sample_notification 1 40])))"
  "\<not> recently_mailed sample_subs_env sample_throttled ''ann@example.org'' (w_store (sample_asked []))"
  "recently_mailed sample_subs_env sample_throttled ''ann@example.org'' (w_store (sample_asked [sample_notification 1 40]))"
  "email_row (sv_io sample_subs_env) ''ann@example.org'' (st_db (w_store (sample_asked ns))) = Some sample_foreign"
proof -
  show "db_ok sample_pg (st_db (w_store (sample_asked [])))"
    "db_ok sample_pg (st_db (w_store (sample_asked [sample_notification 1 40])))"
    by (simp_all add: sample_asked_def db_ok_def subscriber_ok_def pending_clean_constraint_def sample_foreign_def
        sample_notification_def fresh_notification_def sample_defs proposed_row_def)
  have window: "to_int32 (60 * second sdiv second) = 60" by code_simp
  show "\<not> recently_mailed sample_subs_env sample_throttled ''ann@example.org'' (w_store (sample_asked []))"
    by (simp add: recently_mailed_def sample_asked_def sample_db_def empty_db_def)
  show "recently_mailed sample_subs_env sample_throttled ''ann@example.org'' (w_store (sample_asked [sample_notification 1 40]))"
    by (simp add: recently_mailed_def sample_asked_def sample_throttled_def window recent_match_def
        sample_notification_def fresh_notification_def kind_confirm_email_def sample_q_def sample_subs_env_def
        sample_io_def txn_ctx_def)
  show "email_row (sv_io sample_subs_env) ''ann@example.org'' (st_db (w_store (sample_asked ns))) = Some sample_foreign"
    by (simp add: email_row_def sample_asked_def sample_foreign_def sample_row_def proposed_row_def sample_params_def
        sample_db_def empty_db_def)
qed


end
