(* ===== verification/Links.thy ===== *)
theory Links
  imports Subscriptions
begin

text \<open>
  The links of \<open>internal/subscribers/service.go\<close>: a confirm or unsubscribe link changes exactly
  the row it was made for, a confirm link once and an unsubscribe link as often as one likes,
  neither works on the other's form, and opening a page changes nothing; the mails that
  subscribing and \<open>EnqueueConfirm\<close> queue carry links that work; and a caller reads the status of
  his own address.
\<close>

section \<open>The links confirm and unsubscribe\<close>

lemma confirm_txn_none:
  assumes "q_ident q = IdService" and "\<forall>r\<in>set (db_subscribers d). \<not> (s_token_hash r = Some h \<and> s_status r = Pending)"
  shows "confirm_txn h q k d = Inl (Sentinel ErrNoRows)"
proof -
  have "filter (\<lambda>r. s_token_hash r = Some h \<and> s_status r = Pending) (visible_subscribers q d) = []"
    using assms by (auto simp: filter_empty_conv visible_rows)
  then show ?thesis
    by (simp add: confirm_txn_def q_bind_def get_subscriber_by_confirm_token_hash_def one_row_def)
qed

text \<open>The row a confirmation turns, and the database after it.\<close>

definition confirmed_db :: "time \<Rightarrow> uuid \<Rightarrow> db \<Rightarrow> db" where
  "confirmed_db now i d = d\<lparr>db_subscribers := update_where (\<lambda>r. s_id r = i) (confirmed_row now) (db_subscribers d)\<rparr>"

lemma confirm_txn_some:
  assumes "q_ident q = IdService" and "db_ok pg d" and "confirm_txn h q k d = Inr (x, d')"
  obtains row where "row \<in> set (db_subscribers d)" "s_token_hash row = Some h" "s_status row = Pending"
    "d' = confirmed_db (q_now q) (s_id row) d"
proof -
  obtain row n where get: "get_subscriber_by_confirm_token_hash q h d = Inr (row, d)"
    and upd: "confirm_subscriber_by_id q (s_id row) d = Inr (n, d')"
    using assms(3) by (auto simp: confirm_txn_def query_iff dest: reads_keep_db(3))
  have row: "row \<in> set (db_subscribers d)" "s_token_hash row = Some h" "s_status row = Pending"
    using subscriber_reads_visible(3) [OF get] by (auto simp: visible_rows)
  have "s_unsubscribed_at row = None"
    using db_ok_dest(3) [OF assms(2) row(1)] row(3) by (simp add: subscriber_ok_def pending_clean_constraint_def)
  then have same: "r \<in> set (db_subscribers d) \<Longrightarrow>
      (s_id r = s_id row \<and> (s_status r = Pending \<or> s_status r = Confirmed) \<and> s_unsubscribed_at r = None) = (s_id r = s_id row)" for r
    using distinct_keys_eq [OF db_ok_dest(1) [OF assms(2)] row(1)] row(3) by metis
  have "d' = d\<lparr>db_subscribers := update_where (\<lambda>r. s_id r = s_id row \<and> (s_status r = Pending \<or> s_status r = Confirmed) \<and>
      s_unsubscribed_at r = None) (confirmed_row (q_now q)) (db_subscribers d)\<rparr>"
    using upd by (simp add: confirm_subscriber_by_id_def exec_update_service [OF assms(1)])
  also have "\<dots> = confirmed_db (q_now q) (s_id row) d"
    using same by (simp add: confirmed_db_def update_where_def)
  finally show thesis using row that by blast
qed

lemma confirm_txn_done:
  assumes "q_ident q = IdService" and "row \<in> set (db_subscribers d)" "s_token_hash row = Some h" "s_status row = Pending"
  shows "\<exists>x d'. confirm_txn h q k d = Inr (x, d')"
proof -
  have "row \<in> set (filter (\<lambda>r. s_token_hash r = Some h \<and> s_status r = Pending) (visible_subscribers q d))"
    using assms by (auto simp: visible_rows)
  then obtain r rs where "filter (\<lambda>r. s_token_hash r = Some h \<and> s_status r = Pending) (visible_subscribers q d) = r # rs"
    by (metis empty_iff list.set(1) neq_Nil_conv)
  then show ?thesis
    by (simp add: confirm_txn_def q_bind_def get_subscriber_by_confirm_token_hash_def one_row_def
        confirm_subscriber_by_id_def exec_update_service [OF assms(1)] q_return_def)
qed

lemma handle_confirm_post_outcome:
  "handle_confirm_post env r (wd, w) =
     (case confirm_body env r (w_store wd, w) of
        Done (s, w') \<Rightarrow> Done (wd\<lparr>w_store := s\<rparr>, w') | Panicked (s, w') \<Rightarrow> Panicked (wd\<lparr>w_store := s\<rparr>, w'))"
  by (simp add: handle_confirm_post_def on_store_def)

lemma check_token_nonempty: "check_token env tok p = Inr raw \<Longrightarrow> tok \<noteq> ''''"
  by (auto simp: check_token_def verify_def b64_decode_def header_len_def mac_len_def)

lemma with_tx_refused:
  assumes "\<And>q k. q_ident q = IdService \<Longrightarrow> \<exists>e. fn q k (st_db s) = Inl e" and "with_tx io fn s = (res, s')"
  shows "(\<exists>e. res = Inl e) \<and> st_db s' = st_db s"
proof -
  have never: "fn q k (st_db s) \<noteq> Inr y" if "q_ident q = IdService" for q k y
    using assms(1) [OF that, of k] by auto
  show ?thesis
  proof (cases res)
    case (Inl e)
    with assms(2) service.run_error [of io fn s e s'] never show ?thesis by blast
  next
    case (Inr x)
    with assms(2) service.run_ok [of io fn s x s'] never show ?thesis by blast
  qed
qed

lemma confirm_refused:
  assumes "rw_sent w = None"
    and "\<And>raw row. check_token env (posted_token r) purpose_confirm_subscriber = Inr raw \<Longrightarrow>
      row \<in> set (db_subscribers (st_db s)) \<Longrightarrow> s_token_hash row = Some (hash_raw_token env raw) \<Longrightarrow> s_status row \<noteq> Pending"
  shows "\<exists>s' w'. confirm_body env r (s, w) = Done (s', w') \<and> rw_status w' = 400 \<and> st_db s' = st_db s"
proof (cases "check_token env (posted_token r) purpose_confirm_subscriber")
  case (Inl e)
  then show ?thesis using assms(1) by (auto simp: confirm_body_def Let_def rw_simps)
next
  case (Inr raw)
  obtain res s' where run: "with_tx (sv_io env) (confirm_txn (hash_raw_token env raw)) s = (res, s')" by fastforce
  have "\<exists>e. confirm_txn (hash_raw_token env raw) q k (st_db s) = Inl e" if "q_ident q = IdService" for q k
    using confirm_txn_none [OF that] assms(2) [OF Inr] by blast
  from with_tx_refused [OF this run] obtain e where "res = Inl e" "st_db s' = st_db s" by auto
  then show ?thesis using assms(1) Inr run check_token_nonempty [OF Inr] by (simp add: confirm_body_def Let_def rw_simps)
qed

lemma confirm_accepted:
  assumes "check_token env (posted_token r) purpose_confirm_subscriber = Inr raw" and "rw_sent w = None"
    and "io_fault (sv_io env) (st_count s) = None" and "db_ok (io_pg (sv_io env)) (st_db s)"
    and "row \<in> set (db_subscribers (st_db s))" "s_token_hash row = Some (hash_raw_token env raw)" "s_status row = Pending"
    and "\<forall>x\<in>set (db_subscribers (st_db s)). s_token_hash x = s_token_hash row \<longrightarrow> x = row"
  shows "\<exists>s' w'. confirm_body env r (s, w) = Done (s', w') \<and> rw_status w' = 200 \<and>
    st_db s' = confirmed_db (io_now (sv_io env) (st_count s)) (s_id row) (st_db s)"
proof -
  let ?q = "txn_ctx (sv_io env) IdService (st_count s)" and ?h = "hash_raw_token env raw"
  let ?k = "io_uuid (sv_io env) (st_count s)"
  obtain x d' where txn: "confirm_txn ?h ?q ?k (st_db s) = Inr (x, d')"
    using confirm_txn_done [where q = ?q and row = row and h = ?h and d = "st_db s"] assms(5-7) by auto
  obtain row' where row': "row' \<in> set (db_subscribers (st_db s))" "s_token_hash row' = Some ?h"
      "d' = confirmed_db (q_now ?q) (s_id row') (st_db s)"
    using confirm_txn_some [OF _ assms(4) txn] by auto
  have "row' = row" using row'(1,2) assms(6,8) by simp
  with row'(3) txn assms(2) check_token_nonempty [OF assms(1)] show ?thesis
    by (simp add: confirm_body_def Let_def assms(1) with_tx_def run_txn_ok [OF assms(3)] rw_simps)
qed

lemma confirmed_db_used:
  assumes "\<forall>x\<in>set (db_subscribers d). s_token_hash x = Some h \<longrightarrow> x = row" and "y \<in> set (db_subscribers (confirmed_db now (s_id row) d))"
    and "s_token_hash y = Some h"
  shows "s_status y \<noteq> Pending"
  using assms by (auto simp: confirmed_db_def set_update_where confirmed_row_def split: if_splits)

text \<open>
  C10: a confirmation needs its token: the confirm form changes the database only if the posted
  token verifies for this purpose and its hash is that of a pending row, and then exactly this
  row becomes confirmed and nothing else changes.
\<close>

theorem confirm_needs_its_token:
  assumes "db_ok (io_pg (sv_io env)) (st_db (w_store wd))"
    and "outcome_value (handle_confirm_post env r (wd, w)) = (wd', w')"
    and "st_db (w_store wd') \<noteq> st_db (w_store wd)"
  shows "\<exists>raw row now. check_token env (posted_token r) purpose_confirm_subscriber = Inr raw \<and>
    row \<in> set (db_subscribers (st_db (w_store wd))) \<and> s_status row = Pending \<and>
    s_token_hash row = Some (hash_raw_token env raw) \<and>
    st_db (w_store wd') = confirmed_db now (s_id row) (st_db (w_store wd))"
proof -
  let ?s = "w_store wd"
  obtain raw where raw: "check_token env (posted_token r) purpose_confirm_subscriber = Inr raw"
    using assms(2,3)
    by (auto simp: handle_confirm_post_outcome confirm_body_def Let_def split: if_splits sum.splits)
  obtain res s' where run: "with_tx (sv_io env) (confirm_txn (hash_raw_token env raw)) ?s = (res, s')" by fastforce
  have s': "st_db (w_store wd') = st_db s'"
    using assms(2,3) raw run
    by (auto simp: handle_confirm_post_outcome confirm_body_def Let_def split: if_splits sum.splits)
  obtain q k x where "q_ident q = IdService" "confirm_txn (hash_raw_token env raw) q k (st_db ?s) = Inr (x, st_db s')"
    using service.all_or_nothing [of "sv_io env" "confirm_txn (hash_raw_token env raw)" ?s] run assms(3) s' by auto
  from confirm_txn_some [OF this(1) assms(1) this(2)] raw s' show ?thesis by metis
qed

text \<open>
  C11: a confirm link works, and once: while its token is live, posting it confirms the pending
  row it was made for (the only row with this hash), with status 200; every later post of the
  same token, to any server with the same key, is answered 400 and changes nothing.
\<close>

theorem confirm_link_works_once:
  assumes "issue (sv_hmac env) t0 (sv_signer env) purpose_confirm_subscriber raw expires = Inr tok"
    and "token_live expires (sv_time env)" and "posted_token r = tok" and "rw_sent w = None"
    and "io_fault (sv_io env) (st_count (w_store wd)) = None"
    and "db_ok (io_pg (sv_io env)) (st_db (w_store wd))"
    and "row \<in> set (db_subscribers (st_db (w_store wd)))" "s_token_hash row = Some (hash_raw_token env raw)" "s_status row = Pending"
    and "\<forall>x\<in>set (db_subscribers (st_db (w_store wd))). s_token_hash x = s_token_hash row \<longrightarrow> x = row"
  shows "\<exists>wd' w'. handle_confirm_post env r (wd, w) = Done (wd', w') \<and> rw_status w' = 200 \<and>
    st_db (w_store wd') =
      confirmed_db (io_now (sv_io env) (st_count (w_store wd))) (s_id row) (st_db (w_store wd)) \<and>
    (\<forall>env2 r2 w2. sv_hmac env2 = sv_hmac env \<longrightarrow> sv_signer env2 = sv_signer env \<longrightarrow> sv_sha256 env2 = sv_sha256 env \<longrightarrow>
       posted_token r2 = tok \<longrightarrow> rw_sent w2 = None \<longrightarrow>
       (\<exists>wd'' w''. handle_confirm_post env2 r2 (wd', w2) = Done (wd'', w'') \<and> rw_status w'' = 400 \<and>
          st_db (w_store wd'') = st_db (w_store wd')))"
proof -
  have ok: "check_token env (posted_token r) purpose_confirm_subscriber = Inr raw"
    using tok.issued_accepted [OF assms(1,2)] assms(3) by (simp add: check_token_def)
  obtain s' w' where body: "confirm_body env r (w_store wd, w) = Done (s', w')" "rw_status w' = 200"
      "st_db s' = confirmed_db (io_now (sv_io env) (st_count (w_store wd))) (s_id row) (st_db (w_store wd))"
    using confirm_accepted [OF ok assms(4-10)] by blast
  have used: "\<exists>s'' w''. confirm_body env2 r2 (s', w2) = Done (s'', w'') \<and> rw_status w'' = 400 \<and> st_db s'' = st_db s'"
    if same: "sv_hmac env2 = sv_hmac env" "sv_signer env2 = sv_signer env" "sv_sha256 env2 = sv_sha256 env"
      and post: "posted_token r2 = tok" "rw_sent w2 = None" for env2 r2 w2
  proof (rule confirm_refused [OF post(2)])
    fix raw2 y
    assume v: "check_token env2 (posted_token r2) purpose_confirm_subscriber = Inr raw2"
      and y: "y \<in> set (db_subscribers (st_db s'))" "s_token_hash y = Some (hash_raw_token env2 raw2)"
    have "raw2 = raw"
      using tok.one_subject [OF ok [unfolded check_token_def]] v same post assms(3) by (simp add: check_token_def)
    then show "s_status y \<noteq> Pending"
      using confirmed_db_used [of "st_db (w_store wd)" "hash_raw_token env raw" row] y body(3) assms(8,10) same(3)
      by (simp add: hash_raw_token_def)
  qed
  then show ?thesis
    using body by (simp add: handle_confirm_post_outcome) (metis (no_types, lifting) outcome.case(1) prod.case world.select_convs(1) world.surjective world.update_convs(1))
qed

lemma alphabet_visible: "list_all visible url_alphabet"
  by code_simp

text \<open>An issued token has nothing to trim, so a form that carries it posts it.\<close>

lemma issued_token_trimmed:
  assumes "issue hmac t0 s p sub e = Inr tok"
  shows "trim_space tok = tok" and "tok \<noteq> ''''"
proof -
  obtain bs where tok: "tok = b64_encode bs" "b64_decode tok = Some bs" "bs \<noteq> []"
    using assms by (auto simp: issue_def Let_def b64_decode_encode token_payload_def split: if_splits)
  then show ne: "tok \<noteq> ''''" by (auto simp: b64_decode_def)
  have "visible c" if "c \<in> set tok" for c
    using that tok(1) b64_encode_alphabet [of bs] alphabet_visible by (auto simp: list_all_iff)
  with ne show "trim_space tok = tok" by (intro trim_space_visible) simp_all
qed

definition sample_form :: "string \<Rightarrow> request" where
  "sample_form tok = (sample_post '''' None)\<lparr>rq_form := (\<lambda>k. tok)\<rparr>"

lemma sample_form_posts: "issue hmac t0 s p sub e = Inr tok \<Longrightarrow> posted_token (sample_form tok) = tok"
  using issued_token_trimmed [of hmac t0 s p sub e tok]
  by (simp add: posted_token_def sample_form_def sample_post_def)

definition sample_linked :: subscriber where
  "sample_linked = (sample_row 1 ''ann@example.org'')\<lparr>s_token_hash := Some (hash_raw_token sample_subs_env (replicate 32 1))\<rparr>"

definition sample_wd :: "subscriber list \<Rightarrow> world" where
  "sample_wd rs = sample_world\<lparr>w_store := \<lparr>st_db = sample_db rs, st_count = 2\<rparr>\<rparr>"

lemma sample_linked_ok: "db_ok sample_pg (sample_db [sample_linked])"
  by (simp add: db_ok_def subscriber_ok_def pending_clean_constraint_def sample_linked_def sample_defs proposed_row_def)

lemma sample_linked_simps [simp]:
  "s_status sample_linked = Pending" "s_id sample_linked = 1"
  "s_token_hash sample_linked = Some (hash_raw_token sample_subs_env (replicate 32 1))"
  "st_db (w_store (sample_wd rs)) = sample_db rs" "st_count (w_store (sample_wd rs)) = 2"
  by (simp_all add: sample_linked_def sample_row_def proposed_row_def sample_wd_def)

lemma sample_env_pg [simp]:
  "io_pg (sv_io sample_subs_env) = sample_pg" "io_fault (sv_io sample_subs_env) n = None"
  "io_now (sv_io sample_subs_env) n = int n * second"
  by (simp_all add: sample_subs_env_def sample_io_def)

lemma sample_live: "token_live (5 * second + 7 * day) (sv_time sample_subs_env)"
  by (simp add: token_live_def expiry_seconds_def unix_seconds_def day_def minute_def second_def zero_time_def sample_subs_env_def)

lemma sample_confirm_token:
  "\<exists>tok. issue (sv_hmac sample_subs_env) 0 (sv_signer sample_subs_env) purpose_confirm_subscriber (replicate 32 1)
     (5 * second + 7 * day) = Inr tok"
  by (simp add: issue_def Let_def)

lemma confirm_link_works_once_witness:
  "\<exists>r wd' w'. handle_confirm_post sample_subs_env r (sample_wd [sample_linked], new_rw) = Done (wd', w') \<and>
     rw_status w' = 200 \<and> st_db (w_store wd') = confirmed_db (2 * second) 1 (sample_db [sample_linked])"
proof -
  obtain tok where tok: "issue (sv_hmac sample_subs_env) 0 (sv_signer sample_subs_env) purpose_confirm_subscriber
      (replicate 32 1) (5 * second + 7 * day) = Inr tok" using sample_confirm_token by blast
  show ?thesis
    using confirm_link_works_once [OF tok sample_live sample_form_posts [OF tok] new_rw_simps(1),
        of "sample_wd [sample_linked]" sample_linked] sample_linked_ok
    by (intro exI [of _ "sample_form tok"]) auto
qed

lemma confirm_needs_its_token_witness:
  "\<exists>r. check_token sample_subs_env (posted_token r) purpose_confirm_subscriber = Inr (replicate 32 1)"
proof -
  obtain tok where tok: "issue (sv_hmac sample_subs_env) 0 (sv_signer sample_subs_env) purpose_confirm_subscriber
      (replicate 32 1) (5 * second + 7 * day) = Inr tok" using sample_confirm_token by blast
  note post = sample_form_posts [OF tok]
  have check: "check_token sample_subs_env (posted_token (sample_form tok)) purpose_confirm_subscriber = Inr (replicate 32 1)"
    using tok.issued_accepted [OF tok sample_live] post by (simp add: check_token_def)
  let ?w = "sample_wd [sample_linked]"
  obtain s' w' where body: "confirm_body sample_subs_env (sample_form tok) (w_store ?w, new_rw) = Done (s', w')"
      "st_db s' = confirmed_db (2 * second) 1 (sample_db [sample_linked])"
    using confirm_accepted [OF check new_rw_simps(1), of "w_store ?w" sample_linked] sample_linked_ok by auto
  have out: "outcome_value (handle_confirm_post sample_subs_env (sample_form tok) (?w, new_rw)) = (?w\<lparr>w_store := s'\<rparr>, w')"
    using body(1) by (simp add: handle_confirm_post_outcome)
  have "s_status (confirmed_row (2 * second) sample_linked) \<noteq> s_status sample_linked" by (simp add: row_simps)
  then have "confirmed_row (2 * second) sample_linked \<noteq> sample_linked" by metis
  then have "db_subscribers (st_db (w_store (?w\<lparr>w_store := s'\<rparr>))) \<noteq> db_subscribers (st_db (w_store ?w))"
    using body(2) by (simp add: confirmed_db_def)
  then have changed: "st_db (w_store (?w\<lparr>w_store := s'\<rparr>)) \<noteq> st_db (w_store ?w)" by metis
  have ok: "db_ok (io_pg (sv_io sample_subs_env)) (st_db (w_store ?w))" using sample_linked_ok by simp
  from confirm_needs_its_token [OF ok out changed] check show ?thesis by auto
qed

definition unsubscribed_db :: "time \<Rightarrow> uuid \<Rightarrow> db \<Rightarrow> db" where
  "unsubscribed_db now i d = d\<lparr>db_subscribers :=
     update_where (\<lambda>r. s_id r = i \<and> s_status r \<noteq> Unsubscribed) (unsubscribed_row now) (db_subscribers d)\<rparr>"

lemma unsubscribe_accepted:
  assumes "check_token env (posted_token r) purpose_unsubscribe_subscriber = Inr subject"
    and "sv_uuid_scan env (string_of_bytes subject) = Some i" and "rw_sent w = None"
    and "io_fault (sv_io env) (st_count s) = None"
  shows "\<exists>s' w'. unsubscribe_body env r (s, w) = Done (s', w') \<and> rw_status w' = 200 \<and>
    st_db s' = unsubscribed_db (io_now (sv_io env) (st_count s)) i (st_db s)"
proof -
  let ?q = "txn_ctx (sv_io env) IdService (st_count s)" and ?d = "unsubscribed_db (io_now (sv_io env) (st_count s)) i (st_db s)"
  let ?n = "int (length (filter (\<lambda>r. s_id r = i \<and> s_status r \<noteq> Unsubscribed) (db_subscribers (st_db s))))"
  have "q_ident ?q = IdService" by simp
  then have "unsubscribe_by_id ?q i (st_db s) = Inr (?n, ?d)"
    unfolding unsubscribe_by_id_def unsubscribed_db_def by (simp only: exec_update_service txn_ctx_simps)
  then have "with_tx (sv_io env) (\<lambda>q k. unsubscribe_by_id q i) s = (Inr ?n, s\<lparr>st_count := st_count s + 1, st_db := ?d\<rparr>)"
    unfolding with_tx_def run_txn_ok [OF assms(4)] by (simp only: sum.case prod.case)
  then show ?thesis
    using assms(3) check_token_nonempty [OF assms(1)]
    by (simp add: unsubscribe_body_def Let_def assms(1,2) rw_simps)
qed

lemma handle_unsubscribe_post_outcome:
  "handle_unsubscribe_post env r (wd, w) =
     (case unsubscribe_body env r (w_store wd, w) of
        Done (s, w') \<Rightarrow> Done (wd\<lparr>w_store := s\<rparr>, w') | Panicked (s, w') \<Rightarrow> Panicked (wd\<lparr>w_store := s\<rparr>, w'))"
  by (simp add: handle_unsubscribe_post_def on_store_def)

lemma unsubscribed_db_facts:
  "r \<in> set (db_subscribers (unsubscribed_db now i d)) \<Longrightarrow> s_id r = i \<Longrightarrow> s_status r = Unsubscribed"
  "unsubscribed_db now' i (unsubscribed_db now i d) = unsubscribed_db now i d"
proof -
  show settled: "s_status r = Unsubscribed" if a: "r \<in> set (db_subscribers (unsubscribed_db now i d))" "s_id r = i" for r
  proof -
    have "r \<in> set (update_where (\<lambda>r. s_id r = i \<and> s_status r \<noteq> Unsubscribed) (unsubscribed_row now) (db_subscribers d))"
      using a(1) by (simp add: unsubscribed_db_def)
    then show ?thesis using a(2) by (cases rule: update_where_cases) (auto simp: row_simps)
  qed
  have "update_where (\<lambda>r. s_id r = i \<and> s_status r \<noteq> Unsubscribed) (unsubscribed_row now')
      (db_subscribers (unsubscribed_db now i d)) = db_subscribers (unsubscribed_db now i d)"
    by (rule update_where_none) (use settled in blast)
  then show "unsubscribed_db now' i (unsubscribed_db now i d) = unsubscribed_db now i d"
    by (subst unsubscribed_db_def) simp
qed


text \<open>
  The two links cannot be exchanged: a token that the confirm form accepts is refused by
  the unsubscribe form with 400, one that the unsubscribe form accepts by the confirm form, and
  nothing changes, whatever the clock says.
\<close>

theorem links_are_not_interchangeable:
  assumes "rw_sent w = None"
    and "sv_hmac env2 = sv_hmac env" and "sv_signer env2 = sv_signer env" and "posted_token r2 = posted_token r"
  shows "(check_token env (posted_token r) purpose_confirm_subscriber = Inr raw \<longrightarrow>
      (\<exists>w'. handle_unsubscribe_post env2 r2 (wd, w) = Done (wd, w') \<and> rw_status w' = 400)) \<and>
    (check_token env (posted_token r) purpose_unsubscribe_subscriber = Inr raw \<longrightarrow>
      (\<exists>w'. handle_confirm_post env2 r2 (wd, w) = Done (wd, w') \<and> rw_status w' = 400))"
proof -
  have refused: "\<exists>e. check_token env2 (posted_token r2) q = Inl e"
    if v: "check_token env (posted_token r) p = Inr raw" and pq: "purpose_byte p \<noteq> purpose_byte q" for p q
  proof (cases "check_token env2 (posted_token r2) q")
    case (Inr raw')
    then show ?thesis
      using tok.one_purpose [OF v [unfolded check_token_def]] pq assms(2-4) by (auto simp: check_token_def)
  qed simp
  show ?thesis
  proof (intro conjI impI)
    assume "check_token env (posted_token r) purpose_confirm_subscriber = Inr raw"
    from refused [OF this, of purpose_unsubscribe_subscriber] check_token_nonempty [OF this] assms(1,4)
    show "\<exists>w'. handle_unsubscribe_post env2 r2 (wd, w) = Done (wd, w') \<and> rw_status w' = 400"
      by (auto simp: handle_unsubscribe_post_outcome unsubscribe_body_def Let_def rw_simps)
  next
    assume "check_token env (posted_token r) purpose_unsubscribe_subscriber = Inr raw"
    from refused [OF this, of purpose_confirm_subscriber] check_token_nonempty [OF this] assms(1,4)
    show "\<exists>w'. handle_confirm_post env2 r2 (wd, w) = Done (wd, w') \<and> rw_status w' = 400"
      by (auto simp: handle_confirm_post_outcome confirm_body_def Let_def rw_simps)
  qed
qed

lemma sample_unsubscribe_token:
  "\<exists>tok. issue (sv_hmac sample_subs_env) 0 (sv_signer sample_subs_env) purpose_unsubscribe_subscriber
     (bytes_of_string (sv_uuid_text sample_subs_env 1)) (5 * second + 7 * day) = Inr tok"
  by (simp add: issue_def Let_def)


lemma links_are_not_interchangeable_witness:
  "\<exists>r w'. handle_unsubscribe_post sample_subs_env r (sample_wd [], new_rw) = Done (sample_wd [], w') \<and> rw_status w' = 400"
proof -
  obtain tok where tok: "issue (sv_hmac sample_subs_env) 0 (sv_signer sample_subs_env) purpose_confirm_subscriber
      (replicate 32 1) (5 * second + 7 * day) = Inr tok" using sample_confirm_token by blast
  have "check_token sample_subs_env (posted_token (sample_form tok)) purpose_confirm_subscriber = Inr (replicate 32 1)"
    using tok.issued_accepted [OF tok sample_live] sample_form_posts [OF tok] by (simp add: check_token_def)
  with links_are_not_interchangeable [OF new_rw_simps(1) refl refl refl] show ?thesis by blast
qed

section \<open>The pages\<close>

lemma join_part: "x \<in> set ps \<Longrightarrow> sublist x (join sep ps)"
proof -
  have rest: "sublist x (concat (map (\<lambda>q. sep @ q) qs))" if "x \<in> set qs" for qs
    using that
  proof (induction qs)
    case (Cons q qs)
    then show ?case by (auto simp: sublist_append)
  qed simp
  assume "x \<in> set ps"
  with rest show ?thesis by (cases ps) (auto simp: join_def sublist_append)
qed

definition token_field :: "string \<Rightarrow> string" where
  \<open>token_field tok = ''<input type="hidden" name="token" value="'' @ tok @ ''">''\<close>

lemma interstitial_field: "sublist (token_field (html_escape tok)) (render_interstitial title body button path tok)"
  unfolding render_interstitial_def token_field_def
  by (rule join_part) (simp only: list.set insert_iff simp_thms)

text \<open>What a GET of a link answers.\<close>

definition page_answers :: "subs_env \<Rightarrow> purpose \<Rightarrow> request \<Rightarrow> rw \<Rightarrow> rw \<Rightarrow> bool" where
  "page_answers env p r w w' \<longleftrightarrow>
     (let tok = trim_space (rq_query r ''token'') in
      if \<exists>raw. check_token env tok p = Inr raw
      then rw_status w' = 200 \<and> (\<exists>page. rw_body w' = rw_body w @ [HtmlBody page] \<and> sublist (token_field tok) page)
      else rw_status w' = 400 \<and> (\<exists>msg. rw_body w' = rw_body w @ [HtmlBody (render_error msg)]))"

lemma page_answer:
  assumes "rw_sent w = None"
  shows "\<exists>w'. handle_confirm_get env r (wd, w) = Done (wd, w') \<and> page_answers env purpose_confirm_subscriber r w w'"
    and "\<exists>w'. handle_unsubscribe_get env r (wd, w) = Done (wd, w') \<and> page_answers env purpose_unsubscribe_subscriber r w w'"
proof -
  let ?tok = "trim_space (rq_query r ''token'')"
  have field: "sublist (token_field ?tok) (render_interstitial title body button path ?tok)"
    if "check_token env ?tok p = Inr raw" for p raw title body button path
    using interstitial_field [of ?tok] verified_token_plain [OF that] by simp
  show "\<exists>w'. handle_confirm_get env r (wd, w) = Done (wd, w') \<and> page_answers env purpose_confirm_subscriber r w w'"
    using assms by (cases "check_token env ?tok purpose_confirm_subscriber")
      (auto simp: handle_confirm_get_def page_answers_def Let_def rw_simps dest: check_token_nonempty intro: field)
  show "\<exists>w'. handle_unsubscribe_get env r (wd, w) = Done (wd, w') \<and> page_answers env purpose_unsubscribe_subscriber r w w'"
    using assms by (cases "check_token env ?tok purpose_unsubscribe_subscriber")
      (auto simp: handle_unsubscribe_get_def page_answers_def Let_def rw_simps dest: check_token_nonempty intro: field)
qed

text \<open>
  Opening a link changes nothing, whoever opens it (a mail scanner, say): the GET pages
  leave the state alone, answer 200 exactly if the token verifies for the link's purpose, and
  then the page's form carries the token unaltered; and no text put into a page can contain a
  quote or an angle bracket.
\<close>

theorem pages_change_nothing:
  assumes "rw_sent w = None"
  shows "(\<exists>w'. handle_confirm_get env r (wd, w) = Done (wd, w') \<and>
      page_answers env purpose_confirm_subscriber r w w') \<and>
    (\<exists>w'. handle_unsubscribe_get env r (wd, w) = Done (wd, w') \<and>
      page_answers env purpose_unsubscribe_subscriber r w w') \<and>
    set (html_escape s) \<inter> {CHR ''<'', CHR ''>'', CHR 0x22, CHR 0x27} = {}"
  using page_answer [OF assms] html_escape_clean by blast

lemma pages_change_nothing_witness:
  "\<exists>w'. handle_confirm_get sample_subs_env (sample_post '''' None) (sample_world, new_rw) = Done (sample_world, w')"
  using pages_change_nothing [OF new_rw_simps(1)] by blast

section \<open>Resending the confirmation\<close>

text \<open>What the resend transaction does: it renews the token of the pending row it read.\<close>

lemma resend_txn_effect:
  assumes "q_ident q = IdService" and "db_ok pg d" and "q_pg q = pg" and "resend_txn i h t q k d = Inr (email, d')"
  obtains row where "row \<in> set (db_subscribers d)" "s_id row = i" "s_status row = Pending" "email = s_email row"
    "d' = d\<lparr>db_subscribers := update_where (\<lambda>r. r = row) (refreshed_row q \<lparr>up_email = s_email row,
       up_token_hash = h, up_expires = t, up_source = s_source row, up_user_id = None\<rparr>) (db_subscribers d)\<rparr>"
proof -
  obtain row where get: "get_subscriber_by_id q i d = Inr (row, d)" "s_status row = Pending" "email = s_email row"
    and up: "\<exists>r. upsert_pending_subscriber q k \<lparr>up_email = s_email row, up_token_hash = h, up_expires = t,
      up_source = s_source row, up_user_id = None\<rparr> d = Inr (r, d')"
    using assms(4) by (auto simp: resend_txn_def query_iff dest: reads_keep_db(2) split: if_splits)
  have row: "row \<in> set (db_subscribers d)" "s_id row = i"
    using subscriber_reads_visible(2) [OF get(1)] by (auto simp: visible_rows)
  obtain r where "upsert_pending_subscriber q k \<lparr>up_email = s_email row, up_token_hash = h, up_expires = t,
      up_source = s_source row, up_user_id = None\<rparr> d = Inr (r, d')" using up by blast
  then show thesis
  proof (cases rule: upsert_effect)
    case inserted
    then show ?thesis using row(1) by (auto simp: email_match_def)
  next
    case (refreshed old)
    have "old = row"
      using distinct_keys_eq [OF db_ok_dest(2) [OF assms(2)] refreshed(1) row(1)] refreshed(2) assms(3)
      by (simp add: email_match_def)
    with refreshed(5) row get(2,3) that show ?thesis by blast
  qed
qed

lemma enqueue_appends:
  assumes "enqueue io kind to_email payload st = (Inr n, st')"
  shows "\<exists>x. db_notifications (st_db st') = db_notifications (st_db st) @ [x] \<and> n_kind x = kind \<and>
      n_to_email x = to_email \<and> n_payload x = payload \<and> n_status x = NPending"
    and "db_subscribers (st_db st') = db_subscribers (st_db st)"
proof -
  obtain q k where "enqueue_notification q k kind to_email payload (st_db st) = Inr (n, st_db st')"
    using service.run_ok [OF assms [unfolded enqueue_def]] by blast
  then have eff: "st_db st' = (st_db st)\<lparr>db_notifications := db_notifications (st_db st) @ [fresh_notification q k kind to_email payload]\<rparr>"
    by (simp add: enqueue_iff)
  show "\<exists>x. db_notifications (st_db st') = db_notifications (st_db st) @ [x] \<and> n_kind x = kind \<and>
      n_to_email x = to_email \<and> n_payload x = payload \<and> n_status x = NPending"
    unfolding eff by (intro exI [of _ "fresh_notification q k kind to_email payload"]) simp
  show "db_subscribers (st_db st') = db_subscribers (st_db st)" by (simp add: eff)
qed

lemma enqueue_confirm_effect:
  assumes "enqueue_confirm env d i s = (None, s')"
  obtains tok email unsub s1 n where
    "issue (sv_hmac env) (sv_time env) (sv_signer env) purpose_confirm_subscriber (sv_random env) (sv_now env + dp_confirm_ttl d) = Inr tok"
    "with_tx (sv_io env) (resend_txn i (hash_raw_token env (sv_random env)) (sv_now env + dp_confirm_ttl d)) s = (Inr email, s1)"
    "unsubscribe_url env d i = Inr unsub"
    "enqueue (sv_io env) kind_confirm_email email (encode_confirm_payload
       \<lparr>cp_confirm_url = build_url env d ''/v1/subscribers/confirm'' ''token'' tok, cp_unsubscribe_url = unsub\<rparr>) s1 = (Inr n, s')"
  using assms
  by (auto simp: enqueue_confirm_def Let_def new_confirm_token_def hash_raw_token_def issue_token_def
      split: sum.splits prod.splits)

text \<open>Posting the live token of a pending row's link confirms that row.\<close>

lemma live_link_confirms:
  assumes "issue (sv_hmac env) t0 (sv_signer env) purpose_confirm_subscriber raw e = Inr tok"
    and "token_live e t" and "posted_token r = tok" and "rw_sent w = None"
    and "io_fault (sv_io env) (st_count (w_store wd)) = None" and "db_ok (io_pg (sv_io env)) (st_db (w_store wd))"
    and "row \<in> set (db_subscribers (st_db (w_store wd)))" "s_token_hash row = Some (hash_raw_token env raw)"
      "s_status row = Pending"
    and "\<forall>x\<in>set (db_subscribers (st_db (w_store wd))). s_token_hash x = s_token_hash row \<longrightarrow> x = row"
  shows "\<exists>wd' w' y. handle_confirm_post (env\<lparr>sv_time := t\<rparr>) r (wd, w) = Done (wd', w') \<and> rw_status w' = 200 \<and>
    y \<in> set (db_subscribers (st_db (w_store wd'))) \<and> s_id y = s_id row \<and> s_email y = s_email row \<and> s_status y = Confirmed"
proof -
  let ?env = "env\<lparr>sv_time := t\<rparr>" and ?s = "w_store wd"
  have "check_token ?env (posted_token r) purpose_confirm_subscriber = Inr raw"
    using tok.issued_accepted [OF assms(1,2)] assms(3) by (simp add: check_token_def)
  moreover have "io_fault (sv_io ?env) (st_count ?s) = None" "db_ok (io_pg (sv_io ?env)) (st_db ?s)"
    "s_token_hash row = Some (hash_raw_token ?env raw)"
    using assms(5,6,8) by (simp_all add: hash_raw_token_def)
  ultimately have "\<exists>s'' w'. confirm_body ?env r (?s, w) = Done (s'', w') \<and> rw_status w' = 200 \<and>
      st_db s'' = confirmed_db (io_now (sv_io ?env) (st_count ?s)) (s_id row) (st_db ?s)"
    using assms(4,7,9,10) by (intro confirm_accepted)
  then obtain s'' w' where c: "confirm_body ?env r (?s, w) = Done (s'', w')" "rw_status w' = 200"
      "st_db s'' = confirmed_db (io_now (sv_io env) (st_count ?s)) (s_id row) (st_db ?s)"
    by auto
  let ?y = "confirmed_row (io_now (sv_io env) (st_count ?s)) row"
  have "?y \<in> set (db_subscribers (st_db s''))"
    using assms(7,9) by (force simp: c(3) confirmed_db_def set_update_where)
  moreover have "s_id ?y = s_id row" "s_email ?y = s_email row" "s_status ?y = Confirmed"
    by (simp_all only: row_simps)
  moreover have "handle_confirm_post ?env r (wd, w) = Done (wd\<lparr>w_store := s''\<rparr>, w')"
    using c(1) by (simp add: handle_confirm_post_outcome)
  ultimately show ?thesis
    using c(2) by (intro exI [of _ "wd\<lparr>w_store := s''\<rparr>"] exI [of _ w'] exI [of _ ?y]) simp
qed

text \<open>
  C9: The mail that a resend queues carries a link that works: after a successful
  \<open>EnqueueConfirm\<close> the queue ends in a pending confirmation mail to the subscriber's address, and
  posting the token in its link, while it is live, confirms that subscriber. (The random bytes
  are new: no row has their hash yet.)
\<close>

theorem resent_link_confirms:
  assumes "enqueue_confirm env d i s = (None, s')" and "db_ok (io_pg (sv_io env)) (st_db s)"
    and "\<forall>x\<in>set (db_subscribers (st_db s)). s_token_hash x \<noteq> Some (hash_raw_token env (sv_random env))"
  shows "\<exists>row tok unsub x. row \<in> set (db_subscribers (st_db s)) \<and> s_id row = i \<and> s_status row = Pending \<and>
    db_notifications (st_db s') = db_notifications (st_db s) @ [x] \<and> n_kind x = kind_confirm_email \<and>
    n_to_email x = s_email row \<and> n_status x = NPending \<and>
    n_payload x = encode_confirm_payload
      \<lparr>cp_confirm_url = build_url env d ''/v1/subscribers/confirm'' ''token'' tok, cp_unsubscribe_url = unsub\<rparr> \<and>
    (\<forall>t r wd w. token_live (sv_now env + dp_confirm_ttl d) t \<longrightarrow> posted_token r = tok \<longrightarrow> w_store wd = s' \<longrightarrow>
       io_fault (sv_io env) (st_count s') = None \<longrightarrow> rw_sent w = None \<longrightarrow>
       (\<exists>wd' w' y. handle_confirm_post (env\<lparr>sv_time := t\<rparr>) r (wd, w) = Done (wd', w') \<and> rw_status w' = 200 \<and>
          y \<in> set (db_subscribers (st_db (w_store wd'))) \<and> s_id y = i \<and> s_email y = s_email row \<and> s_status y = Confirmed))"
proof -
  let ?raw = "sv_random env" and ?e = "sv_now env + dp_confirm_ttl d"
  let ?h = "hash_raw_token env ?raw" and ?pg = "io_pg (sv_io env)"
  obtain tok email unsub s1 n where
    tok: "issue (sv_hmac env) (sv_time env) (sv_signer env) purpose_confirm_subscriber ?raw ?e = Inr tok" and
    tx: "with_tx (sv_io env) (resend_txn i ?h ?e) s = (Inr email, s1)" and
    enq: "enqueue (sv_io env) kind_confirm_email email (encode_confirm_payload
       \<lparr>cp_confirm_url = build_url env d ''/v1/subscribers/confirm'' ''token'' tok, cp_unsubscribe_url = unsub\<rparr>) s1 = (Inr n, s')"
    by (rule enqueue_confirm_effect [OF assms(1)])
  obtain q k where q: "q_ident q = IdService" "q_pg q = ?pg" "resend_txn i ?h ?e q k (st_db s) = Inr (email, st_db s1)"
    using service.run_ok [OF tx] by auto
  obtain row where row: "row \<in> set (db_subscribers (st_db s))" "s_id row = i" "s_status row = Pending" "email = s_email row"
    and s1: "st_db s1 = (st_db s)\<lparr>db_subscribers := update_where (\<lambda>r. r = row) (refreshed_row q \<lparr>up_email = s_email row,
       up_token_hash = ?h, up_expires = ?e, up_source = s_source row, up_user_id = None\<rparr>) (db_subscribers (st_db s))\<rparr>"
    using resend_txn_effect [OF q(1) assms(2) q(2,3)] by metis
  let ?new = "refreshed_row q \<lparr>up_email = s_email row, up_token_hash = ?h, up_expires = ?e,
      up_source = s_source row, up_user_id = None\<rparr> row"
  have subs: "db_subscribers (st_db s') = db_subscribers (st_db s1)" by (rule enqueue_appends(2) [OF enq])
  have new: "?new \<in> set (db_subscribers (st_db s'))" "s_token_hash ?new = Some ?h" "s_status ?new = Pending"
    "s_id ?new = i" "s_email ?new = s_email row"
    using row by (auto simp: subs s1 set_update_where refreshed_row_def)
  have only: "\<forall>x\<in>set (db_subscribers (st_db s')). s_token_hash x = s_token_hash ?new \<longrightarrow> x = ?new"
    using assms(3) new(2) by (auto simp: subs s1 elim!: update_where_cases)
  have ok: "db_ok ?pg (st_db s')"
    using db_runs_ok [OF db_runs_trans [OF with_tx_runs [OF txn_runs(5) tx] enqueue_runs [OF enq]]] assms(2) by simp
  have confirms: "\<exists>wd' w' y. handle_confirm_post (env\<lparr>sv_time := t\<rparr>) r (wd, w) = Done (wd', w') \<and> rw_status w' = 200 \<and>
      y \<in> set (db_subscribers (st_db (w_store wd'))) \<and> s_id y = i \<and> s_email y = s_email row \<and> s_status y = Confirmed"
    if a: "token_live ?e t" "posted_token r = tok" "w_store wd = s'" "io_fault (sv_io env) (st_count s') = None" "rw_sent w = None"
    for t r wd w
  proof -
    note live = live_link_confirms [OF tok a(1,2,5), of wd ?new, unfolded a(3)]
    show ?thesis using live [OF a(4) ok new(1-3) only] unfolding new(4,5) .
  qed
  have "db_notifications (st_db s1) = db_notifications (st_db s)" by (simp add: s1)
  with enqueue_appends(1) [OF enq] row(4) obtain x where
    "db_notifications (st_db s') = db_notifications (st_db s) @ [x]" "n_kind x = kind_confirm_email"
    "n_to_email x = s_email row" "n_status x = NPending" "n_payload x = encode_confirm_payload
      \<lparr>cp_confirm_url = build_url env d ''/v1/subscribers/confirm'' ''token'' tok, cp_unsubscribe_url = unsub\<rparr>" by metis
  with row(1-3) confirms show ?thesis by blast
qed

lemma sample_resend:
  "\<exists>d'. resend_txn 1 h t (txn_ctx sample_io IdService 2) 2 (sample_db [sample_row 1 ''ann@example.org'']) =
     Inr (''ann@example.org'', d') \<and> db_notifications d' = []"
proof -
  let ?r = "sample_row 1 ''ann@example.org''"
  have r: "s_id ?r = 1" "s_email ?r = ''ann@example.org''" "s_source ?r = None" "s_user_id ?r = Some 7"
    by (simp_all add: sample_row_def proposed_row_def sample_params_def)
  have "utf8_valid ''ann@example.org''" by (rule utf8_valid_ascii) (simp add: is_ascii_def)
  then show ?thesis
    using r
    by (simp add: resend_txn_def q_bind_def on_no_rows_def q_return_def get_subscriber_by_id_def visible_subscribers_def
        one_row_def upsert_pending_subscriber_def with_text_def pg_text_def opt_text_def email_match_def refreshed_row_def
        Let_def)
qed

lemma resent_link_confirms_witness:
  "\<exists>s' x. enqueue_confirm sample_subs_env sample_deps 1 \<lparr>st_db = sample_db [sample_row 1 ''ann@example.org''], st_count = 2\<rparr> = (None, s') \<and>
     db_notifications (st_db s') = [x] \<and> n_to_email x = ''ann@example.org''"
proof -
  let ?s = "\<lparr>st_db = sample_db [sample_row 1 ''ann@example.org''], st_count = 2\<rparr>" and ?env = sample_subs_env and ?d = sample_deps
  let ?h = "hash_raw_token ?env (sv_random ?env)" and ?t = "sv_now ?env + dp_confirm_ttl ?d"
  have io: "sv_io ?env = sample_io" "io_uuid sample_io n = word_of_nat n" "io_fault sample_io n = None" for n
    by (simp_all add: sample_subs_env_def sample_io_def)
  obtain tok where tok: "issue_token ?env purpose_confirm_subscriber (sv_random ?env) ?t = Inr tok"
    using issue_token_known [of purpose_confirm_subscriber ?env "sv_random ?env" ?t] by auto
  obtain unsub where unsub: "unsubscribe_url ?env ?d 1 = Inr unsub" using unsubscribe_url_total by blast
  obtain d' where "resend_txn 1 ?h ?t (txn_ctx sample_io IdService 2) 2 (st_db ?s) = Inr (''ann@example.org'', d')"
      and d': "db_notifications d' = []"
    using sample_resend [of ?h ?t] by auto
  then have tx: "with_tx sample_io (resend_txn 1 ?h ?t) ?s = (Inr ''ann@example.org'', \<lparr>st_db = d', st_count = 3\<rparr>)"
    by (simp add: with_tx_def run_txn_ok io)
  have texts: "list_all pg_text [kind_confirm_email, ''ann@example.org'']"
    by (simp add: pg_text_def kind_confirm_email_def utf8_valid_ascii is_ascii_def)
  let ?p = "encode_confirm_payload \<lparr>cp_confirm_url = build_url ?env ?d ''/v1/subscribers/confirm'' ''token'' tok,
      cp_unsubscribe_url = unsub\<rparr>"
  have "\<exists>n s'. enqueue sample_io kind_confirm_email ''ann@example.org'' ?p \<lparr>st_db = d', st_count = 3\<rparr> = (Inr n, s')"
    using texts d' by (simp add: enqueue_def with_tx_def run_txn_ok io enqueue_notification_def with_text_def service_only_def)
  then obtain n s' where enq:
    "enqueue sample_io kind_confirm_email ''ann@example.org'' ?p \<lparr>st_db = d', st_count = 3\<rparr> = (Inr n, s')" by blast
  have ok: "enqueue_confirm ?env ?d 1 ?s = (None, s')"
    by (simp add: enqueue_confirm_def new_confirm_token_def tok unsub tx enq io(1) hash_raw_token_def [symmetric])
  have db: "db_ok (io_pg (sv_io ?env)) (st_db ?s)"
    by (simp add: db_ok_def subscriber_ok_def pending_clean_constraint_def sample_defs proposed_row_def)
  have "length ?h = 32" by (simp add: hash_raw_token_def dig.length_enc)
  moreover have "s_token_hash (sample_row 1 ''ann@example.org'') = Some [1, 2]"
    by (simp add: sample_row_def proposed_row_def sample_params_def)
  moreover have "length [1, 2 :: byte] \<noteq> 32" by simp
  ultimately have "s_token_hash (sample_row 1 ''ann@example.org'') \<noteq> Some ?h" by (metis option.inject)
  then have fresh: "\<forall>x\<in>set (db_subscribers (st_db ?s)). s_token_hash x \<noteq> Some ?h" by simp
  from resent_link_confirms [OF ok db fresh] ok show ?thesis by (auto simp: sample_row_def proposed_row_def sample_params_def)
qed

section \<open>The caller's own subscription\<close>

lemma find_filter: "find P xs = (case filter P xs of [] \<Rightarrow> None | x # _ \<Rightarrow> Some x)"
  by (induction xs) auto

lemma own_email_read:
  assumes "q = txn_ctx io (IdUser u e) n" and "pg_text e"
  shows "my_subscription_txn e q k d =
    Inr (case email_row io e d of None \<Rightarrow> ''none'' | Some row \<Rightarrow> sub_status_text (s_status row), d)"
proof -
  have "filter (email_match q e) (visible_subscribers q d) = filter (email_match q e) (db_subscribers d)"
    by (auto simp: visible_subscribers_def filter_filter email_match_def assms(1) select_subscriber_def intro!: filter_cong)
  then have "my_subscription_txn e q k d =
      (case filter (email_match q e) (db_subscribers d) of [] \<Rightarrow> Inr (''none'', d)
       | x # _ \<Rightarrow> Inr (sub_status_text (s_status x), d))"
    using assms(2) by (simp add: my_subscription_txn_def on_no_rows_def q_bind_def q_return_def get_subscriber_by_email_def
        with_text_def one_row_def split: list.split)
  moreover have "email_row io e d = find (email_match q e) (db_subscribers d)"
    by (simp add: email_row_def email_match_def [abs_def] assms(1))
  ultimately show ?thesis by (simp add: find_filter split: list.split)
qed

text \<open>
  A logged-in caller learns the status of the row with his own e-mail address, or "none" if
  there is no such row, and nothing changes; a caller without claims or without an e-mail
  address is answered 401.
\<close>

theorem my_subscription_is_own_status:
  assumes "rw_sent w = None" and "io_fault (sv_io env) (st_count (w_store wd)) = None"
    and "\<And>c. rq_claims r = Some c \<Longrightarrow> c_sub c \<noteq> '''' \<and> pg_uuid (io_pg (sv_io env)) (c_sub c) \<noteq> None \<and> pg_text (c_email c)"
  shows "\<exists>wd' w'. handle_my_subscription env r (wd, w) = Done (wd', w') \<and> st_db (w_store wd') = st_db (w_store wd) \<and>
    (case rq_claims r of
       None \<Rightarrow> answers w 401 (error_envelope CodeUnauthorized ''login required'' (request_id_from_context r)) w'
     | Some c \<Rightarrow>
         if c_email c = '''' then answers w 401 (error_envelope CodeUnauthorized ''login required'' (request_id_from_context r)) w'
         else answers w 200 (JObj [(''status'', JStr (case email_row (sv_io env) (c_email c) (st_db (w_store wd)) of
                None \<Rightarrow> ''none'' | Some row \<Rightarrow> sub_status_text (s_status row)))]) w')"
proof -
  have refused: "answers w 401 (error_envelope CodeUnauthorized ''login required'' (request_id_from_context r))
      (write_error r (unauthorized ''login required'') w)"
    using assms(1) by (simp add: answers_simps)
  show ?thesis
  proof (cases "rq_claims r")
    case None
    then show ?thesis using refused by (auto simp: handle_my_subscription_def my_subscription_body_def on_store_def)
  next
    case (Some c)
    obtain u where c: "c_sub c \<noteq> ''''" "pg_uuid (io_pg (sv_io env)) (c_sub c) = Some u" "pg_text (c_email c)"
      using assms(3) [OF Some] by auto
    let ?jc = "\<lparr>jc_sub = c_sub c, jc_email = c_email c, jc_role = ''authenticated''\<rparr>"
    let ?s = "w_store wd"
    have id: "with_user (sv_quote env) (sv_io env) ?jc (my_subscription_txn (c_email c)) ?s =
      run_txn (sv_io env) (Inr (IdUser (Some u) (c_email c))) (my_subscription_txn (c_email c)) ?s"
      using user_identity [of ?jc "sv_io env" u] c by simp
    have run: "with_user (sv_quote env) (sv_io env) ?jc (my_subscription_txn (c_email c)) ?s =
      (Inr (case email_row (sv_io env) (c_email c) (st_db ?s) of None \<Rightarrow> ''none'' | Some row \<Rightarrow> sub_status_text (s_status row)),
       ?s\<lparr>st_count := st_count ?s + 1, st_db := st_db ?s\<rparr>)"
      unfolding id run_txn_ok [OF assms(2)] own_email_read [OF refl c(3)] by simp
    show ?thesis
      using Some refused run assms(1)
      by (auto simp: handle_my_subscription_def my_subscription_body_def on_store_def answers_simps)
  qed
qed

lemma my_subscription_is_own_status_witness:
  "\<exists>wd' w'. handle_my_subscription sample_subs_env (sample_post '''' (Some sample_person)) (sample_wd [sample_linked], new_rw) = Done (wd', w') \<and>
     answers new_rw 200 (JObj [(''status'', JStr ''pending'')]) w'"
proof -
  have person: "c_sub sample_person \<noteq> ''''" "pg_uuid sample_pg (c_sub sample_person) \<noteq> None" "c_email sample_person = ''ann@example.org''"
    "pg_text (c_email sample_person)"
    by (simp_all add: sample_person_def sample_pg_def pg_text_def utf8_valid_ascii is_ascii_def)
  have row: "email_row (sv_io sample_subs_env) ''ann@example.org'' (sample_db [sample_linked]) = Some sample_linked"
    by (simp add: email_row_def sample_linked_def sample_row_def proposed_row_def sample_params_def)
  have r: "rq_claims (sample_post '''' (Some sample_person)) = Some sample_person" by (simp add: sample_post_def)
  have "c_sub c \<noteq> '''' \<and> pg_uuid (io_pg (sv_io sample_subs_env)) (c_sub c) \<noteq> None \<and> pg_text (c_email c)"
    if "rq_claims (sample_post '''' (Some sample_person)) = Some c" for c
    using that person by (simp add: r)
  from my_subscription_is_own_status [where r = "sample_post '''' (Some sample_person)" and wd = "sample_wd [sample_linked]",
      OF new_rw_simps(1) sample_env_pg(2) this]
  show ?thesis using person row by (auto simp: r)
qed

section \<open>From subscribing to confirming\<close>

lemma subscribe_new_txn:
  assumes "q_ident q = IdUser (Some u) e" and "up_user_id p = Some u"
    and "list_all pg_text (up_email p # opt_text (up_source p))"
    and "find (email_match q (up_email p)) (db_subscribers d) = None"
    and "k \<notin> s_id ` set (db_subscribers d)" and "u \<in> set (db_users d)"
  shows "subscribe_txn p q k d = Inr (Some k, d\<lparr>db_subscribers := db_subscribers d @ [proposed_row q k p]\<rparr>)"
  using upsert_user_cases [OF assms(1-3), of k d] assms(4-6)
  by (simp add: subscribe_txn_def on_no_rows_def q_bind_def q_return_def proposed_row_def)

lemma enqueue_runs_clean:
  assumes "io_fault io (st_count s) = None" and "list_all pg_text [kind, to_email]"
    and "io_uuid io (st_count s) \<notin> n_id ` set (db_notifications (st_db s))"
  shows "\<exists>i s'. enqueue io kind to_email payload s = (Inr i, s')"
proof -
  let ?q = "txn_ctx io IdService (st_count s)" and ?k = "io_uuid io (st_count s)"
  have "enqueue_notification ?q ?k kind to_email payload (st_db s) =
      Inr (?k, (st_db s)\<lparr>db_notifications := db_notifications (st_db s) @ [fresh_notification ?q ?k kind to_email payload]\<rparr>)"
    unfolding enqueue_iff using assms(2,3) by simp
  then show ?thesis by (simp add: enqueue_def with_tx_def run_txn_ok [OF assms(1)])
qed

lemma kind_text: "pg_text kind_confirm_email"
  by (simp add: pg_text_def kind_confirm_email_def utf8_valid_ascii is_ascii_def)

text \<open>What the request does: one pending row of the caller's, and one mail with a signed link.\<close>

lemma subscribed_outcome:
  assumes "rq_claims r = Some c" and "c_sub c \<noteq> ''''" and "sv_uuid_scan env (c_sub c) = Some u"
    and "pg_uuid (io_pg (sv_io env)) (c_sub c) = Some u" and "u \<in> set (db_users (st_db (w_store wd)))"
    and "decode_subscribe env r = Inr (email0, source)" and "normalize_email env email0 = Some email" and "pg_text email"
    and "throttle_check env d email (w_store wd) = (Inr False, s1)"
    and "email_row (sv_io env) email (st_db (w_store wd)) = None"
    and "\<And>n. io_fault (sv_io env) n = None"
    and "\<And>n. io_uuid (sv_io env) n \<notin> s_id ` set (db_subscribers (st_db (w_store wd)))"
    and "\<And>n. io_uuid (sv_io env) n \<notin> n_id ` set (db_notifications (st_db (w_store wd)))"
    and "db_ok (io_pg (sv_io env)) (st_db (w_store wd))"
  obtains s3 tok unsub row x where
    "issue (sv_hmac env) (sv_time env) (sv_signer env) purpose_confirm_subscriber (sv_random env)
       (sv_now env + dp_confirm_ttl d) = Inr tok"
    "handle_subscribe env d r (wd, w) = Done (wd\<lparr>w_store := s3, w_slept := w_slept wd +
       constant_time_delay (sv_start env) min_handler_latency (sv_end env)\<rparr>, write_json 202 uniform_ok w)"
    "db_subscribers (st_db s3) = db_subscribers (st_db (w_store wd)) @ [row]"
    "s_email row = email" "s_user_id row = Some u" "s_status row = Pending"
    "s_token_hash row = Some (hash_raw_token env (sv_random env))"
    "db_notifications (st_db s3) = db_notifications (st_db (w_store wd)) @ [x]"
    "n_kind x = kind_confirm_email" "n_to_email x = email" "n_status x = NPending"
    "n_payload x = encode_confirm_payload
       \<lparr>cp_confirm_url = build_url env d ''/v1/subscribers/confirm'' ''token'' tok, cp_unsubscribe_url = unsub\<rparr>"
    "db_ok (io_pg (sv_io env)) (st_db s3)"
proof -
  let ?io = "sv_io env" and ?n = "st_count s1" and ?src = "sanitize_source source" and ?raw = "sv_random env"
  let ?d0 = "st_db (w_store wd)" and ?e = "sv_now env + dp_confirm_ttl d" and ?h = "hash_raw_token env (sv_random env)"
  let ?jc = "\<lparr>jc_sub = c_sub c, jc_email = c_email c, jc_role = ''authenticated''\<rparr>"
  let ?p = "\<lparr>up_email = email, up_token_hash = ?h, up_expires = ?e, up_source = non_empty ?src, up_user_id = Some u\<rparr>"
  let ?q = "txn_ctx ?io (IdUser (Some u) (c_email c)) ?n" and ?k = "io_uuid ?io ?n"
  let ?row = "proposed_row ?q ?k ?p"
  let ?d1 = "?d0\<lparr>db_subscribers := db_subscribers ?d0 @ [?row]\<rparr>"
  define s2 where "s2 = s1\<lparr>st_count := st_count s1 + 1, st_db := ?d1\<rparr>"
  have s2: "st_db s2 = ?d1" by (simp add: s2_def)
  have s1: "st_db s1 = ?d0" by (rule throttle_keeps [OF assms(9)])
  have jc: "subscribe_identity env r = (?jc, Some u)" using assms(1-3) by (simp add: subscribe_identity_def)
  obtain tok where tok: "issue_token env purpose_confirm_subscriber ?raw ?e = Inr tok"
    using issue_token_known [of purpose_confirm_subscriber env ?raw ?e] by auto
  then have issued: "issue (sv_hmac env) (sv_time env) (sv_signer env) purpose_confirm_subscriber ?raw ?e = Inr tok"
    by (simp add: issue_token_def split: sum.splits)
  obtain unsub where unsub: "unsubscribe_url env d ?k = Inr unsub" using unsubscribe_url_total by blast
  have texts: "list_all pg_text (up_email ?p # opt_text (up_source ?p))"
    using assms(8) sanitized_text [of source] by (simp add: opt_text_def non_empty_def)
  have none: "find (email_match ?q email) (db_subscribers ?d0) = None"
    using assms(10) by (simp add: email_row_def email_match_def [abs_def])
  have txn: "subscribe_txn ?p ?q ?k ?d0 = Inr (Some ?k, ?d1)"
    using subscribe_new_txn [OF _ _ texts, of ?q u "c_email c" ?d0 ?k] none assms(5,12) by simp
  have "with_user (sv_quote env) ?io ?jc (subscribe_txn ?p) s1 =
      run_txn ?io (Inr (IdUser (Some u) (c_email c))) (subscribe_txn ?p) s1"
    using user_identity [of ?jc ?io u] assms(2,4) by simp
  also have "\<dots> = (Inr (Some ?k), s2)"
    unfolding run_txn_ok [OF assms(11)] s1 txn s2_def by simp
  finally have ins: "with_user (sv_quote env) ?io ?jc (subscribe_txn ?p) s1 = (Inr (Some ?k), s2)" .
  let ?pl = "encode_confirm_payload
      \<lparr>cp_confirm_url = build_url env d ''/v1/subscribers/confirm'' ''token'' tok, cp_unsubscribe_url = unsub\<rparr>"
  have "\<exists>i s3. enqueue ?io kind_confirm_email email ?pl s2 = (Inr i, s3)"
    using assms(8,11,13) kind_text s2 by (intro enqueue_runs_clean) simp_all
  then obtain i s3 where enq: "enqueue ?io kind_confirm_email email ?pl s2 = (Inr i, s3)" by blast
  have up: "subscribe_upsert env d r email ?src (s1, w) = Done (s3, write_json 202 uniform_ok w)"
    by (simp add: subscribe_upsert_def jc new_confirm_token_def hash_raw_token_def [symmetric] tok ins
        subscribe_enqueue_def unsub enq)
  let ?wd = "wd\<lparr>w_store := s3, w_slept := w_slept wd + constant_time_delay (sv_start env) min_handler_latency (sv_end env)\<rparr>"
  have posted: "handle_subscribe env d r (wd, w) = Done (?wd, write_json 202 uniform_ok w)"
    by (simp add: handle_subscribe_def on_store_def subscribe_body_def assms(6,7,9) up)
  have s3: "db_subscribers (st_db s3) = db_subscribers ?d0 @ [?row]"
    using enqueue_appends(2) [OF enq] s2 by simp
  obtain x where x: "db_notifications (st_db s3) = db_notifications ?d0 @ [x]" "n_kind x = kind_confirm_email"
      "n_to_email x = email" "n_payload x = ?pl" "n_status x = NPending"
    using enqueue_appends(1) [OF enq] s2 by auto
  have row: "s_email ?row = email" "s_user_id ?row = Some u" "s_status ?row = Pending" "s_token_hash ?row = Some ?h"
    by (simp_all add: proposed_row_def)
  have ok: "db_ok (io_pg ?io) (st_db s3)"
    using db_runs_ok [OF db_runs_trans [OF with_user_runs [OF txn_runs(1) ins] enqueue_runs [OF enq]]] assms(14) s1 by simp
  show thesis by (rule that [OF issued posted s3 row x(1,2,3,5,4) ok])
qed

text \<open>
  C8: the happy path of a logged-in caller whose address is new: subscribing answers 202 and
  stores one pending row, his own, and queues one mail to the address; and posting the token of
  the link in that mail, while it is live, confirms this row. (No fault of the database, fresh
  uuids and random bytes, and the throttle lets the request through.)
\<close>

theorem subscribed_link_confirms:
  assumes "rq_claims r = Some c" and "c_sub c \<noteq> ''''" and "sv_uuid_scan env (c_sub c) = Some u"
    and "pg_uuid (io_pg (sv_io env)) (c_sub c) = Some u" and "u \<in> set (db_users (st_db (w_store wd)))"
    and "decode_subscribe env r = Inr (email0, source)" and "normalize_email env email0 = Some email" and "pg_text email"
    and "throttle_check env d email (w_store wd) = (Inr False, s1)"
    and "email_row (sv_io env) email (st_db (w_store wd)) = None"
    and "\<And>n. io_fault (sv_io env) n = None"
    and "\<And>n. io_uuid (sv_io env) n \<notin> s_id ` set (db_subscribers (st_db (w_store wd)))"
    and "\<And>n. io_uuid (sv_io env) n \<notin> n_id ` set (db_notifications (st_db (w_store wd)))"
    and "\<forall>x\<in>set (db_subscribers (st_db (w_store wd))). s_token_hash x \<noteq> Some (hash_raw_token env (sv_random env))"
    and "db_ok (io_pg (sv_io env)) (st_db (w_store wd))" and "rw_sent w = None"
  shows "\<exists>wd' w' row x tok unsub. handle_subscribe env d r (wd, w) = Done (wd', w') \<and> answers w 202 uniform_ok w' \<and>
    db_subscribers (st_db (w_store wd')) = db_subscribers (st_db (w_store wd)) @ [row] \<and>
    s_email row = email \<and> s_user_id row = Some u \<and> s_status row = Pending \<and>
    db_notifications (st_db (w_store wd')) = db_notifications (st_db (w_store wd)) @ [x] \<and>
    n_kind x = kind_confirm_email \<and> n_to_email x = email \<and> n_status x = NPending \<and>
    n_payload x = encode_confirm_payload
      \<lparr>cp_confirm_url = build_url env d ''/v1/subscribers/confirm'' ''token'' tok, cp_unsubscribe_url = unsub\<rparr> \<and>
    (\<forall>t r2 wd2 w2. token_live (sv_now env + dp_confirm_ttl d) t \<longrightarrow> posted_token r2 = tok \<longrightarrow>
       w_store wd2 = w_store wd' \<longrightarrow> rw_sent w2 = None \<longrightarrow>
       (\<exists>wd3 w3 y. handle_confirm_post (env\<lparr>sv_time := t\<rparr>) r2 (wd2, w2) = Done (wd3, w3) \<and> rw_status w3 = 200 \<and>
          y \<in> set (db_subscribers (st_db (w_store wd3))) \<and> s_id y = s_id row \<and> s_email y = email \<and> s_status y = Confirmed))"
proof -
  obtain s3 tok unsub row x where issued: "issue (sv_hmac env) (sv_time env) (sv_signer env) purpose_confirm_subscriber
       (sv_random env) (sv_now env + dp_confirm_ttl d) = Inr tok"
    and posted: "handle_subscribe env d r (wd, w) = Done (wd\<lparr>w_store := s3, w_slept := w_slept wd +
       constant_time_delay (sv_start env) min_handler_latency (sv_end env)\<rparr>, write_json 202 uniform_ok w)"
    and s3: "db_subscribers (st_db s3) = db_subscribers (st_db (w_store wd)) @ [row]"
    and row: "s_email row = email" "s_user_id row = Some u" "s_status row = Pending"
      "s_token_hash row = Some (hash_raw_token env (sv_random env))"
    and x: "db_notifications (st_db s3) = db_notifications (st_db (w_store wd)) @ [x]"
      "n_kind x = kind_confirm_email" "n_to_email x = email" "n_status x = NPending"
      "n_payload x = encode_confirm_payload
       \<lparr>cp_confirm_url = build_url env d ''/v1/subscribers/confirm'' ''token'' tok, cp_unsubscribe_url = unsub\<rparr>"
    and ok: "db_ok (io_pg (sv_io env)) (st_db s3)"
    by (rule subscribed_outcome [OF assms(1-13,15)])
  have new: "row \<in> set (db_subscribers (st_db s3))"
    "\<forall>y\<in>set (db_subscribers (st_db s3)). s_token_hash y = s_token_hash row \<longrightarrow> y = row"
    using assms(14) row(4) by (auto simp: s3)
  have confirms: "\<exists>wd3 w3 y. handle_confirm_post (env\<lparr>sv_time := t\<rparr>) r2 (wd2, w2) = Done (wd3, w3) \<and> rw_status w3 = 200 \<and>
      y \<in> set (db_subscribers (st_db (w_store wd3))) \<and> s_id y = s_id row \<and> s_email y = email \<and> s_status y = Confirmed"
    if a: "token_live (sv_now env + dp_confirm_ttl d) t" "posted_token r2 = tok" "w_store wd2 = s3" "rw_sent w2 = None" for t r2 wd2 w2
  proof -
    note live = live_link_confirms [OF issued a(1,2,4), of wd2 row, unfolded a(3) row(1)]
    show ?thesis by (rule live [OF assms(11) ok new(1) row(4,3) new(2)])
  qed
  have ans: "answers w 202 uniform_ok (write_json 202 uniform_ok w)" using assms(16) by (simp add: answers_simps)
  let ?wd = "wd\<lparr>w_store := s3, w_slept := w_slept wd + constant_time_delay (sv_start env) min_handler_latency (sv_end env)\<rparr>"
  have s3': "w_store ?wd = s3" by simp
  show ?thesis
    by (rule exI [of _ ?wd], rule exI [of _ "write_json 202 uniform_ok w"], rule exI [of _ row], rule exI [of _ x],
        rule exI [of _ tok], rule exI [of _ unsub], unfold s3', intro conjI)
      (rule posted ans s3 row(1-3) x, (intro allI impI, rule confirms, assumption+)?)+
qed

lemma subscribed_link_confirms_witness:
  "\<exists>wd' w' row. handle_subscribe sample_subs_env sample_deps (sample_post ''ann@example.org'' (Some sample_person))
      (sample_wd [], new_rw) = Done (wd', w') \<and>
     db_subscribers (st_db (w_store wd')) = [row] \<and> s_email row = ''ann@example.org'' \<and> s_user_id row = Some 7"
proof -
  have pg: "io_pg (sv_io sample_subs_env) = sample_pg" by (simp add: sample_subs_env_def sample_io_def)
  have utf: "pg_text ''ann@example.org''"
    by (simp add: pg_text_def utf8_valid_ascii is_ascii_def)
  have ok: "db_ok sample_pg (sample_db [])"
    by (simp add: db_ok_def sample_db_def empty_db_def)
  have io: "io_uuid (sv_io sample_subs_env) n \<notin> s_id ` set (db_subscribers (st_db (w_store (sample_wd []))))"
    "io_uuid (sv_io sample_subs_env) n \<notin> n_id ` set (db_notifications (st_db (w_store (sample_wd []))))" for n
    by (simp_all add: sample_db_def empty_db_def)
  have who: "rq_claims (sample_post ''ann@example.org'' (Some sample_person)) = Some sample_person" "c_sub sample_person \<noteq> ''''"
    "sv_uuid_scan sample_subs_env (c_sub sample_person) = Some 7"
    "pg_uuid (io_pg (sv_io sample_subs_env)) (c_sub sample_person) = Some 7"
    by (simp_all add: sample_post_def sample_person_def sample_subs_env_def sample_uuid_scan_def sample_io_def sample_pg_def)
  have user: "7 \<in> set (db_users (st_db (w_store (sample_wd []))))"
    by (simp add: sample_db_def empty_db_def)
  have throttle: "throttle_check sample_subs_env sample_deps ''ann@example.org'' (w_store (sample_wd [])) =
      (Inr False, w_store (sample_wd []))"
    by (simp add: throttle_check_def sample_subs_simps)
  have row: "email_row (sv_io sample_subs_env) ''ann@example.org'' (st_db (w_store (sample_wd []))) = None"
    and fresh: "\<forall>x\<in>set (db_subscribers (st_db (w_store (sample_wd [])))). s_token_hash x \<noteq>
      Some (hash_raw_token sample_subs_env (sv_random sample_subs_env))"
    and ok': "db_ok (io_pg (sv_io sample_subs_env)) (st_db (w_store (sample_wd [])))"
    using ok by (simp_all add: email_row_def sample_db_def empty_db_def)
  have empty: "db_subscribers (st_db (w_store (sample_wd []))) = []" by (simp add: sample_db_def empty_db_def)
  show ?thesis
    using subscribed_link_confirms [OF who user sample_decode utf throttle row sample_env_pg(2) io fresh ok' new_rw_simps(1)]
    unfolding empty by auto
qed

end
