(* ===== verification/Admins.thy ===== *)
theory Admins
  imports Links
begin

text \<open>
  \<open>internal/admins/service.go\<close>: the lists of subscribers and notifications for admins, read through the
  user pool, and the resend of a confirmation through the interface \<open>SubscribersResender\<close>. The
  JSON text of a uuid and of a timestamp is \<open>pgtype\<close>'s, a parameter.
\<close>

section \<open>Reading the query string\<close>

text \<open>\<open>paginate\<close>: a limit from 1 to 200 (else 50) and an offset that is not negative (else 0).\<close>

definition paginate :: "request \<Rightarrow> int \<times> int" where
  "paginate r =
     ((case atoi (rq_query r ''limit'') of
         Some n \<Rightarrow> if rq_query r ''limit'' \<noteq> '''' \<and> n > 0 \<and> n \<le> 200 then n else 50
       | None \<Rightarrow> 50),
      (case atoi (rq_query r ''offset'') of
         Some n \<Rightarrow> if rq_query r ''offset'' \<noteq> '''' \<and> n \<ge> 0 then n else 0
       | None \<Rightarrow> 0))"

definition nil_string :: "string \<Rightarrow> string option" where
  "nil_string s = (if s = '''' then None else Some s)"

section \<open>The rows as JSON\<close>

record admin_env =
  ad_io :: io
  ad_quote :: "string \<Rightarrow> string"
  ad_uuid_json :: "uuid \<Rightarrow> json"
  ad_time_json :: "time option \<Rightarrow> json"
  ad_uuid_scan :: "string \<Rightarrow> uuid option"

definition opt_json :: "string option \<Rightarrow> json" where
  "opt_json s = (case s of None \<Rightarrow> JNull | Some x \<Rightarrow> JStr x)"

text \<open>\<open>ListSubscribersRow\<close> and \<open>ListNotificationsRow\<close>, by their JSON tags.\<close>

definition subscriber_json :: "admin_env \<Rightarrow> subscriber \<Rightarrow> json" where
  "subscriber_json env r = JObj
     [(''id'', ad_uuid_json env (s_id r)),
      (''email'', JStr (s_email r)),
      (''status'', JStr (sub_status_text (s_status r))),
      (''confirmed_at'', ad_time_json env (s_confirmed_at r)),
      (''unsubscribed_at'', ad_time_json env (s_unsubscribed_at r)),
      (''source'', opt_json (s_source r)),
      (''created_at'', ad_time_json env (Some (s_created_at r)))]"

definition notification_json :: "admin_env \<Rightarrow> notification \<Rightarrow> json" where
  "notification_json env r = JObj
     [(''id'', ad_uuid_json env (n_id r)),
      (''kind'', JStr (n_kind r)),
      (''to_email'', JStr (n_to_email r)),
      (''status'', JStr (notif_status_text (n_status r))),
      (''attempts'', JInt (n_attempts r)),
      (''last_error'', opt_json (n_last_error r)),
      (''next_attempt_at'', ad_time_json env (Some (n_next_attempt_at r))),
      (''created_at'', ad_time_json env (Some (n_created_at r)))]"

definition list_response :: "json list \<Rightarrow> int \<Rightarrow> int \<Rightarrow> int \<Rightarrow> json" where
  "list_response rows total_count lim offset =
     JObj [(''data'', JArr rows), (''limit'', JInt lim), (''offset'', JInt offset), (''total'', JInt total_count)]"

section \<open>The handlers\<close>

definition list_subscribers_txn :: "int \<Rightarrow> int \<Rightarrow> string option \<Rightarrow> (subscriber list \<times> int) txn" where
  "list_subscribers_txn lim offset f q k =
     q_bind (list_subscribers q (to_int32 lim) (to_int32 offset) f)
       (\<lambda>rows. q_bind (count_subscribers q f) (\<lambda>n. q_return (rows, n)))"

definition list_notifications_txn :: "int \<Rightarrow> int \<Rightarrow> string option \<Rightarrow> (notification list \<times> int) txn" where
  "list_notifications_txn lim offset f q k =
     q_bind (list_notifications q (to_int32 lim) (to_int32 offset) f)
       (\<lambda>rows. q_bind (count_notifications q f) (\<lambda>n. q_return (rows, n)))"

definition handle_list_subscribers :: "admin_env \<Rightarrow> world handler" where
  "handle_list_subscribers env r sw = (case sw of (s, w) \<Rightarrow>
     (case rq_claims r of
        None \<Rightarrow> Done (s, write_error r (unauthorized ''login required'') w)
      | Some c \<Rightarrow>
          (let (lim, offset) = paginate r;
               status = nil_string (rq_query r ''status'')
           in case with_user (ad_quote env) (ad_io env)
                     \<lparr>jc_sub = c_sub c, jc_email = c_email c, jc_role = ''authenticated''\<rparr>
                     (list_subscribers_txn lim offset status) (w_store s) of
                (Inl e, st) \<Rightarrow> Done (s\<lparr>w_store := st\<rparr>, write_error r (internal_error ''failed'') w)
              | (Inr (rows, n), st) \<Rightarrow>
                  Done (s\<lparr>w_store := st\<rparr>,
                        write_json 200 (list_response (map (subscriber_json env) rows) n lim offset) w))))"

definition handle_list_notifications :: "admin_env \<Rightarrow> world handler" where
  "handle_list_notifications env r sw = (case sw of (s, w) \<Rightarrow>
     (case rq_claims r of
        None \<Rightarrow> Done (s, write_error r (unauthorized ''login required'') w)
      | Some c \<Rightarrow>
          (let (lim, offset) = paginate r;
               status = nil_string (rq_query r ''status'')
           in case with_user (ad_quote env) (ad_io env)
                     \<lparr>jc_sub = c_sub c, jc_email = c_email c, jc_role = ''authenticated''\<rparr>
                     (list_notifications_txn lim offset status) (w_store s) of
                (Inl e, st) \<Rightarrow> Done (s\<lparr>w_store := st\<rparr>, write_error r (internal_error ''failed'') w)
              | (Inr (rows, n), st) \<Rightarrow>
                  Done (s\<lparr>w_store := st\<rparr>,
                        write_json 200 (list_response (map (notification_json env) rows) n lim offset) w))))"

definition queued :: json where "queued = JObj [(''status'', JStr ''queued'')]"

text \<open>\<open>resend\<close> is the interface's one method; a cancelled request gets no answer.\<close>

definition handle_resend_confirm ::
  "(string \<Rightarrow> uuid option) \<Rightarrow> (uuid \<Rightarrow> store \<Rightarrow> gerror option \<times> store) \<Rightarrow> world handler" where
  "handle_resend_confirm scan resend r sw = (case sw of (s, w) \<Rightarrow>
     (case scan (rq_url_param r ''id'') of
        None \<Rightarrow> Done (s, write_error r (bad_request ''bad subscriber id'') w)
      | Some i \<Rightarrow>
          (case resend i (w_store s) of
             (None, st) \<Rightarrow> Done (s\<lparr>w_store := st\<rparr>, write_json 202 queued w)
           | (Some e, st) \<Rightarrow>
               (case app_as e of
                  Some (code, c, m) \<Rightarrow> Done (s\<lparr>w_store := st\<rparr>, write_error r (AppError code c m None) w)
                | None \<Rightarrow>
                    if errors_is ErrCanceled e then Done (s\<lparr>w_store := st\<rparr>, w)
                    else Done (s\<lparr>w_store := st\<rparr>, write_error r (internal_error ''resend failed'') w)))))"

section \<open>The interface to the subscribers service\<close>

text \<open>
  What the admin handler relies on: a resend moves the database by statements only, and if it
  reports no error then the subscriber exists, was pending, and one message to his address has
  been queued.
\<close>

definition mail_queued :: "uuid \<Rightarrow> db \<Rightarrow> db \<Rightarrow> bool" where
  "mail_queued i d d' \<longleftrightarrow>
     (\<exists>row\<in>set (db_subscribers d). s_id row = i \<and> s_status row = Pending \<and>
       (\<exists>x. db_notifications d' = db_notifications d @ [x] \<and> n_to_email x = s_email row \<and> n_status x = NPending))"

locale resender =
  fixes resend :: "uuid \<Rightarrow> store \<Rightarrow> gerror option \<times> store" and pg :: pg_ops
  assumes resend_runs: "resend i s = (res, s') \<Longrightarrow> db_runs pg (st_db s) (st_db s')"
    and resend_queued: "resend i s = (None, s') \<Longrightarrow> db_ok pg (st_db s) \<Longrightarrow> mail_queued i (st_db s) (st_db s')"
begin

lemma handler_runs:
  "db_runs pg (st_db (w_store wd))
     (st_db (w_store (fst (outcome_value (handle_resend_confirm scan resend r (wd, w))))))"
  by (auto simp: handle_resend_confirm_def split: option.splits prod.splits dest: resend_runs)

lemma queued_answer:
  assumes "outcome_value (handle_resend_confirm scan resend r (wd, w)) = (wd', w')"
    and "rw_body w' = rw_body w @ [JsonBody queued]" and "db_ok pg (st_db (w_store wd))"
  shows "\<exists>i. scan (rq_url_param r ''id'') = Some i \<and> mail_queued i (st_db (w_store wd)) (st_db (w_store wd'))"
  using assms
  by (auto simp: handle_resend_confirm_def rw_simps queued_def error_envelope_def app_error_defs
      write_error_def split: option.splits prod.splits if_splits dest: resend_queued)

end

lemma enqueue_confirm_runs:
  assumes "enqueue_confirm env d i s = (res, s')"
  shows "db_runs (io_pg (sv_io env)) (st_db s) (st_db s')"
proof -
  have tx: "db_runs (io_pg (sv_io env)) (st_db s) (st_db s1)"
    if "with_tx (sv_io env) (resend_txn i h t) s = (x, s1)" for h t x s1
    by (rule with_tx_runs [OF _ that]) (rule txn_runs)
  show ?thesis
    using assms
    by (auto simp: enqueue_confirm_def Let_def new_confirm_token_def split: sum.splits prod.splits
        dest: tx db_runs_trans [OF tx enqueue_runs])
qed

lemma enqueue_confirm_queues:
  assumes "enqueue_confirm env d i s = (None, s')" and "db_ok (io_pg (sv_io env)) (st_db s)"
  shows "mail_queued i (st_db s) (st_db s')"
proof -
  obtain tok email unsub s1 n where
    tx: "with_tx (sv_io env) (resend_txn i (hash_raw_token env (sv_random env)) (sv_now env + dp_confirm_ttl d)) s = (Inr email, s1)" and
    enq: "enqueue (sv_io env) kind_confirm_email email (encode_confirm_payload
       \<lparr>cp_confirm_url = build_url env d ''/v1/subscribers/confirm'' ''token'' tok, cp_unsubscribe_url = unsub\<rparr>) s1 = (Inr n, s')"
    by (rule enqueue_confirm_effect [OF assms(1)])
  obtain q k where q: "q_ident q = IdService" "q_pg q = io_pg (sv_io env)"
      "resend_txn i (hash_raw_token env (sv_random env)) (sv_now env + dp_confirm_ttl d) q k (st_db s) = Inr (email, st_db s1)"
    using service.run_ok [OF tx] by auto
  from resend_txn_effect [OF q(1) assms(2) q(2,3)] obtain row where
    "row \<in> set (db_subscribers (st_db s))" "s_id row = i" "s_status row = Pending" "email = s_email row"
    "db_notifications (st_db s1) = db_notifications (st_db s)" by (metis db.ext_inject db.surjective db.update_convs(1))
  with enqueue_appends(1) [OF enq] show ?thesis unfolding mail_queued_def by metis
qed

interpretation resend: resender "enqueue_confirm env d" "io_pg (sv_io env)" for env d
  by unfold_locales (rule enqueue_confirm_runs, assumption, rule enqueue_confirm_queues)

section \<open>Resending\<close>

lemma filter_key:
  "distinct (map key rows) \<Longrightarrow> filter (\<lambda>r. key r = k) rows =
     (case lookup_row key k rows of None \<Rightarrow> [] | Some r \<Rightarrow> [r])"
proof (induction rows)
  case (Cons a rows)
  show ?case
  proof (cases "key a = k")
    case True
    then have "filter (\<lambda>r. key r = k) rows = []" using Cons.prems unfolding filter_empty_conv by (metis distinct.simps(2) imageI list.map(2) list.set_map)
    then show ?thesis using True by (simp add: lookup_row_def)
  next
    case False
    then show ?thesis using Cons by (simp add: lookup_row_def)
  qed
qed (simp add: lookup_row_def)

lemma resend_txn_refused:
  assumes "q_ident q = IdService" and "distinct (map s_id (db_subscribers d))"
  shows "lookup_row s_id i (db_subscribers d) = None \<Longrightarrow> resend_txn i h t q k d = Inl (Sentinel ErrNoRows)"
    and "lookup_row s_id i (db_subscribers d) = Some row \<Longrightarrow> s_status row \<noteq> Pending \<Longrightarrow>
      resend_txn i h t q k d = Inl (conflict ''subscriber is not pending'')"
proof -
  have rows: "filter (\<lambda>r. s_id r = i) (visible_subscribers q d) =
      (case lookup_row s_id i (db_subscribers d) of None \<Rightarrow> [] | Some row \<Rightarrow> [row])"
    using filter_key [OF assms(2)] by (simp add: visible_subscribers_def assms(1))
  show "resend_txn i h t q k d = Inl (Sentinel ErrNoRows)" if "lookup_row s_id i (db_subscribers d) = None"
    using that by (simp add: resend_txn_def q_bind_def get_subscriber_by_id_def rows one_row_def)
  show "resend_txn i h t q k d = Inl (conflict ''subscriber is not pending'')"
    if "lookup_row s_id i (db_subscribers d) = Some row" "s_status row \<noteq> Pending"
    using that by (simp add: resend_txn_def q_bind_def get_subscriber_by_id_def rows one_row_def q_fail_def)
qed

lemma enqueue_confirm_refused:
  assumes "io_fault (sv_io env) (st_count s) = None"
    and "\<And>q k h t. q_ident q = IdService \<Longrightarrow> resend_txn i h t q k (st_db s) = Inl e"
  shows "\<exists>s'. enqueue_confirm env d i s = (Some e, s') \<and> st_db s' = st_db s"
  using issue_token_known [of purpose_confirm_subscriber env "sv_random env" "sv_now env + dp_confirm_ttl d"]
  by (auto simp: enqueue_confirm_def new_confirm_token_def Let_def with_tx_def run_txn_ok [OF assms(1)] assms(2))

text \<open>
  C30: What an admin's resend answers: an unknown id 500, a settled subscriber 409, both without
  any change; and "queued" only if the subscriber is pending and one message to his address has
  been put into the queue.
\<close>

theorem resend_confirm_verdict:
  assumes "rw_sent w = None" and "db_ok (io_pg (sv_io env)) (st_db (w_store wd))"
    and "io_fault (sv_io env) (st_count (w_store wd)) = None" and "scan (rq_url_param r ''id'') = Some i"
    and "outcome_value (handle_resend_confirm scan (enqueue_confirm env d) r (wd, w)) = (wd', w')"
  shows "(rw_body w' = rw_body w @ [JsonBody queued] \<longrightarrow> mail_queued i (st_db (w_store wd)) (st_db (w_store wd'))) \<and>
    (case lookup_row s_id i (db_subscribers (st_db (w_store wd))) of
       None \<Rightarrow> rw_status w' = 500 \<and> st_db (w_store wd') = st_db (w_store wd)
     | Some row \<Rightarrow> s_status row \<noteq> Pending \<longrightarrow> rw_status w' = 409 \<and> st_db (w_store wd') = st_db (w_store wd))"
proof (rule conjI)
  show "rw_body w' = rw_body w @ [JsonBody queued] \<longrightarrow> mail_queued i (st_db (w_store wd)) (st_db (w_store wd'))"
    using resend.queued_answer [OF assms(5) _ assms(2)] assms(4) by auto
  let ?d = "st_db (w_store wd)"
  note ids = db_ok_dest(1) [OF assms(2)]
  have refused: "\<exists>s'. enqueue_confirm env d i (w_store wd) = (Some e, s') \<and> st_db s' = ?d"
    if "\<And>q k h t. q_ident q = IdService \<Longrightarrow> resend_txn i h t q k ?d = Inl e" for e
    by (rule enqueue_confirm_refused [OF assms(3)]) (rule that)
  show "case lookup_row s_id i (db_subscribers ?d) of
       None \<Rightarrow> rw_status w' = 500 \<and> st_db (w_store wd') = ?d
     | Some row \<Rightarrow> s_status row \<noteq> Pending \<longrightarrow> rw_status w' = 409 \<and> st_db (w_store wd') = ?d"
  proof (cases "lookup_row s_id i (db_subscribers ?d)")
    case None
    have "\<exists>s'. enqueue_confirm env d i (w_store wd) = (Some (Sentinel ErrNoRows), s') \<and> st_db s' = ?d"
      by (rule refused) (rule resend_txn_refused(1) [OF _ ids None])
    then obtain s' where "enqueue_confirm env d i (w_store wd) = (Some (Sentinel ErrNoRows), s')" "st_db s' = ?d" by blast
    with None assms(1,4,5) show ?thesis by (auto simp: handle_resend_confirm_def rw_simps)
  next
    case (Some row)
    have "rw_status w' = 409 \<and> st_db (w_store wd') = ?d" if "s_status row \<noteq> Pending"
    proof -
      have "\<exists>s'. enqueue_confirm env d i (w_store wd) = (Some (conflict ''subscriber is not pending''), s') \<and> st_db s' = ?d"
        by (rule refused) (rule resend_txn_refused(2) [OF _ ids Some that])
      then obtain s' where "enqueue_confirm env d i (w_store wd) = (Some (conflict ''subscriber is not pending''), s')"
        "st_db s' = ?d" by blast
      with assms(1,4,5) show ?thesis by (auto simp: handle_resend_confirm_def rw_simps)
    qed
    with Some show ?thesis by simp
  qed
qed

definition sample_resend_request :: request where
  "sample_resend_request = (sample_post '''' None)\<lparr>rq_url_param := (\<lambda>k. ''seven'')\<rparr>"

lemma resend_confirm_verdict_witness:
  "\<exists>wd' w'. outcome_value (handle_resend_confirm sample_uuid_scan (enqueue_confirm sample_subs_env sample_deps)
      sample_resend_request (sample_wd [sample_linked], new_rw)) = (wd', w') \<and> rw_status w' = 500"
proof -
  have id: "sample_uuid_scan (rq_url_param sample_resend_request ''id'') = Some 7"
    by (simp add: sample_uuid_scan_def sample_resend_request_def)
  have ok: "db_ok (io_pg (sv_io sample_subs_env)) (st_db (w_store (sample_wd [sample_linked])))"
    using sample_linked_ok by simp
  obtain wd' w' where out: "outcome_value (handle_resend_confirm sample_uuid_scan (enqueue_confirm sample_subs_env sample_deps)
      sample_resend_request (sample_wd [sample_linked], new_rw)) = (wd', w')" by fastforce
  have "lookup_row s_id 7 (db_subscribers (sample_db [sample_linked])) = None"
    by (simp add: lookup_row_def)
  with resend_confirm_verdict [OF new_rw_simps(1) ok sample_env_pg(2) id out] out show ?thesis by simp
qed

section \<open>Listing\<close>

lemma paginate_bounds:
  assumes "paginate r = (lim, offset)"
  shows "1 \<le> lim" "lim \<le> 200" "0 \<le> offset" "offset < 2 ^ 63" "to_int32 lim = lim"
proof -
  have atoi: "atoi s = Some n \<Longrightarrow> n < 2 ^ 63" for s n
    by (auto simp: atoi_def Let_def split: option.splits if_splits)
  show b: "1 \<le> lim" "lim \<le> 200" "0 \<le> offset" "offset < 2 ^ 63"
    using assms atoi by (auto simp: paginate_def split: option.splits if_splits)
  show "to_int32 lim = lim" using b by (intro to_int32_id) auto
qed

definition sorted_subscribers :: "string option \<Rightarrow> db \<Rightarrow> subscriber list" where
  "sorted_subscribers f d = sort_key (\<lambda>r. - s_created_at r)
     (filter (\<lambda>r. status_filter sub_status_text f (s_status r)) (db_subscribers d))"

lemma list_subscribers_admin:
  assumes "q_ident q = IdUser (Some u) e" and "admin_uid d (Some u)" and "list_all pg_text (opt_text f)"
    and "to_int32 lim = lim" "0 \<le> lim"
  shows "list_subscribers_txn lim offset f q k d =
    (if to_int32 offset < 0 then Inl (PgError InvalidRowCount)
     else Inr ((take (nat lim) (drop (nat (to_int32 offset)) (sorted_subscribers f d)),
                int (length (sorted_subscribers f d))), d))"
proof -
  have "visible_subscribers q d = db_subscribers d"
    using assms(1,2) by (simp add: visible_subscribers_def select_subscriber_def)
  then show ?thesis
    using assms(3-5)
    by (simp add: list_subscribers_txn_def q_bind_def q_return_def list_subscribers_def count_subscribers_def with_text_def
        page_def sorted_subscribers_def)
qed

text \<open>
  C29: what an admin sees of the subscribers: all of them with the status he asked for, newest
  first, from the offset on, at most the limit (1 to 200), with the true total; and nothing
  changes. But the offset is cut to 32 bits before the query: an offset whose low half reads
  as negative is answered 500, and from 4294967296 on the list starts again at the first row
  although the answer reports the offset that was asked for.
\<close>

theorem admin_list_is_page:
  assumes "rq_claims r = Some c" and "c_sub c \<noteq> ''''" and "pg_uuid (io_pg (ad_io env)) (c_sub c) = Some u"
    and "admin_uid (st_db (w_store wd)) (Some u)" and "io_fault (ad_io env) (st_count (w_store wd)) = None"
    and "list_all pg_text (opt_text (nil_string (rq_query r ''status'')))" and "rw_sent w = None"
    and "paginate r = (lim, offset)"
    and "rows = sorted_subscribers (nil_string (rq_query r ''status'')) (st_db (w_store wd))"
  shows "1 \<le> lim \<and> lim \<le> 200 \<and> 0 \<le> offset \<and>
    (\<exists>wd' w'. handle_list_subscribers env r (wd, w) = Done (wd', w') \<and> st_db (w_store wd') = st_db (w_store wd) \<and>
      (if to_int32 offset < 0
       then answers w 500 (error_envelope CodeInternal ''failed'' (request_id_from_context r)) w'
       else answers w 200 (list_response (map (subscriber_json env)
              (take (nat lim) (drop (nat (to_int32 offset)) rows))) (int (length rows)) lim offset) w'))"
proof -
  note b = paginate_bounds [OF assms(8)]
  let ?jc = "\<lparr>jc_sub = c_sub c, jc_email = c_email c, jc_role = ''authenticated''\<rparr>" and ?s = "w_store wd"
  let ?txn = "list_subscribers_txn lim offset (nil_string (rq_query r ''status''))"
  have id: "with_user (ad_quote env) (ad_io env) ?jc ?txn ?s =
      run_txn (ad_io env) (Inr (IdUser (Some u) (c_email c))) ?txn ?s"
    using user_identity [of ?jc "ad_io env" u] assms(2,3) by simp
  have q: "q_ident (txn_ctx (ad_io env) (IdUser (Some u) (c_email c)) n) = IdUser (Some u) (c_email c)" for n by simp
  have run: "with_user (ad_quote env) (ad_io env) ?jc ?txn ?s =
    (if to_int32 offset < 0 then (Inl (PgError InvalidRowCount), ?s\<lparr>st_count := st_count ?s + 1\<rparr>)
     else (Inr (take (nat lim) (drop (nat (to_int32 offset)) rows), int (length rows)),
           ?s\<lparr>st_count := st_count ?s + 1, st_db := st_db ?s\<rparr>))"
    unfolding id run_txn_ok [OF assms(5)]
    using list_subscribers_admin [OF q assms(4,6) b(5)] b(1) assms(9) by simp
  show ?thesis
    using run assms(1,7,8) b by (auto simp: handle_list_subscribers_def answers_simps)
qed

text \<open>The offset 4294967296 is reported, but the first row is shown.\<close>

definition sample_admin_env :: admin_env where
  "sample_admin_env = \<lparr>ad_io = sample_io, ad_quote = id, ad_uuid_json = (\<lambda>u. JInt (uint u)), ad_time_json = (\<lambda>t. JNull),
     ad_uuid_scan = sample_uuid_scan\<rparr>"

definition sample_admin_world :: world where
  "sample_admin_world = sample_world\<lparr>w_store := \<lparr>st_db = (sample_db [sample_linked])
     \<lparr>db_admins := [\<lparr>a_user_id = 7, a_created_at = 0\<rparr>]\<rparr>, st_count = 2\<rparr>\<rparr>"

definition sample_list_request :: request where
  "sample_list_request = (sample_post '''' (Some sample_person))
     \<lparr>rq_query := (\<lambda>k. if k = ''offset'' then ''4294967296'' else '''')\<rparr>"

lemma sample_paginate: "paginate sample_list_request = (50, 4294967296)"
proof -
  have "atoi ''4294967296'' = Some 4294967296"
    by (simp add: atoi_def parse_digits_def digit_of_def)
  moreover have "atoi '''' = None" by (simp add: atoi_def)
  ultimately show ?thesis by (simp add: paginate_def sample_list_request_def)
qed

lemma admin_list_is_page_witness:
  "\<exists>wd' w'. handle_list_subscribers sample_admin_env sample_list_request (sample_admin_world, new_rw) = Done (wd', w') \<and>
     answers new_rw 200 (list_response [subscriber_json sample_admin_env sample_linked] 1 50 4294967296) w'"
proof -
  have sent: "rw_sent new_rw = None" by simp
  have r: "rq_claims sample_list_request = Some sample_person" "rq_query sample_list_request ''status'' = ''''"
    by (simp_all add: sample_list_request_def sample_post_def)
  have person: "c_sub sample_person \<noteq> ''''" "pg_uuid (io_pg (ad_io sample_admin_env)) (c_sub sample_person) = Some 7"
    by (simp_all add: sample_person_def sample_admin_env_def sample_io_def sample_pg_def)
  have world: "admin_uid (st_db (w_store sample_admin_world)) (Some 7)"
    "io_fault (ad_io sample_admin_env) (st_count (w_store sample_admin_world)) = None"
    "db_subscribers (st_db (w_store sample_admin_world)) = [sample_linked]"
    by (simp_all add: sample_admin_world_def admin_uid_def sample_admin_env_def sample_io_def)
  have texts: "list_all pg_text (opt_text (nil_string (rq_query sample_list_request ''status'')))"
    by (simp add: r nil_string_def opt_text_def)
  have rows: "sorted_subscribers (nil_string (rq_query sample_list_request ''status'')) (st_db (w_store sample_admin_world)) =
      [sample_linked]"
    by (simp add: sorted_subscribers_def r nil_string_def status_filter_def world)
  have cut: "to_int32 4294967296 = 0" by (simp add: to_int32_def)
  from admin_list_is_page [OF r(1) person world(1,2) texts sent sample_paginate rows [symmetric]] cut show ?thesis by auto
qed

end
