(* ===== verification/Config.thy ===== *)
theory Config
  imports Auth Tokens Worker
begin

text \<open>
  \<open>internal/config/config.go\<close>: reading and validating the configuration. The environment is a
  function from names to values (the empty string if unset, as \<open>os.Getenv\<close> answers);
  \<open>net.ParseCIDR\<close> and \<open>net.ParseIP\<close> are parameters, and so is the order in which Go visits the
  map of required variables.
\<close>

section \<open>The configuration\<close>

datatype log_level = LevelDebug | LevelInfo | LevelWarn | LevelError

record config =
  cf_port :: string
  cf_log_level :: log_level
  cf_database_url :: string
  cf_database_url_service_role :: string
  cf_supabase_project_ref :: string
  cf_supabase_jwt_secret :: string
  cf_supabase_jwks_url :: string
  cf_resend_api_key :: string
  cf_resend_from_address :: string
  cf_app_base_url :: string
  cf_token_signing_key :: string
  cf_email_hash_key :: string
  cf_allowed_origins :: "string list"
  cf_trusted_proxy_cidrs :: "ipnet list"
  cf_rate_limit_subscribers_per_min :: int
  cf_rate_limit_confirm_per_min :: int
  cf_rate_limit_default_per_min :: int
  cf_worker_concurrency :: int
  cf_outbound_email_rps :: int
  cf_max_daily_emails :: int
  cf_pool_max_conns :: int
  cf_subscribe_email_throttle_sec :: int
  cf_unsubscribe_token_ttl_days :: int

datatype config_error = MissingVars "string list" | ConfigError gerror

record config_ops =
  co_lower :: "string \<Rightarrow> string"
  co_quote :: "string \<Rightarrow> string"
  co_net :: net_ops
  co_parse_cidr :: "string \<Rightarrow> gerror + ipnet"
  co_order :: "(string \<times> string) list \<Rightarrow> (string \<times> string) list"

section \<open>Helpers\<close>

definition get_or :: "(string \<Rightarrow> string) \<Rightarrow> string \<Rightarrow> string \<Rightarrow> string" where
  "get_or getenv key fallback = (if getenv key \<noteq> '''' then getenv key else fallback)"

definition get_int :: "(string \<Rightarrow> string) \<Rightarrow> string \<Rightarrow> int \<Rightarrow> int" where
  "get_int getenv key fallback =
     (if getenv key = '''' then fallback
      else case atoi (getenv key) of None \<Rightarrow> fallback | Some n \<Rightarrow> n)"

definition split_csv :: "string \<Rightarrow> string list" where
  "split_csv s =
     (if s = '''' then []
      else filter (\<lambda>t. t \<noteq> '''') (map trim_space (split_on (CHR '','') s)))"

text \<open>One part of the list: a bare address gets the longest prefix of its family.\<close>

definition cidr_text :: "net_ops \<Rightarrow> string \<Rightarrow> string" where
  "cidr_text nt p =
     (if CHR ''/'' \<in> set p then p
      else case parse_ip nt p of
        None \<Rightarrow> p
      | Some a \<Rightarrow> if to4 a \<noteq> None then p @ ''/32'' else p @ ''/128'')"

fun parse_cidr_parts :: "config_ops \<Rightarrow> string list \<Rightarrow> gerror + ipnet list" where
  "parse_cidr_parts co [] = Inr []"
| "parse_cidr_parts co (p # ps) =
     (let t = cidr_text (co_net co) p
      in case co_parse_cidr co t of
           Inl e \<Rightarrow> Inl (Wrapped (''invalid CIDR '' @ go_quote (co_quote co) t) e)
         | Inr n \<Rightarrow> (case parse_cidr_parts co ps of Inl e \<Rightarrow> Inl e | Inr ns \<Rightarrow> Inr (n # ns)))"

definition parse_cidrs :: "config_ops \<Rightarrow> string \<Rightarrow> gerror + ipnet list" where
  "parse_cidrs co s = parse_cidr_parts co (split_csv s)"

definition parse_level :: "(string \<Rightarrow> string) \<Rightarrow> string \<Rightarrow> log_level" where
  "parse_level ul s =
     (let l = to_lower ul s
      in if l = ''debug'' then LevelDebug
         else if l = ''warn'' \<or> l = ''warning'' then LevelWarn
         else if l = ''error'' then LevelError
         else LevelInfo)"

section \<open>Loading\<close>

definition read_config :: "config_ops \<Rightarrow> (string \<Rightarrow> string) \<Rightarrow> config" where
  "read_config co getenv =
     \<lparr>cf_port = get_or getenv ''PORT'' ''8080'',
      cf_log_level = parse_level (co_lower co) (get_or getenv ''LOG_LEVEL'' ''info''),
      cf_database_url = getenv ''DATABASE_URL'',
      cf_database_url_service_role = getenv ''DATABASE_URL_SERVICE_ROLE'',
      cf_supabase_project_ref = getenv ''SUPABASE_PROJECT_REF'',
      cf_supabase_jwt_secret = getenv ''SUPABASE_JWT_SECRET'',
      cf_supabase_jwks_url = getenv ''SUPABASE_JWKS_URL'',
      cf_resend_api_key = getenv ''RESEND_API_KEY'',
      cf_resend_from_address = getenv ''RESEND_FROM_ADDRESS'',
      cf_app_base_url = getenv ''APP_BASE_URL'',
      cf_token_signing_key = getenv ''TOKEN_SIGNING_KEY'',
      cf_email_hash_key = getenv ''EMAIL_HASH_KEY'',
      cf_allowed_origins = split_csv (getenv ''ALLOWED_ORIGINS''),
      cf_trusted_proxy_cidrs = [],
      cf_rate_limit_subscribers_per_min = get_int getenv ''RATE_LIMIT_SUBSCRIBERS_PER_MIN'' 10,
      cf_rate_limit_confirm_per_min = get_int getenv ''RATE_LIMIT_CONFIRM_PER_MIN'' 30,
      cf_rate_limit_default_per_min = get_int getenv ''RATE_LIMIT_DEFAULT_PER_MIN'' 60,
      cf_worker_concurrency = get_int getenv ''WORKER_CONCURRENCY'' 2,
      cf_outbound_email_rps = get_int getenv ''OUTBOUND_EMAIL_RPS'' 5,
      cf_max_daily_emails = get_int getenv ''MAX_DAILY_EMAILS'' 5000,
      cf_pool_max_conns = to_int32 (get_int getenv ''POOL_MAX_CONNS'' 10),
      cf_subscribe_email_throttle_sec = get_int getenv ''SUBSCRIBE_EMAIL_THROTTLE_SEC'' 600,
      cf_unsubscribe_token_ttl_days = get_int getenv ''UNSUBSCRIBE_TOKEN_TTL_DAYS'' 365\<rparr>"

definition required_vars :: "config \<Rightarrow> (string \<times> string) list" where
  "required_vars c =
     [(''DATABASE_URL'', cf_database_url c),
      (''DATABASE_URL_SERVICE_ROLE'', cf_database_url_service_role c),
      (''SUPABASE_PROJECT_REF'', cf_supabase_project_ref c),
      (''RESEND_FROM_ADDRESS'', cf_resend_from_address c),
      (''APP_BASE_URL'', cf_app_base_url c),
      (''TOKEN_SIGNING_KEY'', cf_token_signing_key c),
      (''EMAIL_HASH_KEY'', cf_email_hash_key c)]"

definition missing_vars :: "config_ops \<Rightarrow> config \<Rightarrow> string list" where
  "missing_vars co c =
     map fst (filter (\<lambda>kv. snd kv = '''') (co_order co (required_vars c))) @
     (if cf_supabase_jwt_secret c = '''' \<and> cf_supabase_jwks_url c = ''''
      then [''SUPABASE_JWT_SECRET or SUPABASE_JWKS_URL''] else [])"

text \<open>The checks after the missing variables, in the code's order.\<close>

definition config_fault :: "config \<Rightarrow> string option" where
  "config_fault c =
     (if cf_supabase_jwt_secret c \<noteq> '''' \<and> cf_supabase_jwks_url c \<noteq> ''''
      then Some ''set only one of SUPABASE_JWT_SECRET or SUPABASE_JWKS_URL, not both''
      else if length (cf_token_signing_key c) < 32 then Some ''TOKEN_SIGNING_KEY must be at least 32 bytes''
      else if length (cf_email_hash_key c) < 32 then Some ''EMAIL_HASH_KEY must be at least 32 bytes''
      else if cf_allowed_origins c = [] then Some ''ALLOWED_ORIGINS must contain at least one origin''
      else if list_ex (\<lambda>x. x = ''*'') (cf_allowed_origins c) then Some (''ALLOWED_ORIGINS must not include '' @ [CHR 0x27, CHR ''*'', CHR 0x27])
      else if cf_worker_concurrency c < 1 then Some ''WORKER_CONCURRENCY must be >= 1''
      else if cf_outbound_email_rps c < 1 then Some ''OUTBOUND_EMAIL_RPS must be >= 1''
      else if cf_max_daily_emails c < 1 then Some ''MAX_DAILY_EMAILS must be >= 1''
      else if cf_pool_max_conns c < 1 then Some ''POOL_MAX_CONNS must be >= 1''
      else None)"

definition load :: "config_ops \<Rightarrow> (string \<Rightarrow> string) \<Rightarrow> config_error + config" where
  "load co getenv =
     (let c = read_config co getenv
      in if missing_vars co c \<noteq> [] then Inl (MissingVars (missing_vars co c))
         else case config_fault c of
           Some m \<Rightarrow> Inl (ConfigError (Msg m))
         | None \<Rightarrow>
             (case parse_cidrs co (getenv ''TRUSTED_PROXY_CIDRS'') of
                Inl e \<Rightarrow> Inl (ConfigError (Wrapped ''TRUSTED_PROXY_CIDRS'' e))
              | Inr ns \<Rightarrow> Inr (c\<lparr>cf_trusted_proxy_cidrs := ns\<rparr>)))"

fun config_error_text :: "config_error \<Rightarrow> string" where
  "config_error_text (MissingVars ks) = ''missing required environment variables: '' @ join '', '' ks"
| "config_error_text (ConfigError e) = error_text e"

fun is_missing :: "config_error \<Rightarrow> string list option" where
  "is_missing (MissingVars ks) = Some ks"
| "is_missing (ConfigError e) = None"

definition describe :: "config \<Rightarrow> string" where
  "describe c = ''port='' @ cf_port c @ '' origins='' @ int_text (int (length (cf_allowed_origins c))) @
     '' worker='' @ int_text (cf_worker_concurrency c)"

section \<open>What a loaded configuration guarantees\<close>

lemma split_csv_parts:
  "p \<in> set (split_csv s) \<Longrightarrow> p \<noteq> '''' \<and> trim_space p = p"
  by (auto simp: split_csv_def split: if_splits)

lemma parse_cidr_parts_all:
  "parse_cidr_parts co ps = Inr ns \<Longrightarrow>
     list_all2 (\<lambda>p n. co_parse_cidr co (cidr_text (co_net co) p) = Inr n) ps ns"
  by (induction ps arbitrary: ns) (auto simp: Let_def split: sum.splits)

definition config_valid :: "config \<Rightarrow> bool" where
  "config_valid c \<longleftrightarrow>
     cf_database_url c \<noteq> '''' \<and> cf_database_url_service_role c \<noteq> '''' \<and> cf_supabase_project_ref c \<noteq> '''' \<and>
     cf_resend_from_address c \<noteq> '''' \<and> cf_app_base_url c \<noteq> '''' \<and>
     (cf_supabase_jwt_secret c = '''') \<noteq> (cf_supabase_jwks_url c = '''') \<and>
     32 \<le> length (cf_token_signing_key c) \<and> 32 \<le> length (cf_email_hash_key c) \<and>
     cf_allowed_origins c \<noteq> [] \<and> (\<forall>p\<in>set (cf_allowed_origins c). p \<noteq> '''' \<and> p \<noteq> ''*'' \<and> trim_space p = p) \<and>
     1 \<le> cf_worker_concurrency c \<and> 1 \<le> cf_outbound_email_rps c \<and> 1 \<le> cf_max_daily_emails c \<and>
     1 \<le> cf_pool_max_conns c \<and> cf_pool_max_conns c < 2 ^ 31"

lemma missing_vars_set:
  assumes "\<And>xs. set (co_order co xs) = set xs"
  shows "set (missing_vars co c) = fst ` {kv \<in> set (required_vars c). snd kv = ''''} \<union>
    (if cf_supabase_jwt_secret c = '''' \<and> cf_supabase_jwks_url c = ''''
     then {''SUPABASE_JWT_SECRET or SUPABASE_JWKS_URL''} else {})"
  using assms by (auto simp: missing_vars_def)

lemma missing_vars_none:
  assumes "\<And>xs. set (co_order co xs) = set xs" and "missing_vars co c = []"
  shows "\<forall>kv\<in>set (required_vars c). snd kv \<noteq> ''''" and "\<not> (cf_supabase_jwt_secret c = '''' \<and> cf_supabase_jwks_url c = '''')"
proof -
  have e: "set (missing_vars co c) = {}" using assms(2) by simp
  then show "\<forall>kv\<in>set (required_vars c). snd kv \<noteq> ''''" unfolding missing_vars_set [OF assms(1)] by blast
  show "\<not> (cf_supabase_jwt_secret c = '''' \<and> cf_supabase_jwks_url c = '''')"
    using e unfolding missing_vars_set [OF assms(1)] by (auto split: if_splits)
qed

lemma load_Inr:
  assumes "load co getenv = Inr c"
  obtains ns where "missing_vars co (read_config co getenv) = []" "config_fault (read_config co getenv) = None"
    "c = (read_config co getenv)\<lparr>cf_trusted_proxy_cidrs := ns\<rparr>"
  using assms by (auto simp: load_def Let_def split: if_splits option.splits sum.splits)

lemma config_fault_None:
  assumes "config_fault c = None"
  shows "\<not> (cf_supabase_jwt_secret c \<noteq> '''' \<and> cf_supabase_jwks_url c \<noteq> '''')"
    "32 \<le> length (cf_token_signing_key c)" "32 \<le> length (cf_email_hash_key c)" "cf_allowed_origins c \<noteq> []"
    "\<forall>p\<in>set (cf_allowed_origins c). p \<noteq> ''*''"
    "1 \<le> cf_worker_concurrency c" "1 \<le> cf_outbound_email_rps c" "1 \<le> cf_max_daily_emails c" "1 \<le> cf_pool_max_conns c"
  using assms by (auto simp: config_fault_def list_ex_iff not_less split: if_splits)

lemma read_config_simps:
  "cf_pool_max_conns (read_config co getenv) = to_int32 (get_int getenv ''POOL_MAX_CONNS'' 10)"
  "cf_allowed_origins (read_config co getenv) = split_csv (getenv ''ALLOWED_ORIGINS'')"
  by (simp_all add: read_config_def)

lemma load_valid:
  assumes order: "\<And>xs. set (co_order co xs) = set xs" and "load co getenv = Inr c"
  shows "config_valid c"
proof -
  let ?r = "read_config co getenv"
  obtain ns where r: "missing_vars co ?r = []" "config_fault ?r = None" "c = ?r\<lparr>cf_trusted_proxy_cidrs := ns\<rparr>"
    by (rule load_Inr [OF assms(2)])
  note req = missing_vars_none [OF order r(1)] and flt = config_fault_None [OF r(2)]
  have "cf_database_url ?r \<noteq> ''''" "cf_database_url_service_role ?r \<noteq> ''''" "cf_supabase_project_ref ?r \<noteq> ''''"
    "cf_resend_from_address ?r \<noteq> ''''" "cf_app_base_url ?r \<noteq> ''''"
    using req(1) by (simp_all add: required_vars_def)
  moreover have "\<forall>p\<in>set (cf_allowed_origins ?r). p \<noteq> '''' \<and> trim_space p = p"
    using split_csv_parts by (auto simp: read_config_simps)
  moreover have "cf_pool_max_conns ?r < 2 ^ 31"
    using to_int32_range by (simp add: read_config_simps)
  ultimately show ?thesis
    unfolding config_valid_def r(3) using req(2) flt by auto
qed

text \<open>
  A configuration that loads is complete and sane, and nothing that is built from it at
  startup can fail for its sake: the signing key is long enough for the signer (which would
  panic), the pool size and the worker's numbers are used as configured, and the verifier
  fails only if the JWKS cannot be fetched.
\<close>

theorem loaded_config_is_sound:
  assumes "\<And>xs. set (co_order co xs) = set xs" and "load co getenv = Inr c"
  shows "config_valid c \<and> new_signer (bytes_of_string (cf_token_signing_key c)) = Inr \<lparr>signer_key = bytes_of_string (cf_token_signing_key c)\<rparr> \<and>
    pool_defaults (cf_pool_max_conns c) = cf_pool_max_conns c \<and>
    (new_worker \<lparr>wc_concurrency = cf_worker_concurrency c, wc_outbound_rps = cf_outbound_email_rps c, wc_max_attempts = 6,
       wc_lease = 60 * second, wc_base_sleep = 0, wc_max_daily = cf_max_daily_emails c\<rparr> =
     \<lparr>wc_concurrency = cf_worker_concurrency c, wc_outbound_rps = cf_outbound_email_rps c, wc_max_attempts = 6,
       wc_lease = 60 * second, wc_base_sleep = second, wc_max_daily = cf_max_daily_emails c\<rparr>) \<and>
    (new_verifier fetch \<lparr>ac_secret = cf_supabase_jwt_secret c, ac_jwks_url = cf_supabase_jwks_url c,
       ac_project_ref = cf_supabase_project_ref c\<rparr> = Inl e \<longrightarrow>
     cf_supabase_jwks_url c \<noteq> '''' \<and> (\<exists>e'. fetch (cf_supabase_jwks_url c) = Inl e' \<and> e = Wrapped ''jwks fetch'' e'))"
proof -
  have v: "config_valid c" by (rule load_valid [OF assms])
  then show ?thesis
    by (auto simp: config_valid_def new_signer_def bytes_of_string_def pool_defaults_def new_worker_def new_verifier_def
        Let_def second_def split: sum.splits if_splits)
qed

subsection \<open>A sample environment\<close>

definition sample_config_ops :: config_ops where
  "sample_config_ops = \<lparr>co_lower = id, co_quote = id, co_net = sample_net,
     co_parse_cidr = (\<lambda>s. Inl (Msg ''invalid CIDR address'')), co_order = rev\<rparr>"

definition sample_vars :: "string \<Rightarrow> string" where
  "sample_vars k =
     (if k = ''TOKEN_SIGNING_KEY'' \<or> k = ''EMAIL_HASH_KEY'' then replicate 32 (CHR ''k'')
      else if k \<in> {''DATABASE_URL'', ''DATABASE_URL_SERVICE_ROLE'', ''SUPABASE_PROJECT_REF'',
          ''RESEND_FROM_ADDRESS'', ''APP_BASE_URL'', ''SUPABASE_JWT_SECRET'', ''ALLOWED_ORIGINS''} then ''x''
      else '''')"

lemma split_on_none: "c \<notin> set s \<Longrightarrow> split_on c s = [s]"
  by (induction s) auto

lemma split_csv_single: "p \<noteq> '''' \<Longrightarrow> CHR '','' \<notin> set p \<Longrightarrow> trim_space p = p \<Longrightarrow> split_csv p = [p]"
  by (simp add: split_csv_def split_on_none)

lemma sample_origins: "split_csv ''x'' = [''x'']"
  by (rule split_csv_single) (simp_all add: trim_space_visible visible_def)

lemma sample_load: "load sample_config_ops sample_vars = Inr (read_config sample_config_ops sample_vars)"
proof -
  let ?c = "read_config sample_config_ops sample_vars"
  have m: "missing_vars sample_config_ops ?c = []"
    by (simp add: missing_vars_def required_vars_def read_config_def sample_config_ops_def sample_vars_def)
  have f: "config_fault ?c = None"
    by (simp add: config_fault_def read_config_def sample_vars_def sample_origins get_int_def to_int32_id)
  have "parse_cidrs sample_config_ops (sample_vars ''TRUSTED_PROXY_CIDRS'') = Inr []"
    by (simp add: parse_cidrs_def split_csv_def sample_vars_def)
  with m f have "load sample_config_ops sample_vars = Inr (?c\<lparr>cf_trusted_proxy_cidrs := []\<rparr>)"
    by (simp add: load_def Let_def)
  then show ?thesis by (simp add: read_config_def)
qed

lemma loaded_config_is_sound_witness: "config_valid (read_config sample_config_ops sample_vars)"
proof -
  have order: "set (co_order sample_config_ops xs) = set xs" for xs by (simp add: sample_config_ops_def)
  show ?thesis by (rule loaded_config_is_sound [OF order sample_load, THEN conjunct1])
qed

text \<open>
  A missing variable is reported with all the others that are missing, whatever order the
  map of required variables is visited in, and before any other fault.
\<close>

theorem missing_variables_are_reported:
  assumes "\<And>xs. set (co_order co xs) = set xs" and "c = read_config co getenv"
    and "ks = fst ` {kv \<in> set (required_vars c). snd kv = ''''} \<union>
      (if getenv ''SUPABASE_JWT_SECRET'' = '''' \<and> getenv ''SUPABASE_JWKS_URL'' = ''''
       then {''SUPABASE_JWT_SECRET or SUPABASE_JWKS_URL''} else {})"
  shows "(ks \<noteq> {} \<longrightarrow> (\<exists>e l. load co getenv = Inl e \<and> is_missing e = Some l \<and> set l = ks)) \<and>
    (ks = {} \<longrightarrow> (\<forall>e. load co getenv = Inl e \<longrightarrow> is_missing e = None))"
proof -
  have m: "set (missing_vars co c) = ks"
    unfolding missing_vars_set [OF assms(1)] assms(3) by (simp add: assms(2) read_config_def)
  show ?thesis
  proof (cases "missing_vars co c = []")
    case True
    with m show ?thesis
      by (auto simp: load_def Let_def assms(2) split: option.splits sum.splits)
  next
    case False
    then have "load co getenv = Inl (MissingVars (missing_vars co c))"
      by (simp add: load_def Let_def assms(2))
    with m False show ?thesis by auto
  qed
qed

text \<open>An empty environment misses everything that is required.\<close>

lemma missing_variables_are_reported_witness:
  "\<exists>e l. load sample_config_ops (\<lambda>k. '''') = Inl e \<and> is_missing e = Some l \<and>
     set l = {''DATABASE_URL'', ''DATABASE_URL_SERVICE_ROLE'', ''SUPABASE_PROJECT_REF'', ''RESEND_FROM_ADDRESS'',
       ''APP_BASE_URL'', ''TOKEN_SIGNING_KEY'', ''EMAIL_HASH_KEY'', ''SUPABASE_JWT_SECRET or SUPABASE_JWKS_URL''}"
proof -
  let ?c = "read_config sample_config_ops (\<lambda>k. '''')"
  have order: "set (co_order sample_config_ops xs) = set xs" for xs by (simp add: sample_config_ops_def)
  have req: "required_vars ?c = [(''DATABASE_URL'', ''''), (''DATABASE_URL_SERVICE_ROLE'', ''''), (''SUPABASE_PROJECT_REF'', ''''),
      (''RESEND_FROM_ADDRESS'', ''''), (''APP_BASE_URL'', ''''), (''TOKEN_SIGNING_KEY'', ''''), (''EMAIL_HASH_KEY'', '''')]"
    by (simp add: required_vars_def read_config_def)
  have "\<forall>kv\<in>set (required_vars ?c). snd kv = ''''" unfolding req by simp
  then have "{kv \<in> set (required_vars ?c). snd kv = ''''} = set (required_vars ?c)" by blast
  moreover have "fst ` set (required_vars ?c) = {''DATABASE_URL'', ''DATABASE_URL_SERVICE_ROLE'', ''SUPABASE_PROJECT_REF'',
      ''RESEND_FROM_ADDRESS'', ''APP_BASE_URL'', ''TOKEN_SIGNING_KEY'', ''EMAIL_HASH_KEY''}"
    unfolding req by (simp only: set_simps image_insert image_empty fst_conv)
  ultimately have ks: "{''DATABASE_URL'', ''DATABASE_URL_SERVICE_ROLE'', ''SUPABASE_PROJECT_REF'', ''RESEND_FROM_ADDRESS'',
       ''APP_BASE_URL'', ''TOKEN_SIGNING_KEY'', ''EMAIL_HASH_KEY'', ''SUPABASE_JWT_SECRET or SUPABASE_JWKS_URL''} =
      fst ` {kv \<in> set (required_vars ?c). snd kv = ''''} \<union>
      (if (\<lambda>k::string. '''') ''SUPABASE_JWT_SECRET'' = '''' \<and> (\<lambda>k::string. '''') ''SUPABASE_JWKS_URL'' = ''''
       then {''SUPABASE_JWT_SECRET or SUPABASE_JWKS_URL''} else {})"
    by (simp only: simp_thms if_True Un_insert_left Un_empty_left)
  show ?thesis
    by (rule mp [OF missing_variables_are_reported [OF order refl ks, THEN conjunct1] insert_not_empty])
qed

end
