(* ===== verification/Server.thy ===== *)
theory Server
  imports Admins Config
begin

text \<open>
  \<open>cmd/server/main.go\<close>: how the program starts from its configuration, and how a request goes
  through the global middleware, the router and a route group to its handler. The JWT parser,
  the JWKS fetch, \<open>pgxpool\<close>, \<open>httprate\<close> and chi's matching of a path against the registered
  patterns are parameters. The goroutines and the graceful shutdown are in theory \<open>Shutdown\<close>.
\<close>

section \<open>Starting\<close>

datatype mailer = FakeMailer fake | ResendMailer resend

record 'k system =
  sy_config :: config
  sy_hash_key :: bytes
  sy_trusted :: "ipnet list"
  sy_user_pool :: user_pool
  sy_service_pool :: service_pool
  sy_signer :: signer
  sy_mailer :: mailer
  sy_worker :: worker_config
  sy_deps :: deps
  sy_verifier :: "'k verifier"

datatype start_error = LoadFailed config_error | StartFailed gerror
datatype 'k startup = Started "'k system" | NotStarted start_error | StartCrashed panic

fun start_error_text :: "start_error \<Rightarrow> string" where
  "start_error_text (LoadFailed e) = ''load config: '' @ config_error_text e"
| "start_error_text (StartFailed e) = error_text e"

record 'k start_ops =
  so_config :: config_ops
  so_pgx :: pgx_ops
  so_fetch :: "string \<Rightarrow> gerror + 'k keyfunc"
  so_random :: "nat \<Rightarrow> bytes"

text \<open>\<open>time.Duration(n) * unit\<close>, a 64-bit product.\<close>

definition duration :: "int \<Rightarrow> int \<Rightarrow> time" where
  "duration n u = sint (word_of_int n * word_of_int u :: int64)"

definition choose_mailer :: "(nat \<Rightarrow> bytes) \<Rightarrow> config \<Rightarrow> mailer" where
  "choose_mailer random c =
     (if cf_resend_api_key c = '''' then FakeMailer (new_fake random)
      else ResendMailer (new_resend (cf_resend_api_key c) (cf_resend_from_address c)))"

definition worker_setup :: "config \<Rightarrow> worker_config" where
  "worker_setup c = new_worker
     \<lparr>wc_concurrency = cf_worker_concurrency c, wc_outbound_rps = cf_outbound_email_rps c, wc_max_attempts = 6,
      wc_lease = 60 * second, wc_base_sleep = 0, wc_max_daily = cf_max_daily_emails c\<rparr>"

definition service_deps :: "config \<Rightarrow> deps" where
  "service_deps c = new_service
     \<lparr>dp_base_url = cf_app_base_url c,
      dp_throttle = duration (cf_subscribe_email_throttle_sec c) second,
      dp_unsubscribe_ttl = duration (duration (cf_unsubscribe_token_ttl_days c) 24) (60 * minute),
      dp_confirm_ttl = 0\<rparr>"

definition auth_setup :: "config \<Rightarrow> auth_config" where
  "auth_setup c = \<lparr>ac_secret = cf_supabase_jwt_secret c, ac_jwks_url = cf_supabase_jwks_url c,
     ac_project_ref = cf_supabase_project_ref c\<rparr>"

text \<open>\<open>run\<close>, up to the point where the server listens.\<close>

definition start :: "'k start_ops \<Rightarrow> (string \<Rightarrow> string) \<Rightarrow> 'k startup" where
  "start so getenv =
     (case load (so_config so) getenv of
        Inl e \<Rightarrow> NotStarted (LoadFailed e)
      | Inr c \<Rightarrow>
     (case new_user_pool (so_pgx so) (cf_database_url c) (cf_pool_max_conns c) of
        Inl e \<Rightarrow> NotStarted (StartFailed (Wrapped ''user pool'' e))
      | Inr up \<Rightarrow>
     (case new_service_pool (so_pgx so) (cf_database_url_service_role c) (cf_pool_max_conns c) of
        Inl e \<Rightarrow> NotStarted (StartFailed (Wrapped ''service pool'' e))
      | Inr sp \<Rightarrow>
     (case new_signer (bytes_of_string (cf_token_signing_key c)) of
        Inl p \<Rightarrow> StartCrashed p
      | Inr sg \<Rightarrow>
     (case new_verifier (so_fetch so) (auth_setup c) of
        Inl e \<Rightarrow> NotStarted (StartFailed (Wrapped ''jwt verifier'' e))
      | Inr v \<Rightarrow> Started
          \<lparr>sy_config = c, sy_hash_key = bytes_of_string (cf_email_hash_key c),
           sy_trusted = cf_trusted_proxy_cidrs c, sy_user_pool = up, sy_service_pool = sp, sy_signer = sg,
           sy_mailer = choose_mailer (so_random so) c, sy_worker = worker_setup c,
           sy_deps = service_deps c, sy_verifier = v\<rparr>)))))"

section \<open>Serving\<close>

text \<open>
  What one request meets: the parameters, the outside's part of each component's surroundings
  (the program's own part is filled in below), one limiter per route group, whether each pool
  answers a ping, how chi matches the request against the registered routes, and what it
  answers to a request without a route.
\<close>

record 'k server_env =
  rv_random :: bytes
  rv_lower :: "string \<Rightarrow> string"
  rv_net :: net_ops
  rv_io :: io
  rv_limiter :: "nat \<Rightarrow> limiter"
  rv_parse_jwt :: "'k jwt_parser"
  rv_auth :: auth_env
  rv_subs :: subs_env
  rv_admin :: admin_env
  rv_pings :: "bool \<times> bool"
  rv_match :: "(string \<times> string) list \<Rightarrow> string \<Rightarrow> string \<Rightarrow> ((string \<times> string) \<times> (string \<Rightarrow> string)) option"
  rv_unrouted :: "request \<Rightarrow> rw \<Rightarrow> rw"

definition subs_wiring :: "'k system \<Rightarrow> 'k server_env \<Rightarrow> subs_env" where
  "subs_wiring sys env = (rv_subs env)\<lparr>sv_signer := sy_signer sys, sv_hash_key := Some (sy_hash_key sys),
     sv_lower := rv_lower env, sv_io := rv_io env\<rparr>"

definition auth_wiring :: "'k system \<Rightarrow> 'k server_env \<Rightarrow> auth_env" where
  "auth_wiring sys env = (rv_auth env)\<lparr>au_verify := verify_jwt (rv_lower env) (rv_parse_jwt env) (sy_verifier sys),
     au_io := rv_io env\<rparr>"

definition admin_wiring :: "'k server_env \<Rightarrow> admin_env" where
  "admin_wiring env = (rv_admin env)\<lparr>ad_io := rv_io env\<rparr>"

datatype endpoint =
    EpHealth | EpReady | EpSubscribe | EpConfirmPage | EpConfirm | EpUnsubscribePage | EpUnsubscribe
  | EpMySubscription | EpSubscribers | EpNotifications | EpResend

definition routes :: "((string \<times> string) \<times> endpoint) list" where
  "routes =
     [((''GET'', ''/healthz''), EpHealth),
      ((''GET'', ''/readyz''), EpReady),
      ((''POST'', ''/v1/subscribers''), EpSubscribe),
      ((''GET'', ''/v1/subscribers/confirm''), EpConfirmPage),
      ((''POST'', ''/v1/subscribers/confirm''), EpConfirm),
      ((''GET'', ''/v1/subscribers/unsubscribe''), EpUnsubscribePage),
      ((''POST'', ''/v1/subscribers/unsubscribe''), EpUnsubscribe),
      ((''GET'', ''/v1/me/subscription''), EpMySubscription),
      ((''GET'', ''/v1/admin/subscribers''), EpSubscribers),
      ((''GET'', ''/v1/admin/notifications''), EpNotifications),
      ((''POST'', ''/v1/admin/subscribers/{id}/resend-confirm''), EpResend)]"

text \<open>The route groups: their limiter (by number), their limit per minute, their authentication.\<close>

definition limited ::
  "'k system \<Rightarrow> 'k server_env \<Rightarrow> nat \<Rightarrow> (config \<Rightarrow> int) \<Rightarrow> world middleware" where
  "limited sys env g limit_of =
     rate_limit (rv_limiter env g) (rv_net env) (Some (sy_trusted sys)) (limit_of (sy_config sys)) minute"

fun endpoint_handler :: "'k system \<Rightarrow> 'k server_env \<Rightarrow> endpoint \<Rightarrow> world handler" where
  "endpoint_handler sys env EpHealth = health_ok"
| "endpoint_handler sys env EpReady = readyz [Some (fst (rv_pings env)), Some (snd (rv_pings env))]"
| "endpoint_handler sys env EpSubscribe =
     limited sys env 0 cf_rate_limit_subscribers_per_min
       (optional_user (auth_wiring sys env) (handle_subscribe (subs_wiring sys env) (sy_deps sys)))"
| "endpoint_handler sys env EpConfirmPage =
     limited sys env 1 cf_rate_limit_confirm_per_min (handle_confirm_get (subs_wiring sys env))"
| "endpoint_handler sys env EpConfirm =
     limited sys env 1 cf_rate_limit_confirm_per_min (handle_confirm_post (subs_wiring sys env))"
| "endpoint_handler sys env EpUnsubscribePage =
     limited sys env 2 cf_rate_limit_default_per_min (handle_unsubscribe_get (subs_wiring sys env))"
| "endpoint_handler sys env EpUnsubscribe =
     limited sys env 2 cf_rate_limit_default_per_min (handle_unsubscribe_post (subs_wiring sys env))"
| "endpoint_handler sys env EpMySubscription =
     limited sys env 3 cf_rate_limit_default_per_min
       (require_user (auth_wiring sys env) (handle_my_subscription (subs_wiring sys env)))"
| "endpoint_handler sys env EpSubscribers =
     limited sys env 4 cf_rate_limit_default_per_min
       (require_admin (auth_wiring sys env) (handle_list_subscribers (admin_wiring env)))"
| "endpoint_handler sys env EpNotifications =
     limited sys env 4 cf_rate_limit_default_per_min
       (require_admin (auth_wiring sys env) (handle_list_notifications (admin_wiring env)))"
| "endpoint_handler sys env EpResend =
     limited sys env 4 cf_rate_limit_default_per_min
       (require_admin (auth_wiring sys env)
         (handle_resend_confirm (ad_uuid_scan (admin_wiring env))
           (enqueue_confirm (subs_wiring sys env) (sy_deps sys))))"

definition matched :: "'k server_env \<Rightarrow> request \<Rightarrow> (endpoint \<times> (string \<Rightarrow> string)) option" where
  "matched env r =
     (case rv_match env (map fst routes) (rq_method r) (rq_path r) of
        None \<Rightarrow> None
      | Some (k, params) \<Rightarrow> map_option (\<lambda>e. (e, params)) (map_of routes k))"

definition router :: "'k system \<Rightarrow> 'k server_env \<Rightarrow> world handler" where
  "router sys env r sw =
     (case matched env r of
        Some (e, params) \<Rightarrow> endpoint_handler sys env e (r\<lparr>rq_url_param := params\<rparr>) sw
      | None \<Rightarrow> (case sw of (s, w) \<Rightarrow> Done (s, rv_unrouted env r w)))"

definition log_access :: "access_line \<Rightarrow> world \<Rightarrow> world" where
  "log_access l s = s\<lparr>w_access := w_access s @ [l]\<rparr>"

definition serve :: "'k system \<Rightarrow> 'k server_env \<Rightarrow> world handler" where
  "serve sys env =
     request_id (rv_random env)
       (recover_panics
         (logging log_access (rv_net env) (Some (sy_trusted sys))
           (security_headers
             (cors (rv_lower env) (cf_allowed_origins (sy_config sys))
               (router sys env)))))"

section \<open>Handlers behave\<close>

text \<open>
  \<open>H\<close> stands for the headers that the global middleware sets; whatever a handler does, the
  response still carries them.
\<close>

definition guarded_keys :: "string set" where
  "guarded_keys = {''X-Request-Id'', ''Strict-Transport-Security'', ''X-Content-Type-Options'',
     ''X-Frame-Options'', ''Referrer-Policy'', ''Permissions-Policy'', ''Cross-Origin-Resource-Policy''}"

definition response_headers :: "rw \<Rightarrow> string \<rightharpoonup> string" where
  "response_headers w = (case rw_sent w of None \<Rightarrow> rw_header w | Some (st, h) \<Rightarrow> h)"

definition carries :: "(string \<rightharpoonup> string) \<Rightarrow> rw \<Rightarrow> bool" where
  "carries H w \<longleftrightarrow> H \<subseteq>\<^sub>m rw_header w \<and> H \<subseteq>\<^sub>m response_headers w"

named_theorems carry_intros \<open>the response keeps the guarded headers\<close>

lemma map_le_iff: "H \<subseteq>\<^sub>m f \<longleftrightarrow> (\<forall>k v. H k = Some v \<longrightarrow> f k = Some v)"
  by (auto simp: map_le_def dom_def)

lemma carries_set_header [carry_intros]:
  "k \<notin> dom H \<Longrightarrow> carries H w \<Longrightarrow> carries H (set_header k v w)"
  by (auto simp: carries_def map_le_iff response_headers_def rw_simps split: option.splits)

lemma carries_write [carry_intros]:
  "carries H w \<Longrightarrow> carries H (write_header st w)"
  "carries H w \<Longrightarrow> carries H (write_body b w)"
  by (auto simp: carries_def map_le_iff response_headers_def rw_simps split: option.splits)

lemma other_keys:
  "''Content-Type'' \<notin> guarded_keys" "''X-Robots-Tag'' \<notin> guarded_keys" "''Cache-Control'' \<notin> guarded_keys"
  "''Retry-After'' \<notin> guarded_keys" "''Access-Control-Max-Age'' \<notin> guarded_keys"
  "''Access-Control-Allow-Headers'' \<notin> guarded_keys" "''Access-Control-Allow-Methods'' \<notin> guarded_keys"
  "''Access-Control-Allow-Origin'' \<notin> guarded_keys" "''Vary'' \<notin> guarded_keys"
  unfolding guarded_keys_def by simp_all

lemma carries_answer [carry_intros]:
  assumes "dom H \<subseteq> guarded_keys" and "carries H w"
  shows "carries H (write_json st v w)" "carries H (write_html st b w)" "carries H (write_error r e w)"
proof -
  have json: "carries H (write_json st' v' w)" for st' v'
    using assms other_keys unfolding write_json_def by (intro carry_intros) auto
  then show "carries H (write_json st v w)" .
  show "carries H (write_html st b w)"
    using assms other_keys unfolding write_html_def by (intro carry_intros) auto
  show "carries H (write_error r e w)"
    unfolding write_error_def using json by (auto split: prod.splits)
qed

lemma carries_cors [carry_intros]:
  assumes "dom H \<subseteq> guarded_keys" and "carries H w"
  shows "carries H (cors_headers ul allowed r w)"
  using assms other_keys unfolding cors_headers_def Let_def by (auto intro!: carry_intros)

text \<open>
  The contract of everything behind the global middleware: it answers, without a panic; it
  moves the database by statements only; it does not touch the access log; the response keeps
  its guarded headers, and the \<open>statusWriter\<close> knows its status.
\<close>

text \<open>The \<open>statusWriter\<close> around the handlers holds the status of the response.\<close>

definition watch_ok :: "rw \<Rightarrow> bool" where
  "watch_ok w \<longleftrightarrow> rw_watch w = Some (case rw_sent w of
     None \<Rightarrow> new_status_writer | Some (st, h) \<Rightarrow> \<lparr>sw_status = st, sw_wrote = True\<rparr>)"

lemma watched_status_sent: "watch_ok w \<Longrightarrow> watched_status w = rw_status w"
  by (auto simp: watch_ok_def watched_status_def new_status_writer_def rw_status_def split: option.splits)

lemma watch_ok_write [simp, intro]:
  "watch_ok w \<Longrightarrow> watch_ok (write_header st w)" "watch_ok w \<Longrightarrow> watch_ok (set_header k v w)"
  "watch_ok w \<Longrightarrow> watch_ok (write_json st j w)" "watch_ok w \<Longrightarrow> watch_ok (write_html st b w)"
  by (auto simp: watch_ok_def write_json_def write_html_def rw_simps sw_write_header_def new_status_writer_def
      split: option.splits)

lemma watch_ok_answers [intro]:
  "watch_ok w \<Longrightarrow> watch_ok (write_error r e w)" "watch_ok w \<Longrightarrow> watch_ok (cors_headers ul allowed r w)"
  by (auto simp: write_error_def cors_headers_def Let_def split: prod.splits)

definition keeps_headers :: "rw \<Rightarrow> rw \<Rightarrow> bool" where
  "keeps_headers w w' \<longleftrightarrow> (\<forall>H. dom H \<subseteq> guarded_keys \<longrightarrow> carries H w \<longrightarrow> carries H w') \<and>
     (watch_ok w \<longrightarrow> watch_ok w')"

definition tame_at :: "pg_ops \<Rightarrow> world handler \<Rightarrow> request \<Rightarrow> world \<Rightarrow> rw \<Rightarrow> bool" where
  "tame_at pg h r s w \<longleftrightarrow>
     (\<exists>s' w'. h r (s, w) = Done (s', w') \<and> db_runs pg (st_db (w_store s)) (st_db (w_store s')) \<and>
        w_access s' = w_access s \<and> (cache_ok (w_cache s) \<longrightarrow> cache_ok (w_cache s')) \<and> keeps_headers w w')"

definition tame :: "pg_ops \<Rightarrow> world handler \<Rightarrow> bool" where
  "tame pg h \<longleftrightarrow> (\<forall>r s w. tame_at pg h r s w)"

named_theorems tame_intros \<open>handlers and middleware under the contract\<close>

lemma tameI: "(\<And>r s w. tame_at pg h r s w) \<Longrightarrow> tame pg h"
  by (simp add: tame_def)

lemma tameD: "tame pg h \<Longrightarrow> tame_at pg h r s w"
  by (simp add: tame_def)

lemma keeps_headers_refl [simp, intro]: "keeps_headers w w"
  by (simp add: keeps_headers_def)

lemma keeps_headers_trans: "keeps_headers w w' \<Longrightarrow> keeps_headers w' w'' \<Longrightarrow> keeps_headers w w''"
  by (simp add: keeps_headers_def)

lemma tame_at_via:
  assumes "tame_at pg h r' s1 w1" and "h' r (s, w) = h r' (s1, w1)"
    and "db_runs pg (st_db (w_store s)) (st_db (w_store s1))" and "w_access s1 = w_access s"
    and "cache_ok (w_cache s) \<longrightarrow> cache_ok (w_cache s1)" and "keeps_headers w w1"
  shows "tame_at pg h' r s w"
  using assms unfolding tame_at_def by (metis db_runs_trans keeps_headers_trans)

lemma keeps_headers_answers [simp, intro]:
  "keeps_headers w (write_json st v w)" "keeps_headers w (write_html st b w)" "keeps_headers w (write_error r e w)"
  "keeps_headers w (cors_headers ul allowed r w)" "keeps_headers w (write_header st w)"
  by (auto simp: keeps_headers_def intro: carry_intros)

lemma tame_probes [tame_intros]: "tame pg health_ok" "tame pg (readyz ps)"
proof -
  show "tame pg health_ok"
    by (rule tameI) (auto simp: tame_at_def health_ok_def)
  have "tame_at pg (readyz ps) r s w" for r s w
    by (induction ps r "(s, w)" rule: readyz.induct) (auto simp: tame_at_def)
  then show "tame pg (readyz ps)" by (rule tameI)
qed

lemma tame_pages [tame_intros]:
  "tame pg (handle_confirm_get env)" "tame pg (handle_unsubscribe_get env)"
  by (rule tameI; auto simp: tame_at_def handle_confirm_get_def handle_unsubscribe_get_def Let_def split: sum.splits)+

text \<open>The handlers that work on the store alone.\<close>

definition tame_store :: "pg_ops \<Rightarrow> (request \<Rightarrow> store \<times> rw \<Rightarrow> (store \<times> rw) outcome) \<Rightarrow> bool" where
  "tame_store pg b \<longleftrightarrow> (\<forall>r s w. \<exists>s' w'. b r (s, w) = Done (s', w') \<and> db_runs pg (st_db s) (st_db s') \<and> keeps_headers w w')"

lemma tame_on_store: "tame_store pg b \<Longrightarrow> tame pg (\<lambda>r. on_store (b r))"
proof (rule tameI)
  fix r w and s :: world
  assume "tame_store pg b"
  then obtain s' w' where "b r (w_store s, w) = Done (s', w')" "db_runs pg (st_db (w_store s)) (st_db s')" "keeps_headers w w'"
    unfolding tame_store_def by blast
  then show "tame_at pg (\<lambda>r. on_store (b r)) r s w" by (auto simp: tame_at_def on_store_def)
qed

lemma answered_store:
  assumes "\<exists>s' w'. out = Done (s', w') \<and> keeps_headers w w'" and "db_runs pg d (db_after out)"
  shows "\<exists>s' w'. out = Done (s', w') \<and> db_runs pg d (st_db s') \<and> keeps_headers w w'"
  using assms by auto

lemma subscribe_body_shape:
  assumes "sv_hash_key env \<noteq> None"
  shows "\<exists>s' w'. subscribe_enqueue env d r email tok i (s, w) = Done (s', w') \<and> keeps_headers w w'"
    and "\<exists>s' w'. subscribe_upsert env d r email source (s, w) = Done (s', w') \<and> keeps_headers w w'"
    and "\<exists>s' w'. subscribe_body env d r (s, w) = Done (s', w') \<and> keeps_headers w w'"
proof -
  have e: "\<exists>s' w'. subscribe_enqueue env d r email tok i (s, w) = Done (s', w') \<and> keeps_headers w w'" for tok i email s
    using assms by (auto simp: subscribe_enqueue_def log_hashed_def failed_def Let_def split: sum.splits prod.splits)
  have u: "\<exists>s' w'. subscribe_upsert env d r email source (s, w) = Done (s', w') \<and> keeps_headers w w'" for email source s
    using assms e by (auto simp: subscribe_upsert_def log_hashed_def failed_def Let_def
        split: sum.splits prod.splits option.splits)
  show "\<exists>s' w'. subscribe_enqueue env d r email tok i (s, w) = Done (s', w') \<and> keeps_headers w w'" by (rule e)
  show "\<exists>s' w'. subscribe_upsert env d r email source (s, w) = Done (s', w') \<and> keeps_headers w w'" by (rule u)
  show "\<exists>s' w'. subscribe_body env d r (s, w) = Done (s', w') \<and> keeps_headers w w'"
    using assms u by (auto simp: subscribe_body_def log_hashed_def failed_def
        split: sum.splits prod.splits option.splits bool.splits)
qed

lemma tame_subscribe [tame_intros]:
  assumes "sv_hash_key env \<noteq> None"
  shows "tame (io_pg (sv_io env)) (handle_subscribe env d)"
proof (rule tameI)
  fix r w and s :: world
  obtain s' w' where "subscribe_body env d r (w_store s, w) = Done (s', w')"
    "db_runs (io_pg (sv_io env)) (st_db (w_store s)) (st_db s')" "keeps_headers w w'"
    using answered_store [OF subscribe_body_shape(3) [OF assms] subscribe_body_runs] by blast
  then show "tame_at (io_pg (sv_io env)) (handle_subscribe env d) r s w"
    by (auto simp: tame_at_def handle_subscribe_def on_store_def Let_def)
qed

lemma tx_runs:
  "with_tx io (confirm_txn h) s = (res, s') \<Longrightarrow> db_runs (io_pg io) (st_db s) (st_db s')"
  "with_tx io (\<lambda>q k. unsubscribe_by_id q i) s = (res', s') \<Longrightarrow> db_runs (io_pg io) (st_db s) (st_db s')"
  "with_user uq io jc (my_subscription_txn e) s = (res'', s') \<Longrightarrow> db_runs (io_pg io) (st_db s) (st_db s')"
  by (erule with_tx_runs [rotated] with_user_runs [rotated], rule txn_runs, assumption)+

lemma tame_confirm [tame_intros]: "tame (io_pg (sv_io env)) (handle_confirm_post env)"
proof -
  have "tame_store (io_pg (sv_io env)) (confirm_body env)"
    by (auto simp: tame_store_def confirm_body_def Let_def split: sum.splits prod.splits dest: tx_runs)
  from tame_on_store [OF this] show ?thesis by (simp add: handle_confirm_post_def [abs_def])
qed

lemma tame_unsubscribe [tame_intros]: "tame (io_pg (sv_io env)) (handle_unsubscribe_post env)"
proof -
  have "tame_store (io_pg (sv_io env)) (unsubscribe_body env)"
    by (auto simp: tame_store_def unsubscribe_body_def Let_def split: sum.splits prod.splits option.splits dest: tx_runs)
  from tame_on_store [OF this] show ?thesis by (simp add: handle_unsubscribe_post_def [abs_def])
qed

lemma tame_my_subscription [tame_intros]: "tame (io_pg (sv_io env)) (handle_my_subscription env)"
proof -
  have "tame_store (io_pg (sv_io env)) (my_subscription_body env)"
    by (auto simp: tame_store_def my_subscription_body_def failed_def split: sum.splits prod.splits option.splits dest: tx_runs)
  from tame_on_store [OF this] show ?thesis by (simp add: handle_my_subscription_def [abs_def])
qed

lemma list_runs:
  "with_user uq io jc (list_subscribers_txn lim offset f) s = (res, s') \<Longrightarrow> db_runs (io_pg io) (st_db s) (st_db s')"
  "with_user uq io jc (list_notifications_txn lim offset f) s = (res', s') \<Longrightarrow> db_runs (io_pg io) (st_db s) (st_db s')"
  "with_user uq io jc (\<lambda>q k. is_admin q u) s = (res'', s') \<Longrightarrow> db_runs (io_pg io) (st_db s) (st_db s')"
  by (erule with_user_runs [rotated];
      auto simp: list_subscribers_txn_def list_notifications_txn_def query_iff dest!: reads_keep_db)+

lemma tame_lists [tame_intros]:
  "tame (io_pg (ad_io env)) (handle_list_subscribers env)" "tame (io_pg (ad_io env)) (handle_list_notifications env)"
  by (rule tameI; auto simp: tame_at_def handle_list_subscribers_def handle_list_notifications_def
      split: sum.splits prod.splits option.splits dest: list_runs)+

lemma tame_resend [tame_intros]:
  "tame (io_pg (sv_io env)) (handle_resend_confirm scan (enqueue_confirm env d))"
  by (rule tameI) (auto simp: tame_at_def handle_resend_confirm_def split: option.splits prod.splits
      dest: enqueue_confirm_runs)

lemma check_admin_runs:
  assumes "\<And>ks. set (au_order env ks) = set ks" and "check_admin env c u s = (res, s')"
  shows "db_runs (io_pg (au_io env)) (st_db (w_store s)) (st_db (w_store s')) \<and> w_access s' = w_access s \<and>
    (cache_ok (w_cache s) \<longrightarrow> cache_ok (w_cache s'))"
proof -
  obtain hit cache where get: "cache_get (au_get env) (c_sub c) (w_cache s) = (hit, cache)" by fastforce
  have "cache_ok cache" if "cache_ok (w_cache s)" by (rule cache_get_facts(2) [OF get that])
  then have "cache_ok (cache_put (au_order env) now sub b cache)" if "cache_ok (w_cache s)" for now sub b
    using cache_put_facts(1) [OF _ assms(1)] that by blast
  with assms(2) get \<open>cache_ok (w_cache s) \<Longrightarrow> cache_ok cache\<close> show ?thesis
    by (auto simp: check_admin_def split: sum.splits prod.splits option.splits dest: list_runs(3))
qed

lemma tame_user_middleware [tame_intros]:
  assumes "tame pg h"
  shows "tame pg (require_user env h)" "tame pg (optional_user env h)"
proof -
  show "tame pg (require_user env h)"
    by (rule tameI) (auto simp: require_user_def tame_at_def split: sum.splits option.splits
        intro: tameD [OF assms, unfolded tame_at_def])
  show "tame pg (optional_user env h)"
    by (rule tameI) (auto simp: optional_user_def tame_at_def split: sum.splits option.splits
        intro: tameD [OF assms, unfolded tame_at_def])
qed

lemma tame_admin_middleware [tame_intros]:
  assumes "\<And>ks. set (au_order env ks) = set ks" and "tame (io_pg (au_io env)) h"
  shows "tame (io_pg (au_io env)) (require_admin env h)"
proof (rule tameI)
  fix r w and s :: world
  show "tame_at (io_pg (au_io env)) (require_admin env h) r s w"
  proof (cases "\<exists>c u s'. extract_claims env r = Inr (Some c) \<and> au_uuid_scan env (c_sub c) = Some u \<and>
      check_admin env c u s = (Inr True, s')")
    case True
    then obtain c u s' where c: "extract_claims env r = Inr (Some c)" "au_uuid_scan env (c_sub c) = Some u"
        "check_admin env c u s = (Inr True, s')" by blast
    with check_admin_runs [OF assms(1) c(3)] show ?thesis
      by (intro tame_at_via [OF tameD [OF assms(2), of "with_claims r c" s' w]]) (simp_all add: require_admin_def)
  next
    case False
    then show ?thesis
      by (auto simp: require_admin_def tame_at_def split: sum.splits option.splits prod.splits bool.splits
          dest: check_admin_runs [OF assms(1)])
  qed
qed

text \<open>The contract of \<open>httprate\<close>: it only adds headers of its own.\<close>

definition limiter_ok :: "limiter \<Rightarrow> bool" where
  "limiter_ok lim \<longleftrightarrow> (\<forall>n window key w b w'. lim n window key w = (b, w') \<longrightarrow>
     rw_sent w' = rw_sent w \<and> rw_body w' = rw_body w \<and> rw_watch w' = rw_watch w \<and> (\<forall>k\<in>guarded_keys. rw_header w' k = rw_header w k))"

lemma keeps_headers_limiter:
  assumes "limiter_ok lim" and "lim n window key w = (b, w')"
  shows "keeps_headers w w'"
proof -
  have w': "rw_sent w' = rw_sent w" "rw_watch w' = rw_watch w" "\<forall>k\<in>guarded_keys. rw_header w' k = rw_header w k"
    using assms unfolding limiter_ok_def by blast+
  then show ?thesis
    unfolding keeps_headers_def carries_def response_headers_def map_le_iff watch_ok_def rw_status_def
    by (auto split: option.splits)
qed

lemma tame_rate_limit [tame_intros]:
  assumes "limiter_ok lim" and "tame pg h"
  shows "tame pg (rate_limit lim nt trusted n window h)"
proof (rule tameI)
  fix r w and s :: world
  obtain b w1 where l: "lim n window (client_ip nt trusted r) w = (b, w1)" by fastforce
  have k: "keeps_headers w w1" by (rule keeps_headers_limiter [OF assms(1) l])
  have k': "keeps_headers w (write_json 429 v (set_header ''Retry-After'' ''60'' w1))" for v
    by (rule keeps_headers_trans [OF k]) (auto simp: keeps_headers_def other_keys subset_iff intro!: carry_intros)
  show "tame_at pg (rate_limit lim nt trusted n window h) r s w"
  proof (cases "n \<le> 0 \<or> \<not> b")
    case True
    then show ?thesis
      using k l by (cases "n \<le> 0") (auto simp: rate_limit_def intro: tame_at_via [OF tameD [OF assms(2)]])
  next
    case False
    then show ?thesis using l k' by (auto simp: rate_limit_def tame_at_def)
  qed
qed

section \<open>The server behaves\<close>

text \<open>What a request relies on: 16 random bytes, and the contracts of \<open>httprate\<close>, chi and Go's map.\<close>

definition env_ok :: "'k server_env \<Rightarrow> bool" where
  "env_ok env \<longleftrightarrow> length (rv_random env) = 16 \<and> (\<forall>g. limiter_ok (rv_limiter env g)) \<and>
     (\<forall>r w. keeps_headers w (rv_unrouted env r w)) \<and> (\<forall>ks. set (au_order (rv_auth env) ks) = set ks)"

lemma wiring_simps [simp]:
  "sv_io (subs_wiring sys env) = rv_io env" "sv_hash_key (subs_wiring sys env) = Some (sy_hash_key sys)"
  "sv_signer (subs_wiring sys env) = sy_signer sys" "au_io (auth_wiring sys env) = rv_io env"
  "au_order (auth_wiring sys env) = au_order (rv_auth env)" "ad_io (admin_wiring env) = rv_io env"
  "ad_uuid_scan (admin_wiring env) = ad_uuid_scan (rv_admin env)"
  by (simp_all add: subs_wiring_def auth_wiring_def admin_wiring_def)

lemma tame_endpoint:
  assumes "env_ok env"
  shows "tame (io_pg (rv_io env)) (endpoint_handler sys env e)"
proof -
  have lim: "limiter_ok (rv_limiter env g)" for g using assms by (simp add: env_ok_def)
  have order: "set (au_order (auth_wiring sys env) ks) = set ks" for ks using assms by (simp add: env_ok_def)
  note parts = tame_probes tame_pages tame_subscribe [of "subs_wiring sys env" "sy_deps sys"]
    tame_confirm [of "subs_wiring sys env"] tame_unsubscribe [of "subs_wiring sys env"]
    tame_my_subscription [of "subs_wiring sys env"] tame_lists [of "admin_wiring env"]
    tame_resend [of "subs_wiring sys env" "ad_uuid_scan (rv_admin env)" "sy_deps sys"]
  note user = tame_user_middleware and admin = tame_admin_middleware [where env = "auth_wiring sys env", OF order, simplified]
  show ?thesis
    by (cases e) (simp_all add: limited_def parts [simplified] user admin tame_rate_limit lim)
qed

lemma tame_router:
  assumes "env_ok env"
  shows "tame (io_pg (rv_io env)) (router sys env)"
proof (rule tameI)
  fix r w and s :: world
  show "tame_at (io_pg (rv_io env)) (router sys env) r s w"
  proof (cases "matched env r")
    case None
    then show ?thesis using assms by (simp add: router_def tame_at_def env_ok_def)
  next
    case (Some x)
    obtain e params where "x = (e, params)" by fastforce
    with Some show ?thesis
      by (intro tame_at_via [OF tameD [OF tame_endpoint [OF assms, of sys e], of "r\<lparr>rq_url_param := params\<rparr>" s w]])
        (simp_all add: router_def)
  qed
qed

lemma tame_cors:
  assumes "tame pg h"
  shows "tame pg (cors ul allowed h)"
proof (rule tameI)
  fix r w and s :: world
  show "tame_at pg (cors ul allowed h) r s w"
  proof (cases "rq_method r = ''OPTIONS''")
    case True
    then show ?thesis
      by (auto simp: cors_def tame_at_def Let_def intro: keeps_headers_trans [OF keeps_headers_answers(4) keeps_headers_answers(5)])
  next
    case False
    then show ?thesis
      by (intro tame_at_via [OF tameD [OF assms, of r s "cors_headers ul allowed r w"]]) (simp_all add: cors_def Let_def)
  qed
qed

text \<open>The headers of the global middleware.\<close>

definition secure_headers :: "string \<rightharpoonup> string" where
  "secure_headers = map_of
     [(''Cross-Origin-Resource-Policy'', ''same-site''),
      (''Permissions-Policy'', ''accelerometer=(), camera=(), geolocation=(), gyroscope=(), microphone=(), payment=(), usb=()''),
      (''Referrer-Policy'', ''strict-origin-when-cross-origin''),
      (''X-Frame-Options'', ''DENY''),
      (''X-Content-Type-Options'', ''nosniff''),
      (''Strict-Transport-Security'', ''max-age=63072000; includeSubDomains; preload'')]"

definition server_headers :: "string \<Rightarrow> string \<rightharpoonup> string" where
  "server_headers rid = secure_headers(''X-Request-Id'' \<mapsto> rid)"

lemma server_headers_guarded: "dom (server_headers rid) \<subseteq> guarded_keys"
  unfolding server_headers_def secure_headers_def dom_fun_upd guarded_keys_def dom_map_of_conv_image_fst by simp

text \<open>The writer behind \<open>SecurityHeaders\<close>.\<close>

definition secured :: "rw \<Rightarrow> rw" where
  "secured w = w\<lparr>rw_header := rw_header w ++ secure_headers\<rparr>"

lemma security_headers_secured: "security_headers h r (s, w) = h r (s, secured w)"
  by (simp add: security_headers_def secured_def secure_headers_def set_header_def)

text \<open>The writer that \<open>Logging\<close> passes on, and what it leaves of it.\<close>

definition watched :: "rw \<Rightarrow> rw" where
  "watched w = w\<lparr>rw_watch := Some new_status_writer\<rparr>"

definition unwatched :: "rw \<Rightarrow> rw" where
  "unwatched w = w\<lparr>rw_watch := None\<rparr>"

lemma watched_simps [simp]:
  "rw_sent (watched w) = rw_sent w" "rw_body (watched w) = rw_body w" "rw_header (watched w) = rw_header w"
  by (simp_all add: watched_def)

lemma unwatched_simps [simp]:
  "rw_status (unwatched w) = rw_status w" "rw_body (unwatched w) = rw_body w" "rw_header (unwatched w) = rw_header w"
  "rw_sent (unwatched w) = rw_sent w" "response_headers (unwatched w) = response_headers w"
  by (simp_all add: unwatched_def rw_status_def response_headers_def split: option.splits)

lemma watch_ok_start: "watch_ok (secured (watched (set_header ''X-Request-Id'' rid new_rw)))"
  by (simp add: watch_ok_def secured_def watched_def set_header_def)

lemma carries_secured: "carries (server_headers rid) (secured (watched (set_header ''X-Request-Id'' rid new_rw)))"
proof -
  have "''X-Request-Id'' \<notin> dom secure_headers"
    unfolding secure_headers_def dom_map_of_conv_image_fst by simp
  then have "server_headers rid \<subseteq>\<^sub>m Map.empty(''X-Request-Id'' \<mapsto> rid) ++ secure_headers"
    by (auto simp: server_headers_def map_le_iff map_add_def dom_def split: option.splits)
  then show ?thesis by (simp add: carries_def response_headers_def secured_def watched_def set_header_def)
qed

text \<open>One request, from the connection to the response.\<close>

definition inner :: "'k system \<Rightarrow> 'k server_env \<Rightarrow> world handler" where
  "inner sys env = cors (rv_lower env) (cf_allowed_origins (sy_config sys)) (router sys env)"

lemma serve_unfold:
  assumes "env_ok env"
  obtains rid s' w' where "valid_request_id rid"
    "valid_request_id (rq_header r ''X-Request-Id'') \<longrightarrow> rid = rq_header r ''X-Request-Id''"
    "inner sys env (r\<lparr>rq_request_id := Some rid\<rparr>) (s, secured (watched (set_header ''X-Request-Id'' rid new_rw))) = Done (s', w')"
    "serve sys env r (s, new_rw) = Done (log_access
       \<lparr>al_request_id = rid, al_method = rq_method r, al_path = rq_path r, al_status = rw_status w',
        al_remote = client_ip (rv_net env) (Some (sy_trusted sys)) r\<rparr> s', unwatched w')"
    "db_runs (io_pg (rv_io env)) (st_db (w_store s)) (st_db (w_store s'))" "w_access s' = w_access s"
    "cache_ok (w_cache s) \<longrightarrow> cache_ok (w_cache s')" "server_headers rid \<subseteq>\<^sub>m response_headers w'"
proof -
  define rid where "rid = (if valid_request_id (rq_header r ''X-Request-Id'') then rq_header r ''X-Request-Id''
    else hex_encode (rv_random env))"
  let ?r = "r\<lparr>rq_request_id := Some rid\<rparr>" and ?w = "secured (watched (set_header ''X-Request-Id'' rid new_rw))"
  have "tame_at (io_pg (rv_io env)) (inner sys env) ?r s ?w"
    unfolding inner_def by (intro tameD tame_cors tame_router assms)
  then obtain s' w' where out: "inner sys env ?r (s, ?w) = Done (s', w')"
      "db_runs (io_pg (rv_io env)) (st_db (w_store s)) (st_db (w_store s'))" "w_access s' = w_access s"
      "cache_ok (w_cache s) \<longrightarrow> cache_ok (w_cache s')" "keeps_headers ?w w'"
    unfolding tame_at_def by blast
  have status: "watched_status w' = rw_status w'"
    using out(5) watch_ok_start unfolding keeps_headers_def by (blast intro: watched_status_sent)
  have ip: "client_ip (rv_net env) tp ?r = client_ip (rv_net env) tp r" for tp
  proof -
    have "rq_remote_addr ?r = rq_remote_addr r" "rq_header ?r = rq_header r" by simp_all
    then show ?thesis unfolding client_ip_def by presburger
  qed
  have "serve sys env r (s, new_rw) = recover_panics (logging log_access (rv_net env) (Some (sy_trusted sys))
      (security_headers (inner sys env))) ?r (s, set_header ''X-Request-Id'' rid new_rw)"
    by (simp add: serve_def inner_def request_id_def rid_def Let_def)
  also have "\<dots> = Done (log_access
       \<lparr>al_request_id = rid, al_method = rq_method r, al_path = rq_path r, al_status = rw_status w',
        al_remote = client_ip (rv_net env) (Some (sy_trusted sys)) r\<rparr> s', unwatched w')"
    using out(1) status
    by (simp add: recover_panics_def logging_def security_headers_secured request_id_from_context_def ip
        unwatched_def watched_def rw_simps new_rw_def)
  finally have serve: "serve sys env r (s, new_rw) = \<dots>" .
  have "carries (server_headers rid) w'"
    using out(5) server_headers_guarded carries_secured unfolding keeps_headers_def by blast
  then have hd: "server_headers rid \<subseteq>\<^sub>m response_headers w'" by (simp add: carries_def)
  have "length (rv_random env) = 16" using assms by (simp add: env_ok_def)
  then have "valid_request_id rid" using generated_id_valid by (simp add: rid_def)
  moreover have "valid_request_id (rq_header r ''X-Request-Id'') \<longrightarrow> rid = rq_header r ''X-Request-Id''"
    by (simp add: rid_def)
  ultimately show thesis using out(1) serve out(2-4) hd by (rule that)
qed

section \<open>Properties of the running server\<close>

text \<open>
  C14: whatever the request, and also if a handler fails, the server answers it without a panic;
  the response carries the security headers and a well-formed request id, the client's own if
  that is well-formed; and the access log gets exactly one line, with that id and the status
  the client sees.
\<close>

theorem every_request_is_answered:
  assumes "env_ok env"
  shows "\<exists>wd' w' rid. serve sys env r (wd, new_rw) = Done (wd', w') \<and> valid_request_id rid \<and>
    (valid_request_id (rq_header r ''X-Request-Id'') \<longrightarrow> rid = rq_header r ''X-Request-Id'') \<and>
    server_headers rid \<subseteq>\<^sub>m response_headers w' \<and>
    w_access wd' = w_access wd @
      [\<lparr>al_request_id = rid, al_method = rq_method r, al_path = rq_path r, al_status = rw_status w',
        al_remote = client_ip (rv_net env) (Some (sy_trusted sys)) r\<rparr>]"
proof -
  obtain rid s' w' where "valid_request_id rid"
    "valid_request_id (rq_header r ''X-Request-Id'') \<longrightarrow> rid = rq_header r ''X-Request-Id''"
    "serve sys env r (wd, new_rw) = Done (log_access
       \<lparr>al_request_id = rid, al_method = rq_method r, al_path = rq_path r, al_status = rw_status w',
        al_remote = client_ip (rv_net env) (Some (sy_trusted sys)) r\<rparr> s', unwatched w')"
    "w_access s' = w_access wd" "server_headers rid \<subseteq>\<^sub>m response_headers w'"
    by (rule serve_unfold [OF assms])
  then show ?thesis by (auto simp: log_access_def)
qed

lemma runs_advance:
  assumes "db_runs pg d d'" and "x \<in> set (db_subscribers d)"
  shows "\<exists>y\<in>set (db_subscribers d'). advances x y"
  using assms unfolding db_runs_def
proof (induction rule: rtranclp_induct)
  case base
  then show ?case by (auto intro: bexI [of _ x])
next
  case (step d1 d2)
  then show ?case using step_advances other_step_db_step by (meson advances_trans)
qed

text \<open>The requests of a run, each with what it meets, in the order they are served.\<close>

fun serve_all :: "'k system \<Rightarrow> ('k server_env \<times> request) list \<Rightarrow> world \<Rightarrow> world" where
  "serve_all sys [] wd = wd"
| "serve_all sys ((env, r) # reqs) wd = serve_all sys reqs (fst (outcome_value (serve sys env r (wd, new_rw))))"

lemma serve_step:
  assumes "env_ok env" and "wd' = fst (outcome_value (serve sys env r (wd, new_rw)))"
  shows "db_runs (io_pg (rv_io env)) (st_db (w_store wd)) (st_db (w_store wd'))"
    and "cache_ok (w_cache wd) \<Longrightarrow> cache_ok (w_cache wd')"
    and "length (w_access wd') = length (w_access wd) + 1"
proof -
  obtain rid s' w' where "serve sys env r (wd, new_rw) = Done (log_access
       \<lparr>al_request_id = rid, al_method = rq_method r, al_path = rq_path r, al_status = rw_status w',
        al_remote = client_ip (rv_net env) (Some (sy_trusted sys)) r\<rparr> s', unwatched w')"
    "db_runs (io_pg (rv_io env)) (st_db (w_store wd)) (st_db (w_store s'))" "w_access s' = w_access wd"
    "cache_ok (w_cache wd) \<longrightarrow> cache_ok (w_cache s')"
    by (rule serve_unfold [OF assms(1)])
  then show "db_runs (io_pg (rv_io env)) (st_db (w_store wd)) (st_db (w_store wd'))"
    "cache_ok (w_cache wd) \<Longrightarrow> cache_ok (w_cache wd')" "length (w_access wd') = length (w_access wd) + 1"
    by (simp_all add: assms(2) log_access_def)
qed

text \<open>
  Any sequence of requests keeps the tables consistent and the admin cache bounded, loses
  no subscriber and moves each one forward only (pending, confirmed, unsubscribed), and writes
  one access line per request.
\<close>

theorem requests_keep_invariants:
  assumes "list_all (\<lambda>er. env_ok (fst er) \<and> io_pg (rv_io (fst er)) = pg) reqs"
    and "db_ok pg (st_db (w_store wd))" and "cache_ok (w_cache wd)"
    and "serve_all sys reqs wd = wd'"
  shows "db_ok pg (st_db (w_store wd')) \<and> cache_ok (w_cache wd') \<and>
    length (w_access wd') = length (w_access wd) + length reqs \<and>
    (\<forall>x\<in>set (db_subscribers (st_db (w_store wd))). \<exists>y\<in>set (db_subscribers (st_db (w_store wd'))). advances x y)"
  unfolding assms(4) [symmetric] using assms(1-3)
proof (induction reqs arbitrary: wd)
  case Nil
  then show ?case by (simp, blast intro: advances_refl)
next
  case (Cons er reqs)
  obtain env r where er: "er = (env, r)" by fastforce
  let ?wd = "fst (outcome_value (serve sys env r (wd, new_rw)))"
  have ok: "env_ok env" "io_pg (rv_io env) = pg" using Cons.prems(1) er by auto
  note step = serve_step [OF ok(1) refl [of ?wd], unfolded ok(2)]
  have IH: "db_ok pg (st_db (w_store (serve_all sys reqs ?wd))) \<and> cache_ok (w_cache (serve_all sys reqs ?wd)) \<and>
    length (w_access (serve_all sys reqs ?wd)) = length (w_access ?wd) + length reqs \<and>
    (\<forall>x\<in>set (db_subscribers (st_db (w_store ?wd))). \<exists>y\<in>set (db_subscribers (st_db (w_store (serve_all sys reqs ?wd)))). advances x y)"
    using Cons.prems(1) db_runs_ok [OF step(1) Cons.prems(2)] step(2) [OF Cons.prems(3)]
    by (intro Cons.IH) auto
  have "\<exists>z\<in>set (db_subscribers (st_db (w_store (serve_all sys reqs ?wd)))). advances x z"
    if "x \<in> set (db_subscribers (st_db (w_store wd)))" for x
    using runs_advance [OF step(1) that] IH by (meson advances_trans)
  with IH step(3) show ?case by (simp add: er)
qed

text \<open>
  A preflight request is answered 204 with an empty body, whatever its path; no handler,
  limiter or authentication runs and nothing but the access log changes; the origin is granted
  exactly if it is on the configured list.
\<close>

theorem preflight_runs_no_handler:
  assumes "env_ok env" and "rq_method r = ''OPTIONS''"
  shows "\<exists>l w'. serve sys env r (wd, new_rw) = Done (log_access l wd, w') \<and> rw_status w' = 204 \<and> rw_body w' = [] \<and>
    response_headers w' ''Access-Control-Allow-Origin'' =
      (if norm_origin (rv_lower env) (rq_header r ''Origin'') \<noteq> '''' \<and>
          norm_origin (rv_lower env) (rq_header r ''Origin'') \<in> norm_origin (rv_lower env) ` set (cf_allowed_origins (sy_config sys))
       then Some (rq_header r ''Origin'') else None)"
proof -
  obtain rid s' w' where s: "inner sys env (r\<lparr>rq_request_id := Some rid\<rparr>)
       (wd, secured (watched (set_header ''X-Request-Id'' rid new_rw))) = Done (s', w')"
    "serve sys env r (wd, new_rw) = Done (log_access
       \<lparr>al_request_id = rid, al_method = rq_method r, al_path = rq_path r, al_status = rw_status w',
        al_remote = client_ip (rv_net env) (Some (sy_trusted sys)) r\<rparr> s', unwatched w')"
    by (rule serve_unfold [OF assms(1)])
  let ?w = "secured (watched (set_header ''X-Request-Id'' rid new_rw))"
  have w': "s' = wd" "w' = write_header 204 (cors_headers (rv_lower env) (cf_allowed_origins (sy_config sys))
      (r\<lparr>rq_request_id := Some rid\<rparr>) ?w)"
    using s(1) assms(2) by (auto simp: inner_def cors_def Let_def)
  have w: "rw_sent ?w = None" "rw_body ?w = []" "rw_header ?w ''Access-Control-Allow-Origin'' = None"
    by (simp_all add: secured_def set_header_def secure_headers_def map_add_def)
  show ?thesis
    unfolding s(2) w'(1)
    by (intro exI conjI) (auto simp: w' w cors_headers_def Let_def rw_simps rw_status_def response_headers_def)
qed

section \<open>Access to the protected routes\<close>

definition too_many :: json where
  "too_many = JObj [(''code'', JStr ''rate_limited''), (''message'', JStr ''too many requests'')]"

text \<open>A response that shows the client nothing but why it got nothing.\<close>

inductive refused :: "string \<Rightarrow> rw \<Rightarrow> bool" for rid w where
  preflight: "rw_status w = 204 \<Longrightarrow> rw_body w = [] \<Longrightarrow> refused rid w"
| limited: "rw_status w = 429 \<Longrightarrow> rw_body w = [JsonBody too_many] \<Longrightarrow> refused rid w"
| no_token: "rw_status w = 401 \<Longrightarrow>
    rw_body w = [JsonBody (error_envelope CodeUnauthorized ''authentication required'' rid)] \<Longrightarrow> refused rid w"
| bad_subject: "rw_status w = 401 \<Longrightarrow>
    rw_body w = [JsonBody (error_envelope CodeUnauthorized ''bad subject'' rid)] \<Longrightarrow> refused rid w"
| no_admin: "rw_status w = 403 \<Longrightarrow>
    rw_body w = [JsonBody (error_envelope CodeForbidden ''admin required'' rid)] \<Longrightarrow> refused rid w"
| check_failed: "rw_status w = 500 \<Longrightarrow>
    rw_body w = [JsonBody (error_envelope CodeInternal ''admin check failed'' rid)] \<Longrightarrow> refused rid w"

lemma refused_unwatched [intro]: "refused rid w \<Longrightarrow> refused rid (unwatched w)"
  by (erule refused.cases) (auto intro: refused.intros)

text \<open>Who may use an endpoint: \<open>RequireUser\<close> and \<open>RequireAdmin\<close> as conditions.\<close>

definition has_user :: "auth_env \<Rightarrow> request \<Rightarrow> bool" where
  "has_user env r = (case extract_claims env r of Inr (Some c) \<Rightarrow> True | _ \<Rightarrow> False)"

definition has_admin :: "auth_env \<Rightarrow> request \<Rightarrow> world \<Rightarrow> bool" where
  "has_admin env r s =
     (case extract_claims env r of
        Inr (Some c) \<Rightarrow>
          (case au_uuid_scan env (c_sub c) of
             None \<Rightarrow> False
           | Some u \<Rightarrow> fst (check_admin env c u s) = Inr True)
      | _ \<Rightarrow> False)"

fun entitled :: "auth_env \<Rightarrow> endpoint \<Rightarrow> request \<Rightarrow> world \<Rightarrow> bool" where
  "entitled env EpMySubscription r s = has_user env r"
| "entitled env EpSubscribers r s = has_admin env r s"
| "entitled env EpNotifications r s = has_admin env r s"
| "entitled env EpResend r s = has_admin env r s"
| "entitled env e r s = True"

lemma check_admin_keeps:
  assumes "check_admin env c u s = (res, s')"
  shows "st_db (w_store s') = st_db (w_store s)"
proof -
  have "st_db (snd (with_user uq io jc (\<lambda>q k. is_admin q u) st)) = st_db st" for uq io jc st
    by (rule user.run_invariant [where I = "\<lambda>d. d = st_db st"]) (auto dest: reads_keep_db)
  then have "with_user uq io jc (\<lambda>q k. is_admin q u) st = (x, st') \<Longrightarrow> st_db st' = st_db st" for uq io jc st x st'
    by (metis snd_conv)
  with assms show ?thesis by (auto simp: check_admin_def split: sum.splits prod.splits option.splits)
qed

text \<open>What a stage in front of a handler may do: pass a clean writer on, or refuse.\<close>

definition refuses :: "world handler \<Rightarrow> request \<Rightarrow> world \<Rightarrow> rw \<Rightarrow> bool" where
  "refuses h r s w \<longleftrightarrow> (\<exists>s' w'. h r (s, w) = Done (s', w') \<and> st_db (w_store s') = st_db (w_store s) \<and>
     refused (request_id_from_context r) w')"

lemma refused_error:
  assumes "rw_sent w = None" and "rw_body w = []"
  shows "refused (request_id_from_context r) (write_error r (unauthorized ''authentication required'') w)"
    and "refused (request_id_from_context r) (write_error r (unauthorized ''bad subject'') w)"
    and "refused (request_id_from_context r) (write_error r (forbidden ''admin required'') w)"
    and "refused (request_id_from_context r) (write_error r (internal_error ''admin check failed'') w)"
  using assms by (simp_all add: refused.simps rw_simps app_error_defs)

lemma require_user_refuses:
  assumes "\<not> has_user env r" and "rw_sent w = None" and "rw_body w = []"
  shows "refuses (require_user env h) r s w"
  using assms refused_error [OF assms(2,3)]
  by (auto simp: refuses_def require_user_def has_user_def split: sum.splits option.splits)

lemma require_admin_refuses:
  assumes "\<not> has_admin env r s" and "rw_sent w = None" and "rw_body w = []"
  shows "refuses (require_admin env h) r s w"
  using assms refused_error [OF assms(2,3)]
  by (auto simp: refuses_def require_admin_def has_admin_def split: sum.splits option.splits prod.splits bool.splits
      dest: check_admin_keeps)

lemma limited_refuses:
  assumes "limiter_ok (rv_limiter env g)" and "rw_sent w = None" and "rw_body w = []"
    and "\<And>w1. rw_sent w1 = None \<Longrightarrow> rw_body w1 = [] \<Longrightarrow> refuses h r s w1"
  shows "refuses (limited sys env g f h) r s w"
proof -
  obtain b w1 where l: "rv_limiter env g (f (sy_config sys)) minute (client_ip (rv_net env) (Some (sy_trusted sys)) r) w = (b, w1)"
    by fastforce
  have w1: "rw_sent w1 = None" "rw_body w1 = []"
    using assms(1,2,3) l unfolding limiter_ok_def by metis+
  have full: "refused rid (write_json 429 too_many (set_header ''Retry-After'' ''60'' w1))" for rid
    using w1 by (intro refused.limited) (simp_all add: rw_simps)
  show ?thesis
    using assms(4) [OF w1] assms(4) [OF assms(2,3)] l full
    by (cases b; cases "f (sy_config sys) \<le> 0") (auto simp: limited_def rate_limit_def refuses_def too_many_def)
qed

text \<open>
  C13: A request for a protected route by someone who is not entitled to it (no valid token; for
  the admin routes, no uuid as subject or no admin by the check) never reaches the handler: the
  database stays as it is and the response is one of the six refusals.
\<close>

theorem protected_routes_are_closed:
  assumes "env_ok env" and "matched env r = Some (e, params)"
    and "\<not> entitled (auth_wiring sys env) e r wd"
  shows "\<exists>wd' w' rid. serve sys env r (wd, new_rw) = Done (wd', w') \<and>
    st_db (w_store wd') = st_db (w_store wd) \<and> refused rid w' \<and>
    response_headers w' ''X-Request-Id'' = Some rid"
proof -
  obtain rid s' w' where s: "inner sys env (r\<lparr>rq_request_id := Some rid\<rparr>)
       (wd, secured (watched (set_header ''X-Request-Id'' rid new_rw))) = Done (s', w')"
    "serve sys env r (wd, new_rw) = Done (log_access
       \<lparr>al_request_id = rid, al_method = rq_method r, al_path = rq_path r, al_status = rw_status w',
        al_remote = client_ip (rv_net env) (Some (sy_trusted sys)) r\<rparr> s', unwatched w')"
    "server_headers rid \<subseteq>\<^sub>m response_headers w'"
    by (rule serve_unfold [OF assms(1)])
  let ?w = "secured (watched (set_header ''X-Request-Id'' rid new_rw))" and ?r = "r\<lparr>rq_request_id := Some rid\<rparr>"
  let ?w1 = "cors_headers (rv_lower env) (cf_allowed_origins (sy_config sys)) ?r ?w"
  let ?r1 = "?r\<lparr>rq_url_param := params\<rparr>"
  have clean: "rw_sent ?w1 = None" "rw_body ?w1 = []"
    by (simp_all add: cors_headers_def Let_def rw_simps secured_def set_header_def)
  have lim: "limiter_ok (rv_limiter env g)" for g using assms(1) by (simp add: env_ok_def)
  have same: "extract_claims (auth_wiring sys env) ?r1 = extract_claims (auth_wiring sys env) r"
    by (simp add: extract_claims_def)
  then have ent: "has_user (auth_wiring sys env) ?r1 = has_user (auth_wiring sys env) r"
    "has_admin (auth_wiring sys env) ?r1 wd = has_admin (auth_wiring sys env) r wd"
    by (simp_all only: has_user_def has_admin_def)
  have "refuses (endpoint_handler sys env e) ?r1 wd ?w1"
    using assms(3) clean ent
    by (cases e) (auto intro!: limited_refuses lim require_user_refuses require_admin_refuses)
  then have r: "\<exists>s' w'. router sys env ?r (wd, ?w1) = Done (s', w') \<and> st_db (w_store s') = st_db (w_store wd) \<and>
      refused (request_id_from_context ?r1) w'"
    using assms(2) by (simp add: refuses_def router_def matched_def)
  have "st_db (w_store s') = st_db (w_store wd) \<and> refused rid w'"
  proof (cases "rq_method r = ''OPTIONS''")
    case True
    then have "s' = wd" "w' = write_header 204 ?w1" using s(1) by (auto simp: inner_def cors_def Let_def)
    moreover have "refused rid (write_header 204 ?w1)"
      using clean by (intro refused.preflight) (simp_all add: rw_simps rw_status_def)
    ultimately show ?thesis by auto
  next
    case False
    then have "router sys env ?r (wd, ?w1) = Done (s', w')" using s(1) by (simp add: inner_def cors_def Let_def)
    with r show ?thesis by (auto simp: request_id_from_context_def)
  qed
  moreover have "response_headers w' ''X-Request-Id'' = Some rid"
    using s(3) by (simp add: map_le_iff server_headers_def)
  ultimately show ?thesis using s(2) by (auto simp: log_access_def)
qed

section \<open>Properties of the start\<close>

lemma start_cases:
  assumes "start so getenv = Started sys"
  obtains c up sp sg v where "load (so_config so) getenv = Inr c"
    "new_user_pool (so_pgx so) (cf_database_url c) (cf_pool_max_conns c) = Inr up"
    "new_service_pool (so_pgx so) (cf_database_url_service_role c) (cf_pool_max_conns c) = Inr sp"
    "new_signer (bytes_of_string (cf_token_signing_key c)) = Inr sg" "new_verifier (so_fetch so) (auth_setup c) = Inr v"
    "sys = \<lparr>sy_config = c, sy_hash_key = bytes_of_string (cf_email_hash_key c),
       sy_trusted = cf_trusted_proxy_cidrs c, sy_user_pool = up, sy_service_pool = sp, sy_signer = sg,
       sy_mailer = choose_mailer (so_random so) c, sy_worker = worker_setup c,
       sy_deps = service_deps c, sy_verifier = v\<rparr>"
  using assms by (auto simp: start_def split: sum.splits)

lemma pool_opened:
  "new_user_pool px dsn n = Inr (UserPool p) \<Longrightarrow> pool_dsn p = dsn \<and> pool_max_conns p = pool_defaults n"
  "new_service_pool px dsn n = Inr (ServicePool p) \<Longrightarrow> pool_dsn p = dsn \<and> pool_max_conns p = pool_defaults n"
  by (auto simp: new_user_pool_def new_service_pool_def Let_def split: if_splits option.splits)

lemma worker_setup_simps:
  assumes "config_valid c"
  shows "worker_setup c = \<lparr>wc_concurrency = cf_worker_concurrency c, wc_outbound_rps = cf_outbound_email_rps c,
    wc_max_attempts = 6, wc_lease = 60 * second, wc_base_sleep = second, wc_max_daily = cf_max_daily_emails c\<rparr>"
  using assms by (simp add: worker_setup_def new_worker_def config_valid_def second_def)

text \<open>A running system hangs together: its parts are those of its configuration.\<close>

definition well_wired :: "'k system \<Rightarrow> bool" where
  "well_wired sys \<longleftrightarrow> (let c = sy_config sys in
     (\<exists>up. sy_user_pool sys = UserPool up \<and> pool_dsn up = cf_database_url c \<and> pool_max_conns up = cf_pool_max_conns c) \<and>
     (\<exists>sp. sy_service_pool sys = ServicePool sp \<and> pool_dsn sp = cf_database_url_service_role c \<and>
        pool_max_conns sp = cf_pool_max_conns c) \<and>
     32 \<le> length (signer_key (sy_signer sys)) \<and> 32 \<le> length (sy_hash_key sys) \<and>
     wc_max_attempts (sy_worker sys) = 6 \<and> wc_max_daily (sy_worker sys) = cf_max_daily_emails c \<and>
     ((\<exists>f. sy_mailer sys = FakeMailer f) \<longleftrightarrow> cf_resend_api_key c = ''''))"

lemma start_never_crashes:
  assumes "\<And>xs. set (co_order (so_config so) xs) = set xs"
  shows "start so getenv \<noteq> StartCrashed p"
proof
  assume "start so getenv = StartCrashed p"
  then obtain c where "load (so_config so) getenv = Inr c" "new_signer (bytes_of_string (cf_token_signing_key c)) = Inl p"
    by (auto simp: start_def split: sum.splits)
  with load_valid [OF assms] show False by (fastforce simp: config_valid_def new_signer_def bytes_of_string_def)
qed

lemma started_well_wired:
  assumes "\<And>xs. set (co_order (so_config so) xs) = set xs" and "start so getenv = Started sys"
  shows "load (so_config so) getenv = Inr (sy_config sys)" "config_valid (sy_config sys)" "well_wired sys"
proof -
  obtain c up sp sg v where c: "load (so_config so) getenv = Inr c"
    "new_user_pool (so_pgx so) (cf_database_url c) (cf_pool_max_conns c) = Inr up"
    "new_service_pool (so_pgx so) (cf_database_url_service_role c) (cf_pool_max_conns c) = Inr sp"
    "new_signer (bytes_of_string (cf_token_signing_key c)) = Inr sg" "new_verifier (so_fetch so) (auth_setup c) = Inr v"
    "sys = \<lparr>sy_config = c, sy_hash_key = bytes_of_string (cf_email_hash_key c),
       sy_trusted = cf_trusted_proxy_cidrs c, sy_user_pool = up, sy_service_pool = sp, sy_signer = sg,
       sy_mailer = choose_mailer (so_random so) c, sy_worker = worker_setup c,
       sy_deps = service_deps c, sy_verifier = v\<rparr>"
    by (rule start_cases [OF assms(2)])
  have v: "config_valid c" by (rule load_valid [OF assms(1) c(1)])
  then have n: "pool_defaults (cf_pool_max_conns c) = cf_pool_max_conns c"
    by (simp add: config_valid_def pool_defaults_def)
  obtain u where u: "up = UserPool u" by (cases up)
  obtain t where t: "sp = ServicePool t" by (cases sp)
  show "load (so_config so) getenv = Inr (sy_config sys)" "config_valid (sy_config sys)" using c(1,6) v by simp_all
  have "32 \<le> length (cf_email_hash_key c)" using v unfolding config_valid_def by blast
  then have keys: "32 \<le> length (bytes_of_string (cf_email_hash_key c))" "32 \<le> length (signer_key sg)"
    using c(4) by (auto simp: new_signer_def bytes_of_string_def split: if_splits)
  have mail: "(\<exists>f. choose_mailer (so_random so) c = FakeMailer f) \<longleftrightarrow> cf_resend_api_key c = ''''"
    by (simp add: choose_mailer_def)
  show "well_wired sys"
    using pool_opened(1) [OF c(2) [unfolded u]] pool_opened(2) [OF c(3) [unfolded t]]
    by (simp add: c(6) well_wired_def Let_def worker_setup_simps [OF v] keys mail n u t)
qed

lemma retry_wait_exists:
  assumes "0 \<le> a" and "a \<le> 6"
  shows "\<exists>d. backoff draw a = Inr d \<and> 0 < sint d"
proof -
  have "a \<le> 28" using assms(2) by simp
  then obtain d where "backoff draw a = Inr d" "backoff_base a \<le> sint d"
    using backoff_value [OF assms(1), of draw] by blast
  moreover have "0 < backoff_base a" using backoff_base_bounds [OF assms(1)] second_pos by linarith
  ultimately show ?thesis by auto
qed

text \<open>
  C31: startup never panics, and a server that starts runs on a valid configuration: each pool on
  its own database URL and of the configured size, the signer and the e-mail hash on keys of at
  least 32 bytes, at most six attempts per message, for which the wait before a retry always
  exists, and real mail exactly if there is an API key.
\<close>

theorem startup_is_sound:
  assumes "\<And>xs. set (co_order (so_config so) xs) = set xs"
  shows "start so getenv \<noteq> StartCrashed p \<and>
    (start so getenv = Started sys \<longrightarrow>
       load (so_config so) getenv = Inr (sy_config sys) \<and> config_valid (sy_config sys) \<and> well_wired sys \<and>
       (\<forall>a draw. 0 \<le> a \<longrightarrow> a \<le> wc_max_attempts (sy_worker sys) \<longrightarrow> (\<exists>d. backoff draw a = Inr d \<and> 0 < sint d)))"
  using start_never_crashes [OF assms, of getenv p] started_well_wired [OF assms, of getenv sys] retry_wait_exists
  by (auto simp: well_wired_def Let_def)

lemma duration_exact: "- (2 ^ 63) \<le> n * u \<Longrightarrow> n * u < 2 ^ 63 \<Longrightarrow> duration n u = n * u"
  by (simp add: duration_def sint_int64 flip: of_int_mult)

lemma duration_wraps: "2 ^ 63 \<le> n * u \<Longrightarrow> n * u < 2 ^ 64 \<Longrightarrow> duration n u = n * u - 2 ^ 64"
proof -
  assume r: "2 ^ 63 \<le> n * u" "n * u < 2 ^ 64"
  have e: "(word_of_int (n * u) :: int64) = word_of_int (n * u - 2 ^ 64)"
    by (simp add: word_of_int_eq_iff take_bit_eq_mod mod_diff_eq)
  have "duration n u = sint (word_of_int (n * u) :: int64)" by (simp add: duration_def)
  also have "\<dots> = sint (word_of_int (n * u - 2 ^ 64) :: int64)" by (simp only: e)
  also have "\<dots> = n * u - 2 ^ 64" using r by (intro sint_int64) simp_all
  finally show ?thesis .
qed

text \<open>
  The configured durations are exact as long as they fit 64 bits of nanoseconds; a larger
  throttle window (from 9223372037 seconds) wraps to a negative one, and then no subscribe
  request is throttled; an unsubscribe lifetime of 0 days becomes 365 days.
\<close>

theorem configured_durations:
  "(0 \<le> cf_subscribe_email_throttle_sec c \<and> cf_subscribe_email_throttle_sec c \<le> 9223372036 \<longrightarrow>
      dp_throttle (service_deps c) = cf_subscribe_email_throttle_sec c * second) \<and>
   (9223372037 \<le> cf_subscribe_email_throttle_sec c \<and> cf_subscribe_email_throttle_sec c \<le> 18446744073 \<longrightarrow>
      dp_throttle (service_deps c) < 0 \<and> throttle_check env (service_deps c) email s = (Inr False, s)) \<and>
   (0 < cf_unsubscribe_token_ttl_days c \<and> cf_unsubscribe_token_ttl_days c \<le> 106751 \<longrightarrow>
      dp_unsubscribe_ttl (service_deps c) = cf_unsubscribe_token_ttl_days c * day) \<and>
   (cf_unsubscribe_token_ttl_days c = 0 \<longrightarrow> dp_unsubscribe_ttl (service_deps c) = 365 * day) \<and>
   dp_confirm_ttl (service_deps c) = 7 * day"
proof -
  have throttle: "dp_throttle (service_deps c) = duration (cf_subscribe_email_throttle_sec c) second"
    by (simp add: service_deps_def new_service_def)
  have exact: "dp_throttle (service_deps c) = cf_subscribe_email_throttle_sec c * second"
    if "0 \<le> cf_subscribe_email_throttle_sec c" "cf_subscribe_email_throttle_sec c \<le> 9223372036"
    unfolding throttle using that by (intro duration_exact) (simp_all add: second_def)
  have wrap: "dp_throttle (service_deps c) < 0"
    if "9223372037 \<le> cf_subscribe_email_throttle_sec c" "cf_subscribe_email_throttle_sec c \<le> 18446744073"
    unfolding throttle using that by (subst duration_wraps) (simp_all add: second_def)
  then have off: "throttle_check env (service_deps c) email s = (Inr False, s)"
    if "9223372037 \<le> cf_subscribe_email_throttle_sec c" "cf_subscribe_email_throttle_sec c \<le> 18446744073"
    using that by (simp add: throttle_check_def not_less)
  have ttl: "duration (duration n 24) (60 * minute) = n * day" if "0 \<le> n" "n \<le> 106751" for n
  proof -
    have "duration n 24 = n * 24" using that by (intro duration_exact) simp_all
    moreover have "duration (n * 24) (60 * minute) = n * 24 * (60 * minute)"
      using that by (intro duration_exact) (simp_all add: minute_def second_def)
    ultimately show ?thesis by (simp add: day_def)
  qed
  have days: "dp_unsubscribe_ttl (service_deps c) = cf_unsubscribe_token_ttl_days c * day"
    if "0 < cf_unsubscribe_token_ttl_days c" "cf_unsubscribe_token_ttl_days c \<le> 106751"
    using that ttl [of "cf_unsubscribe_token_ttl_days c"]
    by (simp add: service_deps_def new_service_def day_def minute_def second_def)
  have none: "dp_unsubscribe_ttl (service_deps c) = 365 * day" if "cf_unsubscribe_token_ttl_days c = 0"
    using that ttl [of 0] by (simp add: service_deps_def new_service_def)
  show ?thesis
    using exact wrap off days none by (auto simp: service_deps_def new_service_def)
qed

section \<open>A sample server\<close>

definition sample_start_ops :: "unit start_ops" where
  "sample_start_ops = \<lparr>so_config = sample_config_ops,
     so_pgx = \<lparr>px_parse = (\<lambda>d. None), px_connect = (\<lambda>d n. None), px_ping = (\<lambda>d. None)\<rparr>,
     so_fetch = (\<lambda>u. Inl (Msg ''offline'')), so_random = (\<lambda>n. replicate 8 0)\<rparr>"

lemma sample_start: "\<exists>sys. start sample_start_ops sample_vars = Started sys"
proof -
  let ?c = "read_config sample_config_ops sample_vars"
  have c: "cf_database_url ?c = ''x''" "cf_database_url_service_role ?c = ''x''"
    "cf_token_signing_key ?c = replicate 32 (CHR ''k'')" "cf_supabase_jwt_secret ?c = ''x''"
    "cf_supabase_jwks_url ?c = ''''" "cf_supabase_project_ref ?c = ''x''"
    by (simp_all add: read_config_def sample_vars_def)
  have "load (so_config sample_start_ops) sample_vars = Inr ?c"
    using sample_load by (simp add: sample_start_ops_def)
  then show ?thesis
    by (simp add: start_def new_user_pool_def new_service_pool_def Let_def c new_signer_def bytes_of_string_def
        new_verifier_def auth_setup_def sample_start_ops_def)
qed

lemma startup_is_sound_witness:
  "\<exists>sys. start sample_start_ops sample_vars = Started sys \<and> wc_max_attempts (sy_worker sys) = 6 \<and>
     32 \<le> length (sy_hash_key sys)"
proof -
  obtain sys where sys: "start sample_start_ops sample_vars = Started sys" using sample_start by blast
  have order: "set (co_order (so_config sample_start_ops) xs) = set xs" for xs
    by (simp add: sample_start_ops_def sample_config_ops_def)
  show ?thesis
    using startup_is_sound [OF order, where getenv = sample_vars and sys = sys] sys by (auto simp: well_wired_def Let_def)
qed

lemma configured_durations_witness:
  "\<exists>c. cf_subscribe_email_throttle_sec c = 9223372037 \<and>
     throttle_check sample_subs_env (service_deps c) ''ann@example.org'' (w_store sample_world) = (Inr False, w_store sample_world)"
  using configured_durations [where env = sample_subs_env and email = "''ann@example.org''" and s = "w_store sample_world"
      and c = "(read_config sample_config_ops sample_vars)\<lparr>cf_subscribe_email_throttle_sec := 9223372037\<rparr>"]
  by (intro exI [of _ "(read_config sample_config_ops sample_vars)\<lparr>cf_subscribe_email_throttle_sec := 9223372037\<rparr>"]) simp

definition sample_system :: "unit system" where
  "sample_system = \<lparr>sy_config = read_config sample_config_ops sample_vars, sy_hash_key = [], sy_trusted = [],
     sy_user_pool = UserPool \<lparr>pool_dsn = '''', pool_max_conns = 1\<rparr>,
     sy_service_pool = ServicePool \<lparr>pool_dsn = '''', pool_max_conns = 1\<rparr>, sy_signer = \<lparr>signer_key = []\<rparr>,
     sy_mailer = FakeMailer (new_fake (\<lambda>n. [])), sy_worker = worker_setup (read_config sample_config_ops sample_vars),
     sy_deps = sample_deps, sy_verifier = sample_verifier\<rparr>"

definition sample_match ::
  "(string \<times> string) list \<Rightarrow> string \<Rightarrow> string \<Rightarrow> ((string \<times> string) \<times> (string \<Rightarrow> string)) option" where
  "sample_match ks m p = (if (m, p) \<in> set ks then Some ((m, p), \<lambda>k. '''') else None)"

definition sample_server_env :: "unit server_env" where
  "sample_server_env = \<lparr>rv_random = replicate 16 0, rv_lower = id, rv_net = sample_net, rv_io = sample_io,
     rv_limiter = (\<lambda>g n t k w. (False, w)), rv_parse_jwt = sample_parser, rv_auth = sample_auth_env,
     rv_subs = sample_subs_env, rv_admin = sample_admin_env, rv_pings = (True, True), rv_match = sample_match,
     rv_unrouted = (\<lambda>r w. write_header 404 w)\<rparr>"

lemma sample_env_ok: "env_ok sample_server_env"
  by (simp add: env_ok_def limiter_ok_def sample_server_env_def sample_auth_env_def)

definition sample_get :: "string \<Rightarrow> string \<Rightarrow> request" where
  "sample_get m p = sample_request\<lparr>rq_method := m, rq_path := p\<rparr>"

lemma every_request_is_answered_witness:
  "\<exists>wd' w' rid. serve sample_system sample_server_env (sample_get ''GET'' ''/healthz'') (sample_world, new_rw) = Done (wd', w') \<and>
     server_headers rid \<subseteq>\<^sub>m response_headers w' \<and> length (w_access wd') = length (w_access sample_world) + 1"
  using every_request_is_answered [OF sample_env_ok, of sample_system "sample_get ''GET'' ''/healthz''" sample_world] by auto

lemma requests_keep_invariants_witness:
  "\<exists>wd'. serve_all sample_system [(sample_server_env, sample_get ''GET'' ''/healthz''),
      (sample_server_env, sample_get ''GET'' ''/v1/admin/subscribers'')] (sample_wd [sample_linked]) = wd' \<and>
     length (w_access wd') = length (w_access (sample_wd [sample_linked])) + 2 \<and> db_ok sample_pg (st_db (w_store wd'))"
proof -
  let ?reqs = "[(sample_server_env, sample_get ''GET'' ''/healthz''),
      (sample_server_env, sample_get ''GET'' ''/v1/admin/subscribers'')]"
  have env: "list_all (\<lambda>er. env_ok (fst er) \<and> io_pg (rv_io (fst er)) = sample_pg) ?reqs"
    using sample_env_ok by (simp add: sample_server_env_def sample_io_def)
  have ok: "db_ok sample_pg (st_db (w_store (sample_wd [sample_linked])))" using sample_linked_ok by simp
  have cache: "cache_ok (w_cache (sample_wd [sample_linked]))" by (simp add: sample_wd_def sample_world_def cache_ok_def)
  show ?thesis
    using requests_keep_invariants [OF env ok cache refl, where sys = sample_system]
    by (intro exI conjI) (rule refl, simp_all del: serve_all.simps)
qed

lemma preflight_runs_no_handler_witness:
  "\<exists>l w'. serve sample_system sample_server_env (sample_get ''OPTIONS'' ''/v1/subscribers'') (sample_world, new_rw) =
      Done (log_access l sample_world, w') \<and> rw_status w' = 204 \<and> rw_body w' = []"
proof -
  have "rq_method (sample_get ''OPTIONS'' ''/v1/subscribers'') = ''OPTIONS''" by (simp add: sample_get_def)
  from preflight_runs_no_handler [OF sample_env_ok this, where sys = sample_system and wd = sample_world] show ?thesis by blast
qed

lemma protected_routes_are_closed_witness:
  "\<exists>wd' w' rid. serve sample_system sample_server_env (sample_get ''GET'' ''/v1/admin/subscribers'') (sample_world, new_rw) =
      Done (wd', w') \<and> st_db (w_store wd') = st_db (w_store sample_world) \<and> refused rid w'"
proof -
  let ?r = "sample_get ''GET'' ''/v1/admin/subscribers''"
  have m: "matched sample_server_env ?r = Some (EpSubscribers, \<lambda>k. '''')"
    by (simp add: matched_def sample_server_env_def sample_match_def sample_get_def sample_request_def routes_def)
  have "extract_claims (auth_wiring sample_system sample_server_env) ?r = Inr None"
    by (simp add: extract_claims_def sample_get_def sample_request_def bearer_from_header_def)
  then have "\<not> entitled (auth_wiring sample_system sample_server_env) EpSubscribers ?r sample_world"
    by (simp add: has_admin_def)
  from protected_routes_are_closed [OF sample_env_ok m this] show ?thesis by blast
qed

end
