(* ===== verification/Requests.thy ===== *)
theory Requests
  imports Server
begin

text \<open>
  What one request costs: every handler, through every middleware, makes at most three
  transactions, and each changes the tables by one statement at most. The shutdown of theory
  \<open>Shutdown\<close> waits for requests that are this bounded; theory \<open>Refinement\<close> uses the trace.
\<close>

section \<open>Counting transactions\<close>

text \<open>One transaction of a request: it reads, fails, or runs one statement that changes the tables.\<close>

definition one_txn :: "pg_ops \<Rightarrow> db \<Rightarrow> db \<Rightarrow> bool" where
  "one_txn pg d d' \<longleftrightarrow> d' = d \<or> (\<exists>q. q_pg q = pg \<and> other_step q d d')"

definition within :: "pg_ops \<Rightarrow> nat \<Rightarrow> store \<Rightarrow> store \<Rightarrow> bool" where
  "within pg n s s' \<longleftrightarrow> st_count s \<le> st_count s' \<and> st_count s' \<le> st_count s + n \<and>
     (one_txn pg ^^ (st_count s' - st_count s)) (st_db s) (st_db s')"

lemma txns_append:
  assumes "(R ^^ (b - a)) s s'" and "(R ^^ (c - b)) s' s''" and "a \<le> b" and "b \<le> (c :: nat)"
  shows "(R ^^ (c - a)) s s''"
proof -
  have "c - a = (b - a) + (c - b)" using assms(3,4) by simp
  then show ?thesis using assms(1,2) by (auto simp: relpowp_add)
qed

lemma within_refl [simp, intro]: "within pg n s s"
  by (simp add: within_def)

lemma within_trans: "within pg m s s' \<Longrightarrow> within pg n s' s'' \<Longrightarrow> m + n \<le> k \<Longrightarrow> within pg k s s''"
  unfolding within_def using txns_append by fastforce

lemma within_more: "within pg m s s' \<Longrightarrow> m \<le> n \<Longrightarrow> within pg n s s'"
  by (simp add: within_def)

definition single :: "'a txn \<Rightarrow> bool" where
  "single fn \<longleftrightarrow> (\<forall>q k d x d'. fn q k d = Inr (x, d') \<longrightarrow> one_txn (q_pg q) d d')"

lemma one_txn_refl [simp]: "one_txn pg d d"
  by (simp add: one_txn_def)

lemma one_txn_step: "other_step q d d' \<Longrightarrow> one_txn (q_pg q) d d'"
  by (auto simp: one_txn_def)

lemma writing_txns [simp]:
  "single (subscribe_txn p)" "single (confirm_txn h)" "single (\<lambda>q k. unsubscribe_by_id q i)" "single (resend_txn i h t)"
  "single (\<lambda>q k. enqueue_notification q k kind e payload)"
proof -
  show "single (subscribe_txn p)"
    by (auto simp: single_def subscribe_txn_def query_iff intro: one_txn_step other_step.upsert)
  show "single (confirm_txn h)"
    by (auto simp: single_def confirm_txn_def query_iff dest!: reads_keep_db(3) intro: one_txn_step other_step.confirm)
  show "single (resend_txn i h t)"
    by (auto simp: single_def resend_txn_def query_iff dest!: reads_keep_db(2) split: if_splits
        intro: one_txn_step other_step.upsert)
qed (auto simp: single_def intro: one_txn_step other_step.intros)

lemma reading_txns [simp]:
  "single (my_subscription_txn e)" "single (\<lambda>q k. has_recent_notification_for_email q e kind window)"
  "single (list_subscribers_txn lim offset f)" "single (list_notifications_txn lim offset f)" "single (\<lambda>q k. is_admin q u)"
  by (auto simp: single_def my_subscription_txn_def list_subscribers_txn_def list_notifications_txn_def query_iff
      dest!: reads_keep_db)

lemma run_txn_within:
  assumes "run_txn io who fn st = (res, st')" and "single fn" and "1 \<le> n"
  shows "within (io_pg io) n st st'"
proof -
  have n: "st_count st' = st_count st + 1" using run_txn_count [of io who fn st] assms(1) by simp
  have "one_txn (io_pg io) (st_db st) (st_db st')"
    using assms(1) by (cases rule: run_txn_cases) (use assms(2) in \<open>force simp: single_def txn_ctx_def\<close>)+
  then show ?thesis using assms(3) by (simp add: within_def n relcompp.simps)
qed

lemma with_tx_within: "with_tx io fn st = (res, st') \<Longrightarrow> single fn \<Longrightarrow> 1 \<le> n \<Longrightarrow> within (io_pg io) n st st'"
  unfolding with_tx_def by (rule run_txn_within)

lemma with_user_within:
  assumes "with_user uq io jc fn st = (res, st')" and "single fn" and "1 \<le> n"
  shows "within (io_pg io) n st st'"
proof -
  from with_user_run [of uq io jc fn st] consider "st' = st" | who where "run_txn io who fn st = (res, st')"
    unfolding assms(1) by auto
  then show ?thesis by cases (use run_txn_within assms(2,3) in auto)
qed

text \<open>A handler of the server, and one that touches the store alone.\<close>

definition frugal :: "pg_ops \<Rightarrow> nat \<Rightarrow> world handler \<Rightarrow> bool" where
  "frugal pg n h \<longleftrightarrow> (\<forall>r s w. within pg n (w_store s) (w_store (fst (outcome_value (h r (s, w))))))"

definition frugal_store :: "pg_ops \<Rightarrow> nat \<Rightarrow> (request \<Rightarrow> store \<times> rw \<Rightarrow> (store \<times> rw) outcome) \<Rightarrow> bool" where
  "frugal_store pg n b \<longleftrightarrow> (\<forall>r s w. within pg n s (fst (outcome_value (b r (s, w)))))"

lemma frugalI: "(\<And>r s w. within pg n (w_store s) (w_store (fst (outcome_value (h r (s, w)))))) \<Longrightarrow> frugal pg n h"
  by (simp add: frugal_def)

lemma frugalD: "frugal pg n h \<Longrightarrow> within pg n (w_store s) (w_store (fst (outcome_value (h r (s, w)))))"
  by (simp add: frugal_def)

lemma frugal_more: "frugal pg m h \<Longrightarrow> m \<le> n \<Longrightarrow> frugal pg n h"
  unfolding frugal_def using within_more by blast

lemma store_after: "w_store (fst (outcome_value (on_store b (s, w)))) = fst (outcome_value (b (w_store s, w)))"
  by (cases "b (w_store s, w)") (auto simp: on_store_def split: prod.splits)

lemma frugal_on_store: "frugal_store pg n b \<Longrightarrow> frugal pg n (\<lambda>r. on_store (b r))"
  by (simp add: frugal_def frugal_store_def store_after)

section \<open>The public handlers\<close>

lemma fst_failed [simp]: "fst (outcome_value (failed r m sw)) = fst sw"
  by (cases sw) (simp add: failed_def)

lemma fst_log_hashed [simp]:
  "fst (outcome_value k) = fst sw \<Longrightarrow> fst (outcome_value (log_hashed env sw k)) = fst sw"
  by (simp add: log_hashed_def)

lemma enqueue_within: "enqueue io kind e p s = (res, s') \<Longrightarrow> within (io_pg io) 1 s s'"
  unfolding enqueue_def by (erule with_tx_within) simp_all

lemma subscribe_enqueue_within: "within (io_pg (sv_io env)) 1 s (fst (outcome_value (subscribe_enqueue env d r email tok i (s, w))))"
  by (auto simp: subscribe_enqueue_def Let_def split: sum.splits prod.splits dest: enqueue_within)

lemma subscribe_upsert_within: "within (io_pg (sv_io env)) 2 s (fst (outcome_value (subscribe_upsert env d r email source (s, w))))"
proof -
  have step: "within (io_pg (sv_io env)) 2 s (fst (outcome_value (subscribe_enqueue env d r email tok i (s', w))))"
    if "with_user (sv_quote env) (sv_io env) jc (subscribe_txn p) s = (Inr (Some i), s')" for tok i s' jc p
    by (rule within_trans [OF with_user_within [OF that _ order_refl] subscribe_enqueue_within]) simp_all
  show ?thesis
    by (auto simp: subscribe_upsert_def Let_def split: sum.splits prod.splits option.splits
        intro: step dest: with_user_within [where n = 2])
qed

lemma throttle_within: "throttle_check env d email s = (res, s') \<Longrightarrow> within (io_pg (sv_io env)) 1 s s'"
  by (auto simp: throttle_check_def recently_notified_def split: if_splits dest: with_tx_within [where n = 1])

lemma subscribe_body_within: "within (io_pg (sv_io env)) 3 s (fst (outcome_value (subscribe_body env d r (s, w))))"
proof -
  have step: "within (io_pg (sv_io env)) 3 s (fst (outcome_value (subscribe_upsert env d r email source (s', w))))"
    if "throttle_check env d email s = (res, s')" for res s' email source
    by (rule within_trans [OF throttle_within [OF that] subscribe_upsert_within]) simp
  have stop: "within (io_pg (sv_io env)) 3 s s'" if "throttle_check env d email s = (res, s')" for res s' email
    using throttle_within [OF that] by (rule within_more) simp
  show ?thesis
    by (auto simp: subscribe_body_def split: sum.splits prod.splits option.splits bool.splits
        intro: step dest: stop)
qed

lemma frugal_subscribe: "frugal (io_pg (sv_io env)) 3 (handle_subscribe env d)"
proof (rule frugalI)
  fix r w and s :: world
  have "w_store (fst (outcome_value (handle_subscribe env d r (s, w)))) =
      w_store (fst (outcome_value (on_store (subscribe_body env d r) (s, w))))"
    by (simp add: handle_subscribe_def Let_def split: outcome.splits prod.splits)
  then show "within (io_pg (sv_io env)) 3 (w_store s) (w_store (fst (outcome_value (handle_subscribe env d r (s, w)))))"
    by (simp add: store_after subscribe_body_within)
qed

lemma frugal_probes: "frugal pg 0 health_ok" "frugal pg 0 (readyz ps)"
proof -
  show "frugal pg 0 health_ok" by (simp add: frugal_def health_ok_def)
  have "w_store (fst (outcome_value (readyz ps r (s, w)))) = w_store s" for r w and s :: world
    by (induction ps r "(s, w)" rule: readyz.induct) auto
  then show "frugal pg 0 (readyz ps)" by (simp add: frugal_def)
qed

lemma frugal_pages: "frugal pg 0 (handle_confirm_get env)" "frugal pg 0 (handle_unsubscribe_get env)"
  by (auto simp: frugal_def handle_confirm_get_def handle_unsubscribe_get_def Let_def split: sum.splits)

lemma frugal_posts:
  "frugal (io_pg (sv_io env)) 1 (handle_confirm_post env)" "frugal (io_pg (sv_io env)) 1 (handle_unsubscribe_post env)" "frugal (io_pg (sv_io env)) 1 (handle_my_subscription env)"
proof -
  have "frugal_store (io_pg (sv_io env)) 1 (confirm_body env)" "frugal_store (io_pg (sv_io env)) 1 (unsubscribe_body env)" "frugal_store (io_pg (sv_io env)) 1 (my_subscription_body env)"
    by (auto simp: frugal_store_def confirm_body_def unsubscribe_body_def my_subscription_body_def Let_def
        split: sum.splits prod.splits option.splits dest: with_tx_within [where n = 1] with_user_within [where n = 1])
  from this [THEN frugal_on_store]
  show "frugal (io_pg (sv_io env)) 1 (handle_confirm_post env)" "frugal (io_pg (sv_io env)) 1 (handle_unsubscribe_post env)" "frugal (io_pg (sv_io env)) 1 (handle_my_subscription env)"
    by (simp_all add: handle_confirm_post_def [abs_def] handle_unsubscribe_post_def [abs_def] handle_my_subscription_def [abs_def])
qed

section \<open>The admin handlers\<close>

lemma frugal_lists: "frugal (io_pg (ad_io env)) 1 (handle_list_subscribers env)" "frugal (io_pg (ad_io env)) 1 (handle_list_notifications env)"
  by (auto simp: frugal_def handle_list_subscribers_def handle_list_notifications_def Let_def
      split: sum.splits prod.splits option.splits dest: with_user_within [where n = 1])

lemma enqueue_confirm_within: "within (io_pg (sv_io env)) 2 s (snd (enqueue_confirm env d i s))"
proof -
  have step: "within (io_pg (sv_io env)) 2 s s''"
    if "with_tx (sv_io env) (resend_txn i h t) s = (Inr email, s')" and "enqueue (sv_io env) k e p s' = (res, s'')" for h t email s' k e p res s''
    by (rule within_trans [OF with_tx_within [OF that(1) _ order_refl] enqueue_within [OF that(2)]]) simp_all
  show ?thesis
    by (auto simp: enqueue_confirm_def Let_def split: sum.splits prod.splits intro: step dest: with_tx_within [where n = 2])
qed

lemma frugal_resend: "frugal (io_pg (sv_io env)) 2 (handle_resend_confirm scan (enqueue_confirm env d))"
proof (rule frugalI)
  fix r w and s :: world
  show "within (io_pg (sv_io env)) 2 (w_store s) (w_store (fst (outcome_value (handle_resend_confirm scan (enqueue_confirm env d) r (s, w)))))"
  proof (cases "scan (rq_url_param r ''id'')")
    case (Some i)
    obtain e st where run: "enqueue_confirm env d i (w_store s) = (e, st)" by fastforce
    then have "within (io_pg (sv_io env)) 2 (w_store s) st" using enqueue_confirm_within [of env "w_store s" d i] by simp
    then show ?thesis using Some run by (auto simp: handle_resend_confirm_def split: option.splits prod.splits)
  qed (simp add: handle_resend_confirm_def)
qed

section \<open>Middleware and router\<close>

lemma frugal_user:
  assumes "frugal pg n h"
  shows "frugal pg n (require_user env h)" "frugal pg n (optional_user env h)"
  using assms
  by (auto simp: frugal_def require_user_def optional_user_def split: sum.splits option.splits)

lemma check_admin_within: "check_admin env c u s = (res, s') \<Longrightarrow> within (io_pg (au_io env)) 1 (w_store s) (w_store s')"
  by (auto simp: check_admin_def split: prod.splits option.splits sum.splits dest: with_user_within [where n = 1])

lemma frugal_admin:
  assumes "frugal (io_pg (au_io env)) n h"
  shows "frugal (io_pg (au_io env)) (n + 1) (require_admin env h)"
proof (rule frugalI)
  fix r w and s :: world
  have step: "within (io_pg (au_io env)) (n + 1) (w_store s) (w_store (fst (outcome_value (h r' (s', w)))))"
    if "check_admin env c u s = (res, s')" for c u res s' r'
    by (rule within_trans [OF check_admin_within [OF that] frugalD [OF assms]]) simp
  have stop: "within (io_pg (au_io env)) (n + 1) (w_store s) (w_store s')" if "check_admin env c u s = (res, s')" for c u res s'
    using check_admin_within [OF that] by (rule within_more) simp
  show "within (io_pg (au_io env)) (n + 1) (w_store s) (w_store (fst (outcome_value (require_admin env h r (s, w)))))"
    by (auto simp: require_admin_def split: sum.splits option.splits prod.splits bool.splits intro: step [simplified] dest: stop)
qed

lemma frugal_rate_limit: "frugal pg n h \<Longrightarrow> frugal pg n (rate_limit lim nt trusted m window h)"
  by (auto simp: frugal_def rate_limit_def split: prod.splits bool.splits)

lemma frugal_endpoint: "frugal (io_pg (rv_io env)) 3 (endpoint_handler sys env e)"
proof -
  note subs = frugal_subscribe [of "subs_wiring sys env"] frugal_posts [of "subs_wiring sys env"]
    frugal_lists [of "admin_wiring env"] frugal_resend [of "subs_wiring sys env"]
  note admin = frugal_admin [of "auth_wiring sys env", THEN frugal_more]
  show ?thesis
    by (cases e) (auto simp: limited_def intro!: frugal_rate_limit frugal_user subs(1) [simplified]
        intro: frugal_probes [THEN frugal_more] frugal_pages [THEN frugal_more] subs(2-4) [simplified, THEN frugal_more]
        admin [simplified, OF subs(5) [simplified]] admin [simplified, OF subs(6) [simplified]] admin [simplified, OF subs(7) [simplified]])
qed

lemma frugal_router: "frugal (io_pg (rv_io env)) 3 (router sys env)"
  by (auto simp: frugal_def router_def split: option.splits prod.splits intro!: frugalD [OF frugal_endpoint])

lemma frugal_inner: "frugal (io_pg (rv_io env)) 3 (inner sys env)"
  by (auto simp: frugal_def inner_def cors_def Let_def intro!: frugalD [OF frugal_router])

lemma serve_within:
  assumes "env_ok env" and "serve sys env r (s, new_rw) = Done (s', w')"
  shows "within (io_pg (rv_io env)) 3 (w_store s) (w_store s')"
proof -
  obtain rid s1 w1 where run:
      "inner sys env (r\<lparr>rq_request_id := Some rid\<rparr>) (s, secured (watched (set_header ''X-Request-Id'' rid new_rw))) = Done (s1, w1)"
      "serve sys env r (s, new_rw) = Done (log_access
       \<lparr>al_request_id = rid, al_method = rq_method r, al_path = rq_path r, al_status = rw_status w1,
        al_remote = client_ip (rv_net env) (Some (sy_trusted sys)) r\<rparr> s1, unwatched w1)"
    by (rule serve_unfold [OF assms(1)])
  then have "w_store s' = w_store s1" using assms(2) by (simp add: log_access_def)
  then show ?thesis using frugalD [OF frugal_inner, of env s sys] run(1) by (metis fst_conv outcome_value.simps(1))
qed

text \<open>
  A request is cheap: whatever it is, and whatever fails, serving it makes at most three
  transactions (as many as a subscription and a resend by an admin need), each of which changes
  the tables by one statement at most.
\<close>

theorem request_transactions_bounded:
  assumes "env_ok env" and "serve sys env r (s, new_rw) = Done (s', w')"
  shows "st_count (w_store s) \<le> st_count (w_store s') \<and> st_count (w_store s') \<le> st_count (w_store s) + 3 \<and>
    (one_txn (io_pg (rv_io env)) ^^ (st_count (w_store s') - st_count (w_store s))) (st_db (w_store s)) (st_db (w_store s'))"
  using serve_within [OF assms] by (simp add: within_def)

lemma request_transactions_bounded_witness:
  "\<exists>s' w'. serve sample_system sample_server_env (sample_get ''GET'' ''/healthz'') (sample_world, new_rw) = Done (s', w') \<and>
     st_count (w_store s') \<le> 4"
proof -
  obtain s' w' where run: "serve sample_system sample_server_env (sample_get ''GET'' ''/healthz'') (sample_world, new_rw) = Done (s', w')"
    by (rule serve_unfold [OF sample_env_ok])
  have "st_count (w_store sample_world) = 1" by (simp add: sample_world_def)
  with request_transactions_bounded [OF sample_env_ok run] run show ?thesis by auto
qed

end
