(* ===== verification/Faults.thy ===== *)
theory Faults
  imports Workers "HOL-Library.Sublist"
begin

text \<open>
  Commits whose answer is lost. The database has then applied a transaction whose client sees an
  error; \<open>withRetry\<close> of \<open>worker.go\<close> runs a settlement again, and a claim's rows are forgotten. The steps
  of theory \<open>Workers\<close> are extended by a settlement after which its notification is still in
  flight. This theory shows what remains true then, how a dispatch is made of such transactions,
  and that a lost answer really leaves a second log entry.
\<close>

section \<open>Steps with lost answers\<close>

inductive fault_step :: "bool \<Rightarrow> pg_ops \<Rightarrow> int \<Rightarrow> sys \<Rightarrow> sys \<Rightarrow> bool" for lossy pg max_attempts where
  plain: "sys_step pg max_attempts s s' \<Longrightarrow> fault_step lossy pg max_attempts s s'"
| loses: "lossy \<Longrightarrow> (w, row) \<in> set F \<Longrightarrow> verdict_allowed max_attempts row v \<Longrightarrow>
     verdict_txn next_at row hash v q k d = Inr (u, d') \<Longrightarrow> q_pg q = pg \<Longrightarrow>
     fault_step lossy pg max_attempts \<lparr>sy_db = d, sy_flight = F\<rparr> \<lparr>sy_db = d', sy_flight = F\<rparr>"

abbreviation fault_steps :: "bool \<Rightarrow> pg_ops \<Rightarrow> int \<Rightarrow> sys \<Rightarrow> sys \<Rightarrow> bool" where
  "fault_steps lossy pg max_attempts \<equiv> (fault_step lossy pg max_attempts)\<^sup>*\<^sup>*"

lemma sys_steps_fault: "sys_steps pg m s s' \<Longrightarrow> fault_steps lossy pg m s s'"
  by (induction rule: rtranclp_induct) (auto intro: fault_step.plain rtranclp.rtrancl_into_rtrancl)

lemma lossless_steps: "fault_steps False pg m s s' \<Longrightarrow> sys_steps pg m s s'"
  by (induction rule: rtranclp_induct) (auto elim!: fault_step.cases intro: rtranclp.rtrancl_into_rtrancl)

section \<open>What remains true\<close>

text \<open>The tables are consistent, and the log of a notification ends with what its status asks for.\<close>

definition fault_inv :: "pg_ops \<Rightarrow> sys \<Rightarrow> bool" where
  "fault_inv pg s \<longleftrightarrow> db_ok pg (sy_db s) \<and>
     (\<forall>r\<in>set (db_notifications (sy_db s)).
        suffix (expected_log (n_status r)) (log_of (db_email_log (sy_db s)) (n_id r)))"

lemma fault_inv_start: "fault_inv pg (sys_start users)"
  by (simp add: fault_inv_def sys_start_def db_ok_empty) (simp add: empty_db_def)

lemma verdict_keeps_log:
  assumes "\<forall>r\<in>set (db_notifications d). suffix (expected_log (n_status r)) (log_of (db_email_log d) (n_id r))"
    and "r \<in> set (db_notifications (verdict_db q k next_at row hash v d))"
  shows "suffix (expected_log (n_status r)) (log_of (db_email_log (verdict_db q k next_at row hash v d)) (n_id r))"
proof -
  obtain r0 where r0: "r0 \<in> set (db_notifications d)"
    "r = (if n_id r0 = cl_id row then verdict_row (q_now q) next_at v r0 else r0)"
    using in_update_where assms(2) unfolding verdict_db_def settled_db_simps by fastforce
  then show ?thesis
    using assms(1) by (auto simp: verdict_db_def log_of_append log_of_verdict row_simps intro: suffixI)
qed

lemma fault_inv_verdict:
  assumes "verdict_txn next_at row hash v q k d = Inr (u, d')" and "fault_inv pg \<lparr>sy_db = d, sy_flight = F\<rparr>"
  shows "fault_inv pg \<lparr>sy_db = d', sy_flight = F'\<rparr>"
  using assms(2) db_ok_verdict [OF _ assms(1)] verdict_keeps_log [of d _ q k next_at row hash v]
  by (simp add: fault_inv_def verdict_txn_effect(1) [OF assms(1)])

lemma fault_inv_sys_step:
  assumes "sys_step pg m s s'" and "fault_inv pg s"
  shows "fault_inv pg s'"
  using assms(1)
proof cases
  case (claim q skip lim lease d rows d' F w)
  have inv: "db_ok pg d"
    "\<forall>r\<in>set (db_notifications d). suffix (expected_log (n_status r)) (log_of (db_email_log d) (n_id r))"
    using assms(2) claim by (simp_all add: fault_inv_def)
  have "suffix (expected_log (n_status r)) (log_of (db_email_log d') (n_id r))"
    if r: "r \<in> set (db_notifications d')" for r
  proof -
    let ?due = "n_id ` set (due_rows (q_now q) skip lim d)"
    have "\<exists>r0\<in>set (db_notifications d). r = (if n_id r0 \<in> ?due then leased_row (q_now q) lease r0 else r0)"
      by (rule in_update_where) (use r in \<open>simp add: claim_effect(4) [OF claim(3)]\<close>)
    then obtain r0 where r0: "r0 \<in> set (db_notifications d)"
      "r = (if n_id r0 \<in> ?due then leased_row (q_now q) lease r0 else r0)" by blast
    have log: "db_email_log d' = db_email_log d" by (simp add: claim_effect(4) [OF claim(3)])
    show ?thesis
    proof (cases "n_id r0 \<in> ?due")
      case True
      then show ?thesis unfolding r0(2) by (simp only: if_True) (simp add: row_simps)
    next
      case False
      then show ?thesis using inv(2) r0(1) unfolding r0(2) log by (simp only: if_False)
    qed
  qed
  then show ?thesis using claim(2) db_ok_claim [OF inv(1) claim(3)] by (simp add: fault_inv_def)
next
  case (settle w row F v next_at hash q k d u d')
  then show ?thesis using fault_inv_verdict [OF settle(5)] assms(2) by blast
next
  case (drop w row F d)
  then show ?thesis using assms(2) by (simp add: fault_inv_def)
next
  case (other q d d' F)
  have inv: "db_ok pg d"
    "\<forall>r\<in>set (db_notifications d). suffix (expected_log (n_status r)) (log_of (db_email_log d) (n_id r))"
    using assms(2) other by (simp_all add: fault_inv_def)
  have ok: "db_ok pg d'" using db_ok_step [OF other_step_db_step [OF other(3)] inv(1) other(4)] .
  from other(3) show ?thesis
    by (cases rule: other_step_notifications) (use other inv(2) ok in \<open>auto simp: fault_inv_def row_simps\<close>)
qed

lemma fault_inv_steps: "fault_steps lossy pg m s s' \<Longrightarrow> fault_inv pg s \<Longrightarrow> fault_inv pg s'"
proof (induction rule: rtranclp_induct)
  case (step s1 s2)
  from step.hyps(2) step.IH [OF step.prems] show ?case
    by cases (auto intro: fault_inv_sys_step fault_inv_verdict)
qed simp

lemma fault_reach_step:
  assumes "fault_step lossy pg m s s'" and "db_ok pg (sy_db s)" and "out_of_reach s r"
  shows "out_of_reach s' r \<and>
    log_of (db_email_log (sy_db s')) (n_id r) = log_of (db_email_log (sy_db s)) (n_id r)"
  using assms(1)
proof cases
  case plain
  then show ?thesis using out_of_reach_step assms(2,3) by blast
next
  case (loses w row F v next_at hash q k d u d')
  have "sys_step pg m s \<lparr>sy_db = d', sy_flight = remove1 (w, row) F\<rparr>"
    unfolding loses(1) by (rule sys_step.settle [OF loses(4-7)])
  from out_of_reach_step [OF this assms(2,3)] show ?thesis
    using assms(3) loses(1,2) by (simp add: out_of_reach_def flight_ids_def)
qed

lemma fault_reach_steps:
  assumes "fault_steps lossy pg m s s'" and "fault_inv pg s" and "out_of_reach s r"
  shows "out_of_reach s' r \<and>
    log_of (db_email_log (sy_db s')) (n_id r) = log_of (db_email_log (sy_db s)) (n_id r)"
  using assms(1)
proof induction
  case base
  show ?case using assms(3) by simp
next
  case (step s1 s2)
  have "db_ok pg (sy_db s1)" using fault_inv_steps [OF step.hyps(1) assms(2)] by (simp add: fault_inv_def)
  from fault_reach_step [OF step.hyps(2) this] step.IH show ?case by simp
qed

lemma exact_fault_inv: "sys_inv pg m s \<Longrightarrow> fault_inv pg s"
  by (simp add: sys_inv_def fault_inv_def row_inv_def)

text \<open>
  C34: a notification whose worker is gone stays in "sending" for ever: no later claim takes it,
  however long its lease has run out, and it is never sent, retried or reported. That holds also if
  answers to commits get lost; if none is, its log is empty.
\<close>

theorem abandoned_stays_sending:
  assumes "fault_steps lossy pg m (sys_start users) s" and "fault_steps lossy pg m s s'" and "0 < m"
    and "r \<in> set (db_notifications (sy_db s))" and "n_status r = NSending" and "n_id r \<notin> set (flight_ids s)"
  shows "r \<in> set (db_notifications (sy_db s')) \<and> n_id r \<notin> set (flight_ids s') \<and>
    log_of (db_email_log (sy_db s')) (n_id r) = log_of (db_email_log (sy_db s)) (n_id r) \<and>
    (\<not> lossy \<longrightarrow> log_of (db_email_log (sy_db s')) (n_id r) = [])"
proof -
  have "out_of_reach s r" using assms(4-6) by (simp add: out_of_reach_def)
  note reach = fault_reach_steps [OF assms(2) fault_inv_steps [OF assms(1) fault_inv_start] this]
  have "log_of (db_email_log (sy_db s)) (n_id r) = []" if "\<not> lossy"
    using sys_inv_steps [OF lossless_steps sys_inv_start assms(3)] assms(1,4,5) that
    by (fastforce simp: sys_inv_def row_inv_def)
  then show ?thesis using reach by (auto simp: out_of_reach_def)
qed

lemma abandoned_stays_sending_witness:
  "sample_sending \<in> set (db_notifications (sy_db run_dropped)) \<and> log_of (db_email_log (sy_db run_dropped)) 1 = []"
proof -
  have "sample_sending \<in> set (db_notifications (sy_db run_dropped))" "n_status sample_sending = NSending"
    "n_id sample_sending \<notin> set (flight_ids run_dropped)"
    by (simp_all add: run_dropped_def flight_ids_def) (simp add: sample_sending_def row_simps)
  from abandoned_stays_sending [OF sys_steps_fault [OF run_to(3), where lossy = False] rtranclp.rtrancl_refl _ this]
  show ?thesis by (simp add: sample_row_facts)
qed

section \<open>A dispatch settles once, whatever the answers\<close>

text \<open>A dispatch leaves the store alone or runs one settlement, of a verdict the worker may reach.\<close>

definition settles_by :: "worker_env \<Rightarrow> worker_config \<Rightarrow> claimed \<Rightarrow> store \<Rightarrow> store \<Rightarrow> bool" where
  "settles_by env cfg row st st' \<longleftrightarrow> st' = st \<or>
     (\<exists>next_at hash v. verdict_allowed (wc_max_attempts cfg) row v \<and>
        st' = snd (settle env (verdict_txn next_at row hash v) st))"

lemma settles_by_verdict:
  "verdict_allowed (wc_max_attempts cfg) row v \<Longrightarrow> settle env (verdict_txn next_at row hash v) st = (res, st') \<Longrightarrow>
     settles_by env cfg row st st'"
  unfolding settles_by_def by (metis snd_conv)

lemma marks_settle_by:
  "settles_by env cfg row (ws_store ws) (ws_store (snd (after_settling ws (mark_sent env row pid (ws_store ws)))))"
  "settles_by env cfg row (ws_store ws) (ws_store (snd (after_settling ws (mark_failed env row err (ws_store ws)))))"
  "cl_attempts row \<ge> wc_max_attempts cfg \<Longrightarrow>
     settles_by env cfg row (ws_store ws) (ws_store (snd (after_settling ws (mark_dead env row err (ws_store ws)))))"
  "cl_attempts row < wc_max_attempts cfg \<Longrightarrow>
     settles_by env cfg row (ws_store ws)
       (ws_store (snd (after_settling ws (Inr (schedule_retry env row err delay (ws_store ws))))))"
  using settles_by_verdict [of cfg row "Delivered pid" env] settles_by_verdict [of cfg row "Reject (truncate_bytes err 1000)" env]
    settles_by_verdict [of cfg row "GiveUp (truncate_bytes err 1000)" env]
    settles_by_verdict [of cfg row "TryAgain (truncate_bytes err 1000)" env]
  by (auto simp: after_settling_def mark_sent_def mark_failed_def mark_dead_def schedule_retry_def settles_by_def [of _ _ _ st st for st]
      split: sum.splits prod.splits)

lemma dispatch_settles_by:
  "settles_by env cfg row (ws_store ws) (ws_store (snd (dispatch env cfg send row ws)))"
proof -
  have after: "settles_by env cfg row (ws_store ws) (ws_store (snd (after_send env cfg row res ws)))" for res and ws :: "'a worker_state"
    using marks_settle_by [where ws = ws and cfg = cfg and row = row]
    by (auto simp: after_send_def settles_by_def [of _ _ _ st st for st] split: sum.splits)
  have "settles_by env cfg row (ws_store ws) (ws_store (snd (after_send env cfg row res (ws\<lparr>ws_sender := x\<rparr>))))" for res x
    using after [of "ws\<lparr>ws_sender := x\<rparr>" res] by simp
  then show ?thesis
    using marks_settle_by(2) [of env cfg row ws]
    by (auto simp: dispatch_def settles_by_def [of _ _ _ st st for st] split: sum.splits prod.splits)
qed

text \<open>The keys after a settlement.\<close>

lemma verdict_db_ids: "n_id ` set (db_notifications (verdict_db q k next_at row hash v d)) = n_id ` set (db_notifications d)"
proof -
  have "row_update n_id (verdict_row (q_now q) next_at v)" by unfold_locales (simp add: row_simps)
  then show ?thesis by (simp add: verdict_db_def row_update.key_set_update)
qed

lemma verdict_db_log_ids:
  "l_id ` set (db_email_log (verdict_db q k next_at row hash v d)) =
     l_id ` set (db_email_log d) \<union> (if verdict_log row hash v = [] then {} else {k})"
  by (cases v) (auto simp: verdict_db_def log_row_def)

section \<open>A lost answer leaves a second log entry\<close>

text \<open>
  If the answer to the commit of "sent" is lost and the second try succeeds, the e-mail log says twice
  that the notification was sent, though it was sent once.
\<close>

theorem lost_answer_logs_twice:
  assumes "we_key env = Some key" and "build_message (we_uuid_text env) row = Inr msg"
    and "send msg (ws_sender ws) = (Inr (Inr pid), x)" and "n = st_count (ws_store ws)" and "d = st_db (ws_store ws)"
    and "io_fault (we_io env) n = Some (LostCommit e)" and "io_fault (we_io env) (n + 1) = None"
    and "\<not> we_cancelled env (n + 1)" and "pg_text pid" and "cl_id row \<in> n_id ` set (db_notifications d)"
    and "io_uuid (we_io env) n \<noteq> io_uuid (we_io env) (n + 1)"
    and "{io_uuid (we_io env) n, io_uuid (we_io env) (n + 1)} \<inter> l_id ` set (db_email_log d) = {}"
  shows "log_of (db_email_log (st_db (ws_store (snd (dispatch env cfg send row ws))))) (cl_id row) =
    log_of (db_email_log d) (cl_id row) @ [LSent, LSent]"
proof -
  let ?io = "we_io env" and ?v = "Delivered pid" and ?hash = "row_hash env key row"
  let ?q = "txn_ctx ?io IdService n" and ?q' = "txn_ctx ?io IdService (n + 1)"
  define d1 where "d1 = verdict_db ?q (io_uuid ?io n) 0 row ?hash ?v d"
  define d2 where "d2 = verdict_db ?q' (io_uuid ?io (n + 1)) 0 row ?hash ?v d1"
  have one: "verdict_txn 0 row ?hash ?v ?q (io_uuid ?io n) d = Inr ((), d1)"
    unfolding d1_def by (rule verdict_txn_succeeds) (use assms(9,10,12) in auto)
  have new: "io_uuid ?io (n + 1) \<notin> l_id ` set (db_email_log d1)" "cl_id row \<in> n_id ` set (db_notifications d1)"
    using assms(10-12) by (auto simp: d1_def verdict_db_ids verdict_db_log_ids)
  have two: "verdict_txn 0 row ?hash ?v ?q' (io_uuid ?io (n + 1)) d1 = Inr ((), d2)"
    unfolding d2_def by (rule verdict_txn_succeeds) (use assms(9) new in auto)
  have "settle env (sent_txn row ?hash pid) (ws_store ws) = (None, \<lparr>st_db = d2, st_count = n + 2\<rparr>)"
    using one two assms(4-8)
    by (cases "ws_store ws") (simp add: settle_def numeral_3_eq_3 with_tx_def run_txn_def Let_def)
  then have "st_db (ws_store (snd (dispatch env cfg send row ws))) = d2"
    using dispatch_unfold [of env key row msg send ws _ x cfg, OF assms(1-3)] hash_with_key(1) [OF assms(1), of row]
    by (simp add: after_send_def mark_sent_def after_settling_def)
  moreover have "log_of (db_email_log d2) (cl_id row) = log_of (db_email_log d) (cl_id row) @ [LSent, LSent]"
    by (simp add: d1_def d2_def verdict_db_def log_of_append log_of_verdict del: verdict_log.simps)
  ultimately show ?thesis by simp
qed

end
