(* ===== verification/Shutdown.thy ===== *)
theory Shutdown
  imports Requests Faults
begin

text \<open>
  The goroutines of \<open>cmd/server/main.go\<close>, from the end of the startup to the exit of the
  process: the main goroutine with its signal channel and its deferred calls, the goroutine of
  the listener and its connections, and \<open>Worker.Run\<close> with one loop per configured worker. What
  a loop does in a tick is the tick of theory \<open>Worker\<close>, reduced to the number of its
  transactions and of the rows processed; the last section shows that the loop modelled here
  is that of theory \<open>Worker\<close>.
\<close>

section \<open>The loop of one worker (\<open>worker.go\<close>)\<close>

text \<open>
  Inside a tick the loop has some transactions left to make; then the number of rows
  processed, or a panic. A step says how many transactions it makes.
\<close>

datatype loop_pc = Polling | Ticking nat "int run" | Idling | Ended

inductive loop_step :: "bool \<Rightarrow> loop_pc \<Rightarrow> nat \<Rightarrow> loop_pc \<Rightarrow> bool" for cancelled where
  stop: "cancelled \<Longrightarrow> loop_step cancelled Polling 0 Ended"
| tick: "\<not> cancelled \<Longrightarrow> 1 \<le> n \<Longrightarrow> n \<le> 17 \<Longrightarrow> loop_step cancelled Polling 0 (Ticking n r)"
| transact: "loop_step cancelled (Ticking (Suc n) r) 1 (Ticking n r)"
| again: "k \<noteq> 0 \<Longrightarrow> loop_step cancelled (Ticking 0 (Ran k)) 0 Polling"
| rest: "loop_step cancelled (Ticking 0 (Ran 0)) 0 Idling"
| wake: "loop_step cancelled Idling 0 Polling"
| stop_idle: "cancelled \<Longrightarrow> loop_step cancelled Idling 0 Ended"

inductive_simps loop_step_simps [simp]:
  "loop_step c Polling k pc" "loop_step c (Ticking n r) k pc" "loop_step c Idling k pc" "loop_step c Ended k pc"

section \<open>The state of the process\<close>

text \<open>Where the main goroutine is: the launches, \<open>signal.Notify\<close>, and so on to the deferred calls.\<close>

datatype main_pc =
    LaunchWorker | LaunchServer | NotifySignals | AwaitSignal | Draining | CancelRoot | AwaitGroup | Returning

datatype deferred = CancelShutdown | CloseService | CloseUser | CancelRootAgain

datatype server_pc = NoServer | Starting | Accepting | Stopped

text \<open>A connection; a request being served has some transactions left to make.\<close>

datatype conn_pc = Fresh | Serving nat | KeptAlive | Gone

datatype run_pc = NoRun | Spawning nat | AwaitLoops | RunEnded

text \<open>\<open>Close\<close> refuses new transactions at once and returns when the connections are back.\<close>

datatype pool_pc = Open | Closing | Closed

datatype fate = Alive | Exited | Killed | Panicked panic

record proc =
  pr_fate :: fate
  pr_main :: main_pc
  pr_deferred :: "deferred list"
  pr_signal :: bool
  pr_group :: nat
  pr_closing :: bool
  pr_timed_out :: bool
  pr_cancelled :: bool
  pr_server :: server_pc
  pr_conns :: "conn_pc list"
  pr_run :: run_pc
  pr_run_group :: nat
  pr_loops :: "loop_pc list"
  pr_service :: pool_pc
  pr_user :: pool_pc

text \<open>The calls that the startup has deferred, the last one first.\<close>

definition start_deferred :: "deferred list" where
  "start_deferred = [CloseService, CloseUser, CancelRootAgain]"

definition launched :: proc where
  "launched = \<lparr>pr_fate = Alive, pr_main = LaunchWorker, pr_deferred = start_deferred, pr_signal = False,
     pr_group = 0, pr_closing = False, pr_timed_out = False, pr_cancelled = False, pr_server = NoServer,
     pr_conns = [], pr_run = NoRun, pr_run_group = 0, pr_loops = [], pr_service = Open, pr_user = Open\<rparr>"

section \<open>The goroutines\<close>

text \<open>
  The main goroutine. \<open>freed\<close> says when \<open>pgxpool\<close>'s \<open>Close\<close> returns. \<open>srv.Shutdown\<close> closes the
  listener, waits for \<open>Serve\<close> to let go of it, and then for the connections, for 25 seconds.
\<close>

inductive main_step :: "(proc \<Rightarrow> bool) \<Rightarrow> proc \<Rightarrow> proc \<Rightarrow> bool" for freed s where
  launch_worker: "pr_main s = LaunchWorker \<Longrightarrow>
     main_step freed s (s\<lparr>pr_main := LaunchServer, pr_group := pr_group s + 1, pr_run := Spawning 0\<rparr>)"
| launch_server: "pr_main s = LaunchServer \<Longrightarrow>
     main_step freed s (s\<lparr>pr_main := NotifySignals, pr_group := pr_group s + 1, pr_server := Starting\<rparr>)"
| notify: "pr_main s = NotifySignals \<Longrightarrow> main_step freed s (s\<lparr>pr_main := AwaitSignal\<rparr>)"
| receive: "pr_main s = AwaitSignal \<Longrightarrow> pr_signal s \<Longrightarrow>
     main_step freed s (s\<lparr>pr_main := Draining, pr_signal := False, pr_closing := True,
       pr_deferred := CancelShutdown # pr_deferred s\<rparr>)"
| drained: "pr_main s = Draining \<Longrightarrow> pr_server s \<noteq> Accepting \<Longrightarrow> list_all (\<lambda>c. c = Gone) (pr_conns s) \<Longrightarrow>
     main_step freed s (s\<lparr>pr_main := CancelRoot\<rparr>)"
| time_out: "pr_main s = Draining \<Longrightarrow> pr_server s \<noteq> Accepting \<Longrightarrow>
     main_step freed s (s\<lparr>pr_main := CancelRoot, pr_timed_out := True\<rparr>)"
| cancel: "pr_main s = CancelRoot \<Longrightarrow> main_step freed s (s\<lparr>pr_main := AwaitGroup, pr_cancelled := True\<rparr>)"
| waited: "pr_main s = AwaitGroup \<Longrightarrow> pr_group s = 0 \<Longrightarrow> main_step freed s (s\<lparr>pr_main := Returning\<rparr>)"
| cancel_shutdown: "pr_main s = Returning \<Longrightarrow> pr_deferred s = CancelShutdown # ds \<Longrightarrow>
     main_step freed s (s\<lparr>pr_deferred := ds\<rparr>)"
| close_service: "pr_main s = Returning \<Longrightarrow> pr_deferred s = CloseService # ds \<Longrightarrow> pr_service s = Open \<Longrightarrow>
     main_step freed s (s\<lparr>pr_service := Closing\<rparr>)"
| service_closed: "pr_main s = Returning \<Longrightarrow> pr_deferred s = CloseService # ds \<Longrightarrow> pr_service s = Closing \<Longrightarrow>
     freed s \<Longrightarrow> main_step freed s (s\<lparr>pr_service := Closed, pr_deferred := ds\<rparr>)"
| close_user: "pr_main s = Returning \<Longrightarrow> pr_deferred s = CloseUser # ds \<Longrightarrow> pr_user s = Open \<Longrightarrow>
     main_step freed s (s\<lparr>pr_user := Closing\<rparr>)"
| user_closed: "pr_main s = Returning \<Longrightarrow> pr_deferred s = CloseUser # ds \<Longrightarrow> pr_user s = Closing \<Longrightarrow>
     freed s \<Longrightarrow> main_step freed s (s\<lparr>pr_user := Closed, pr_deferred := ds\<rparr>)"
| cancel_again: "pr_main s = Returning \<Longrightarrow> pr_deferred s = CancelRootAgain # ds \<Longrightarrow>
     main_step freed s (s\<lparr>pr_deferred := ds, pr_cancelled := True\<rparr>)"
| exit: "pr_main s = Returning \<Longrightarrow> pr_deferred s = [] \<Longrightarrow> main_step freed s (s\<lparr>pr_fate := Exited\<rparr>)"

text \<open>
  The listener's goroutine: \<open>ListenAndServe\<close> fails to bind, is refused because the shutdown has
  begun, or serves until \<open>Accept\<close> fails or the shutdown closes the listener. Its error is logged.
\<close>

inductive server_step :: "proc \<Rightarrow> proc \<Rightarrow> bool" for s where
  listen: "pr_server s = Starting \<Longrightarrow> \<not> pr_closing s \<Longrightarrow> server_step s (s\<lparr>pr_server := Accepting\<rparr>)"
| stopped: "pr_server s = Starting \<or> pr_server s = Accepting \<Longrightarrow>
     server_step s (s\<lparr>pr_server := Stopped, pr_group := pr_group s - 1\<rparr>)"
| accept: "pr_server s = Accepting \<Longrightarrow> server_step s (s\<lparr>pr_conns := pr_conns s @ [Fresh]\<rparr>)"

text \<open>
  A connection: \<open>bound\<close> limits the transactions of one request (three, by theory \<open>Requests\<close>). It may be closed while it is
  not serving; after a response it is kept alive only if the shutdown has not begun.
\<close>

inductive conn_step :: "nat \<Rightarrow> bool \<Rightarrow> conn_pc \<Rightarrow> nat \<Rightarrow> conn_pc \<Rightarrow> bool" for bound closing where
  request: "c = Fresh \<or> c = KeptAlive \<Longrightarrow> n \<le> bound \<Longrightarrow> conn_step bound closing c 0 (Serving n)"
| close: "c = Fresh \<or> c = KeptAlive \<Longrightarrow> conn_step bound closing c 0 Gone"
| transact: "conn_step bound closing (Serving (Suc n)) 1 (Serving n)"
| keep: "\<not> closing \<Longrightarrow> conn_step bound closing (Serving 0) 0 KeptAlive"
| finish: "conn_step bound closing (Serving 0) 0 Gone"

inductive_simps conn_step_simps [simp]:
  "conn_step b cl Fresh k pc" "conn_step b cl (Serving n) k pc" "conn_step b cl KeptAlive k pc" "conn_step b cl Gone k pc"

text \<open>\<open>Worker.Run\<close> starts the loops, one after the other, and waits for all of them.\<close>

inductive run_step :: "nat \<Rightarrow> proc \<Rightarrow> proc \<Rightarrow> bool" for loops s where
  spawn: "pr_run s = Spawning i \<Longrightarrow> i < loops \<Longrightarrow>
     run_step loops s (s\<lparr>pr_run := Spawning (i + 1), pr_run_group := pr_run_group s + 1,
       pr_loops := pr_loops s @ [Polling]\<rparr>)"
| spawned: "pr_run s = Spawning i \<Longrightarrow> \<not> i < loops \<Longrightarrow> run_step loops s (s\<lparr>pr_run := AwaitLoops\<rparr>)"
| all_done: "pr_run s = AwaitLoops \<Longrightarrow> pr_run_group s = 0 \<Longrightarrow>
     run_step loops s (s\<lparr>pr_run := RunEnded, pr_group := pr_group s - 1\<rparr>)"

text \<open>
  Who moves; the number is that of the transactions the step makes. A signal before
  \<open>signal.Notify\<close> kills the process; later ones are queued, one at most. A panic in a worker takes
  the process down.
\<close>

datatype actor = Main | Outside | Listener | Conn nat | Runner | Loop nat

inductive proc_step :: "nat \<Rightarrow> nat \<Rightarrow> (proc \<Rightarrow> bool) \<Rightarrow> proc \<Rightarrow> actor \<times> nat \<Rightarrow> proc \<Rightarrow> bool"
  for loops bound freed s where
  by_main: "pr_fate s = Alive \<Longrightarrow> main_step freed s s' \<Longrightarrow> proc_step loops bound freed s (Main, 0) s'"
| kill: "pr_fate s = Alive \<Longrightarrow> pr_main s \<in> {LaunchWorker, LaunchServer, NotifySignals} \<Longrightarrow>
     proc_step loops bound freed s (Outside, 0) (s\<lparr>pr_fate := Killed\<rparr>)"
| signal: "pr_fate s = Alive \<Longrightarrow> pr_main s \<notin> {LaunchWorker, LaunchServer, NotifySignals} \<Longrightarrow> \<not> pr_signal s \<Longrightarrow>
     proc_step loops bound freed s (Outside, 0) (s\<lparr>pr_signal := True\<rparr>)"
| by_listener: "pr_fate s = Alive \<Longrightarrow> server_step s s' \<Longrightarrow> proc_step loops bound freed s (Listener, 0) s'"
| by_conn: "pr_fate s = Alive \<Longrightarrow> i < length (pr_conns s) \<Longrightarrow>
     conn_step bound (pr_closing s) (pr_conns s ! i) k c \<Longrightarrow>
     proc_step loops bound freed s (Conn i, k) (s\<lparr>pr_conns := (pr_conns s)[i := c]\<rparr>)"
| by_runner: "pr_fate s = Alive \<Longrightarrow> run_step loops s s' \<Longrightarrow> proc_step loops bound freed s (Runner, 0) s'"
| by_loop: "pr_fate s = Alive \<Longrightarrow> i < length (pr_loops s) \<Longrightarrow>
     loop_step (pr_cancelled s) (pr_loops s ! i) k l \<Longrightarrow>
     proc_step loops bound freed s (Loop i, k)
       (s\<lparr>pr_loops := (pr_loops s)[i := l], pr_run_group := pr_run_group s - (if l = Ended then 1 else 0)\<rparr>)"
| panic: "pr_fate s = Alive \<Longrightarrow> i < length (pr_loops s) \<Longrightarrow> pr_loops s ! i = Ticking 0 (Crashed p) \<Longrightarrow>
     proc_step loops bound freed s (Loop i, 0) (s\<lparr>pr_fate := Panicked p\<rparr>)"

text \<open>Sequences of steps, and the states the process can get into.\<close>

inductive proc_run :: "nat \<Rightarrow> nat \<Rightarrow> (proc \<Rightarrow> bool) \<Rightarrow> proc \<Rightarrow> (actor \<times> nat) list \<Rightarrow> proc \<Rightarrow> bool"
  for loops bound freed where
  here: "proc_run loops bound freed s [] s"
| there: "proc_step loops bound freed s a t \<Longrightarrow> proc_run loops bound freed t as u \<Longrightarrow>
     proc_run loops bound freed s (a # as) u"

definition proc_reachable :: "nat \<Rightarrow> nat \<Rightarrow> (proc \<Rightarrow> bool) \<Rightarrow> proc \<Rightarrow> bool" where
  "proc_reachable loops bound freed s \<longleftrightarrow> (\<exists>as. proc_run loops bound freed launched as s)"

text \<open>\<open>main\<close>: the exit status, if the process ends by itself; a panic makes it 2.\<close>

fun exit_status :: "'k startup \<Rightarrow> fate \<Rightarrow> int option" where
  "exit_status (NotStarted e) f = Some 1"
| "exit_status (StartCrashed p) f = Some 2"
| "exit_status (Started sys) Exited = Some 0"
| "exit_status (Started sys) (Panicked p) = Some 2"
| "exit_status (Started sys) f = None"

section \<open>The invariant\<close>

fun stage :: "main_pc \<Rightarrow> nat" where
  "stage LaunchWorker = 0"
| "stage LaunchServer = 1"
| "stage NotifySignals = 2"
| "stage AwaitSignal = 3"
| "stage Draining = 4"
| "stage CancelRoot = 5"
| "stage AwaitGroup = 6"
| "stage Returning = 7"

definition running :: "loop_pc \<Rightarrow> nat" where
  "running l = (if l = Ended then 0 else 1)"

lemma running_simps [simp]:
  "running Polling = 1" "running (Ticking n r) = 1" "running Idling = 1" "running Ended = 0"
  by (simp_all add: running_def)

definition group_size :: "proc \<Rightarrow> nat" where
  "group_size s = (if pr_run s \<in> {NoRun, RunEnded} then 0 else 1) + (if pr_server s \<in> {NoServer, Stopped} then 0 else 1)"

text \<open>The wait groups count their goroutines.\<close>

definition groups_inv :: "nat \<Rightarrow> proc \<Rightarrow> bool" where
  "groups_inv loops s \<longleftrightarrow>
     pr_group s = group_size s \<and> pr_run_group s = sum_list (map running (pr_loops s)) \<and>
     (pr_run s = NoRun \<longleftrightarrow> pr_main s = LaunchWorker) \<and>
     (pr_server s = NoServer \<longleftrightarrow> stage (pr_main s) < 2) \<and>
     (pr_run s = NoRun \<longrightarrow> pr_loops s = []) \<and>
     (\<forall>i. pr_run s = Spawning i \<longrightarrow> length (pr_loops s) = i \<and> i \<le> loops) \<and>
     (pr_run s \<in> {AwaitLoops, RunEnded} \<longrightarrow> length (pr_loops s) = loops) \<and>
     (pr_run s = RunEnded \<longrightarrow> sum_list (map running (pr_loops s)) = 0)"

text \<open>What the main goroutine has done and what is left, the two pools last.\<close>

definition stage_inv :: "proc \<Rightarrow> bool" where
  "stage_inv s \<longleftrightarrow>
     (pr_closing s \<longleftrightarrow> 4 \<le> stage (pr_main s)) \<and> (pr_cancelled s \<longleftrightarrow> 6 \<le> stage (pr_main s)) \<and>
     (5 \<le> stage (pr_main s) \<longrightarrow> pr_server s \<noteq> Accepting \<and>
        (pr_timed_out s \<or> list_all (\<lambda>c. c = Gone) (pr_conns s))) \<and>
     (pr_main s = Returning \<longrightarrow> pr_run s = RunEnded \<and> pr_server s = Stopped) \<and>
     (pr_signal s \<longrightarrow> 3 \<le> stage (pr_main s)) \<and>
     (pr_fate s = Killed \<longrightarrow> stage (pr_main s) < 3) \<and>
     (pr_fate s = Exited \<longrightarrow> pr_main s = Returning \<and> pr_deferred s = [])"

definition pools_inv :: "proc \<Rightarrow> bool" where
  "pools_inv s \<longleftrightarrow>
     (stage (pr_main s) < 4 \<longrightarrow> pr_deferred s = start_deferred) \<and>
     (4 \<le> stage (pr_main s) \<and> stage (pr_main s) < 7 \<longrightarrow> pr_deferred s = CancelShutdown # start_deferred) \<and>
     (pr_main s \<noteq> Returning \<longrightarrow> pr_service s = Open \<and> pr_user s = Open) \<and>
     (pr_main s = Returning \<longrightarrow>
        pr_deferred s = CancelShutdown # start_deferred \<and> pr_service s = Open \<and> pr_user s = Open \<or>
        pr_deferred s = start_deferred \<and> pr_service s \<noteq> Closed \<and> pr_user s = Open \<or>
        pr_deferred s = [CloseUser, CancelRootAgain] \<and> pr_service s = Closed \<and> pr_user s \<noteq> Closed \<or>
        pr_deferred s \<in> {[CancelRootAgain], []} \<and> pr_service s = Closed \<and> pr_user s = Closed)"

definition proc_inv :: "nat \<Rightarrow> proc \<Rightarrow> bool" where
  "proc_inv loops s \<longleftrightarrow> groups_inv loops s \<and> stage_inv s \<and> pools_inv s"

lemma proc_inv_launched: "proc_inv loops launched"
  by (simp add: proc_inv_def groups_inv_def stage_inv_def pools_inv_def launched_def group_size_def)

lemma stage_simps:
  "stage m < 2 \<longleftrightarrow> m \<in> {LaunchWorker, LaunchServer}" "4 \<le> stage m \<longleftrightarrow> m \<in> {Draining, CancelRoot, AwaitGroup, Returning}"
  "6 \<le> stage m \<longleftrightarrow> m \<in> {AwaitGroup, Returning}" "5 \<le> stage m \<longleftrightarrow> m \<in> {CancelRoot, AwaitGroup, Returning}"
  "stage m < 3 \<longleftrightarrow> m \<in> {LaunchWorker, LaunchServer, NotifySignals}" "stage m < 7 \<longleftrightarrow> m \<noteq> Returning"
  "stage m < 4 \<longleftrightarrow> m \<notin> {Draining, CancelRoot, AwaitGroup, Returning}"
  "3 \<le> stage m \<longleftrightarrow> m \<notin> {LaunchWorker, LaunchServer, NotifySignals}"
  by (cases m; simp)+

lemma group_empty: "group_size s = 0 \<longleftrightarrow> pr_run s \<in> {NoRun, RunEnded} \<and> pr_server s \<in> {NoServer, Stopped}"
  by (simp add: group_size_def)

lemma groups_inv_main: "main_step freed s s' \<Longrightarrow> groups_inv loops s \<Longrightarrow> groups_inv loops s'"
  by (erule main_step.cases) (auto simp: groups_inv_def group_size_def stage_simps split: if_splits)

lemma stage_inv_main:
  "main_step freed s s' \<Longrightarrow> groups_inv loops s \<Longrightarrow> stage_inv s \<Longrightarrow> pr_fate s = Alive \<Longrightarrow> stage_inv s'"
  by (erule main_step.cases) (auto simp: groups_inv_def group_size_def stage_inv_def stage_simps split: if_splits)

lemma pools_inv_main: "main_step freed s s' \<Longrightarrow> pools_inv s \<Longrightarrow> pools_inv s'"
  by (erule main_step.cases) (auto simp: pools_inv_def stage_simps start_deferred_def)

lemma groups_inv_server: "server_step s s' \<Longrightarrow> groups_inv loops s \<Longrightarrow> groups_inv loops s'"
  by (erule server_step.cases; simp add: groups_inv_def group_size_def stage_simps; elim disjE; simp)

lemma groups_inv_run: "run_step loops s s' \<Longrightarrow> groups_inv loops s \<Longrightarrow> groups_inv loops s'"
  by (erule run_step.cases) (auto simp: groups_inv_def group_size_def split: if_splits)

text \<open>Weights of list entries: what one entry's change does to the sum.\<close>

lemma weight_update:
  fixes f :: "'a \<Rightarrow> nat"
  assumes "i < length xs"
  shows "sum_list (map f (xs[i := x])) + f (xs ! i) = sum_list (map f xs) + f x"
  using assms by (induction xs arbitrary: i) (auto split: nat.splits)

lemma not_ended: "loop_step c l k l' \<Longrightarrow> running l = 1"
  by (erule loop_step.cases) simp_all

lemma groups_inv_loop:
  assumes "i < length (pr_loops s)" and "loop_step (pr_cancelled s) (pr_loops s ! i) k l" and "groups_inv loops s"
  shows "groups_inv loops
    (s\<lparr>pr_loops := (pr_loops s)[i := l], pr_run_group := pr_run_group s - (if l = Ended then 1 else 0)\<rparr>)"
proof -
  let ?ls = "(pr_loops s)[i := l]"
  have w: "sum_list (map running ?ls) + 1 = sum_list (map running (pr_loops s)) + running l"
    using weight_update [OF assms(1), of running l] not_ended [OF assms(2)] by simp
  have g: "pr_run_group s = sum_list (map running (pr_loops s))"
      "pr_run s = RunEnded \<longrightarrow> sum_list (map running (pr_loops s)) = 0" "pr_run s \<noteq> NoRun"
    using assms(1,3) unfolding groups_inv_def by auto
  have "sum_list (map running ?ls) = pr_run_group s - (if l = Ended then 1 else 0)"
    using w unfolding g(1) running_def by (cases "l = Ended") simp_all
  moreover have "pr_run s \<noteq> RunEnded" 
    using g(2) weight_update [OF assms(1), of running Ended] not_ended [OF assms(2)]
    by (simp del: sum_list_eq_0_iff)
  ultimately show ?thesis
    using assms(3) g(3) by (simp add: groups_inv_def group_size_def)
qed

lemma stage_inv_server: "server_step s s' \<Longrightarrow> groups_inv loops s \<Longrightarrow> stage_inv s \<Longrightarrow> stage_inv s'"
  by (erule server_step.cases) (auto simp: groups_inv_def stage_inv_def stage_simps)

lemma stage_inv_run: "run_step loops s s' \<Longrightarrow> stage_inv s \<Longrightarrow> stage_inv s'"
  by (erule run_step.cases) (auto simp: stage_inv_def stage_simps)

lemma stage_inv_conn:
  assumes "i < length (pr_conns s)" and "conn_step b cl (pr_conns s ! i) k c" and "stage_inv s"
  shows "stage_inv (s\<lparr>pr_conns := (pr_conns s)[i := c]\<rparr>)"
proof -
  have "pr_conns s ! i \<noteq> Gone" using assms(2) by auto
  then have "\<not> list_all (\<lambda>c. c = Gone) (pr_conns s)" using assms(1) by (auto simp: list_all_length)
  then show ?thesis using assms(3) by (auto simp: stage_inv_def)
qed

lemma pools_inv_server: "server_step s s' \<Longrightarrow> pools_inv s \<Longrightarrow> pools_inv s'"
  by (erule server_step.cases) (auto simp: pools_inv_def)

lemma pools_inv_run: "run_step loops s s' \<Longrightarrow> pools_inv s \<Longrightarrow> pools_inv s'"
  by (erule run_step.cases) (auto simp: pools_inv_def)

lemma proc_inv_step:
  assumes "proc_step loops bound freed s a s'" and "proc_inv loops s"
  shows "proc_inv loops s'"
  using assms
proof (cases rule: proc_step.cases)
  case by_main
  then show ?thesis
    using assms(2) groups_inv_main stage_inv_main pools_inv_main unfolding proc_inv_def by blast
next
  case by_listener
  then show ?thesis
    using assms(2) groups_inv_server stage_inv_server pools_inv_server unfolding proc_inv_def by blast
next
  case (by_conn i k c)
  then show ?thesis
    using assms(2) stage_inv_conn [OF by_conn(4,5)]
    by (auto simp: proc_inv_def groups_inv_def group_size_def pools_inv_def)
next
  case by_runner
  then show ?thesis
    using assms(2) groups_inv_run stage_inv_run pools_inv_run unfolding proc_inv_def by blast
next
  case (by_loop i k l)
  then show ?thesis
    using assms(2) groups_inv_loop [OF by_loop(4,5)]
    by (auto simp: proc_inv_def stage_inv_def pools_inv_def)
qed (auto simp: proc_inv_def groups_inv_def group_size_def stage_inv_def pools_inv_def stage_simps)

lemma proc_inv_run: "proc_run loops bound freed s as t \<Longrightarrow> proc_inv loops s \<Longrightarrow> proc_inv loops t"
  by (induction rule: proc_run.induct) (auto dest: proc_inv_step)

lemma proc_inv_reachable: "proc_reachable loops bound freed s \<Longrightarrow> proc_inv loops s"
  unfolding proc_reachable_def using proc_inv_run proc_inv_launched by blast

section \<open>Nothing outlives what it uses\<close>

lemma no_loop_runs: "sum_list (map running ls) = 0 \<longleftrightarrow> (\<forall>l\<in>set ls. l = Ended)"
  by (auto simp: running_def)

text \<open>
  Once the main goroutine returns: no loop runs, the listener is gone, and no connection is
  left unless \<open>Shutdown\<close> timed out; before, both pools are open.
\<close>

lemma returning_alone:
  assumes "proc_inv loops s" and "pr_service s \<noteq> Open \<or> pr_user s \<noteq> Open \<or> pr_fate s = Exited"
  shows "\<forall>l\<in>set (pr_loops s). l = Ended" and "pr_server s = Stopped" and "pr_run s = RunEnded"
    and "pr_timed_out s \<or> list_all (\<lambda>c. c = Gone) (pr_conns s)"
proof -
  have "stage_inv s" "pools_inv s" using assms(1) by (simp_all add: proc_inv_def)
  then have m: "pr_main s = Returning" using assms(2) by (cases "pr_main s = Returning") (simp_all add: pools_inv_def stage_inv_def)
  then have r: "pr_run s = RunEnded" "pr_server s = Stopped" "pr_timed_out s \<or> list_all (\<lambda>c. c = Gone) (pr_conns s)"
    using assms(1) by (auto simp: proc_inv_def stage_inv_def)
  then have "sum_list (map running (pr_loops s)) = 0" using assms(1) by (simp add: proc_inv_def groups_inv_def)
  then show "\<forall>l\<in>set (pr_loops s). l = Ended" by (simp only: no_loop_runs)
  show "pr_run s = RunEnded" "pr_server s = Stopped" "pr_timed_out s \<or> list_all (\<lambda>c. c = Gone) (pr_conns s)"
    by (rule r)+
qed

lemma txn_steps:
  assumes "proc_step loops bound freed s (x, k) s'" and "0 < k"
  shows "(\<exists>i n r. x = Loop i \<and> i < length (pr_loops s) \<and> pr_loops s ! i = Ticking (Suc n) r) \<or>
    (\<exists>i n. x = Conn i \<and> i < length (pr_conns s) \<and> pr_conns s ! i = Serving (Suc n))"
  using assms(1)
proof (cases rule: proc_step.cases)
  case (by_conn i c)
  then show ?thesis using assms(2) by (auto elim: conn_step.cases)
next
  case (by_loop i l)
  then show ?thesis using assms(2) by (auto elim: loop_step.cases)
qed (use assms(2) in auto)

text \<open>
  C15: the order of the shutdown protects the pools: whatever the interleaving, a worker starts
  a transaction only while both pools are open; a request may meet a closed pool only if
  \<open>Shutdown\<close> gave up waiting for it; and when the process exits with status 0, every worker loop
  has returned, the listener is gone and both pools are closed.
\<close>

theorem pools_outlive_their_users:
  assumes "proc_reachable loops bound freed s"
  shows "(proc_step loops bound freed s (Loop i, 1) s' \<longrightarrow> pr_service s = Open \<and> pr_user s = Open) \<and>
    (proc_step loops bound freed s (Conn j, 1) s'' \<longrightarrow> pr_service s = Open \<and> pr_user s = Open \<or> pr_timed_out s) \<and>
    (exit_status up (pr_fate s) = Some 0 \<longrightarrow> (\<forall>l\<in>set (pr_loops s). l = Ended) \<and> pr_server s = Stopped \<and>
       pr_service s = Closed \<and> pr_user s = Closed)"
proof (intro conjI impI)
  note inv = proc_inv_reachable [OF assms]
  { assume step: "proc_step loops bound freed s (Loop i, 1) s'"
    obtain n r where l: "i < length (pr_loops s)" "pr_loops s ! i = Ticking (Suc n) r"
      using txn_steps [OF step] by auto
    then have "\<not> (\<forall>l\<in>set (pr_loops s). l = Ended)" using nth_mem by fastforce
    then show "pr_service s = Open" "pr_user s = Open" using returning_alone(1) [OF inv] by blast+ }
  { assume step: "proc_step loops bound freed s (Conn j, 1) s''"
    obtain n where c: "j < length (pr_conns s)" "pr_conns s ! j = Serving (Suc n)"
      using txn_steps [OF step] by auto
    then have "\<not> list_all (\<lambda>c. c = Gone) (pr_conns s)" by (auto simp: list_all_length)
    then show "pr_service s = Open \<and> pr_user s = Open \<or> pr_timed_out s" using returning_alone(4) [OF inv] by blast }
  assume "exit_status up (pr_fate s) = Some 0"
  then have exited: "pr_fate s = Exited" by (cases up; cases "pr_fate s") auto
  then show "\<forall>l\<in>set (pr_loops s). l = Ended" "pr_server s = Stopped" using returning_alone [OF inv] by blast+
  have "stage_inv s" "pools_inv s" using inv by (simp_all add: proc_inv_def)
  then have "pr_service s = Closed \<and> pr_user s = Closed"
    using exited by (simp add: stage_inv_def pools_inv_def start_deferred_def)
  then show "pr_service s = Closed" "pr_user s = Closed" by simp_all
qed

section \<open>The shutdown ends\<close>

text \<open>
  Once the root context is cancelled, every step takes something off this weight: a loop can
  only finish its tick, a connection its requests, the main goroutine its deferred calls.
\<close>

fun loop_weight :: "loop_pc \<Rightarrow> nat" where
  "loop_weight Ended = 0"
| "loop_weight Polling = 1"
| "loop_weight Idling = 2"
| "loop_weight (Ticking n r) = n + 3"

fun conn_weight :: "nat \<Rightarrow> conn_pc \<Rightarrow> nat" where
  "conn_weight bound Gone = 0"
| "conn_weight bound (Serving n) = n + 1"
| "conn_weight bound Fresh = bound + 2"
| "conn_weight bound KeptAlive = bound + 2"

fun run_weight :: "nat \<Rightarrow> run_pc \<Rightarrow> nat" where
  "run_weight loops NoRun = 0"
| "run_weight loops (Spawning i) = 2 * (loops - i) + 2"
| "run_weight loops AwaitLoops = 1"
| "run_weight loops RunEnded = 0"

fun pool_weight :: "pool_pc \<Rightarrow> nat" where
  "pool_weight Open = 2"
| "pool_weight Closing = 1"
| "pool_weight Closed = 0"

definition main_weight :: "proc \<Rightarrow> nat" where
  "main_weight s = (if pr_fate s = Alive then 1 else 0) + (if pr_main s = AwaitGroup then 1 else 0) +
     length (pr_deferred s) + pool_weight (pr_service s) + pool_weight (pr_user s)"

definition weight :: "nat \<Rightarrow> nat \<Rightarrow> proc \<Rightarrow> nat" where
  "weight loops bound s = main_weight s + (if pr_signal s then 0 else 1) +
     (if pr_server s \<in> {Starting, Accepting} then 1 else 0) + run_weight loops (pr_run s) +
     sum_list (map loop_weight (pr_loops s)) + sum_list (map (conn_weight bound) (pr_conns s))"

lemma weight_loop_step: "loop_step True l k l' \<Longrightarrow> loop_weight l' < loop_weight l"
  by (erule loop_step.cases) simp_all

lemma weight_conn_step: "conn_step bound True c k c' \<Longrightarrow> conn_weight bound c' < conn_weight bound c"
  by (erule conn_step.cases) auto

lemma weight_main_step:
  assumes "main_step freed s t" and "stage_inv s" and "pr_fate s = Alive" and "pr_cancelled s"
  shows "weight loops bound t < weight loops bound s"
proof -
  have "pr_main s \<in> {AwaitGroup, Returning}" using assms(2,4) by (simp add: stage_inv_def stage_simps)
  with assms(1,3) show ?thesis
    by (cases rule: main_step.cases) (simp_all add: weight_def main_weight_def)
qed

lemma weight_server_step:
  assumes "server_step s t" and "stage_inv s" and "pr_cancelled s"
  shows "weight loops bound t < weight loops bound s"
proof -
  have "pr_closing s" "pr_server s \<noteq> Accepting" using assms(2,3) by (auto simp: stage_inv_def stage_simps)
  with assms(1) show ?thesis
    by (cases rule: server_step.cases) (simp_all add: weight_def main_weight_def)
qed

lemma weight_run_step: "run_step loops s t \<Longrightarrow> weight loops bound t < weight loops bound s"
  by (erule run_step.cases) (simp_all add: weight_def main_weight_def)

lemma weight_step:
  assumes "proc_step loops bound freed s a t" and "proc_inv loops s" and "pr_cancelled s"
  shows "weight loops bound t < weight loops bound s"
proof -
  have inv: "stage_inv s" and st: "pr_closing s" "stage (pr_main s) \<ge> 6"
    using assms(2,3) by (auto simp: proc_inv_def stage_inv_def stage_simps)
  from assms(1) show ?thesis
  proof (cases rule: proc_step.cases)
    case by_main
    then show ?thesis using weight_main_step inv assms(3) by blast
  next
    case by_listener
    then show ?thesis using weight_server_step inv assms(3) by blast
  next
    case (by_conn i k c)
    then show ?thesis
      using weight_update [OF by_conn(4), of "conn_weight bound" c] weight_conn_step [of bound "pr_conns s ! i" k c] st(1)
      by (simp add: weight_def main_weight_def)
  next
    case by_runner
    then show ?thesis using weight_run_step by blast
  next
    case (by_loop i k l)
    then show ?thesis
      using weight_update [OF by_loop(4), of loop_weight l] weight_loop_step [of "pr_loops s ! i" k l] assms(3)
      by (simp add: weight_def main_weight_def)
  qed (use st in \<open>simp_all add: weight_def main_weight_def stage_simps\<close>)
qed

lemma cancelled_step:
  "proc_step loops bound freed s a t \<Longrightarrow> pr_cancelled s \<Longrightarrow> pr_cancelled t"
  by (erule proc_step.cases) (auto elim!: main_step.cases server_step.cases run_step.cases)

lemma weight_run:
  assumes "proc_run loops bound freed s as t" and "proc_inv loops s" and "pr_cancelled s"
  shows "weight loops bound t + length as \<le> weight loops bound s \<and> pr_cancelled t"
  using assms
proof (induction rule: proc_run.induct)
  case (there s a t as u)
  then show ?case
    using weight_step [OF there.hyps(1)] proc_inv_step [OF there.hyps(1)] cancelled_step [OF there.hyps(1)] by fastforce
qed simp

text \<open>A process that is shutting down always has someone who can move.\<close>

fun resting :: "conn_pc \<Rightarrow> bool" where
  "resting (Serving (Suc n)) \<longleftrightarrow> False"
| "resting c \<longleftrightarrow> True"

lemma loop_can_step: "l \<noteq> Ended \<Longrightarrow> \<exists>k l'. loop_step True l k l' \<or> (\<exists>p. l = Ticking 0 (Crashed p))"
proof (cases l)
  case (Ticking n r)
  then show ?thesis
  proof (cases n)
    case 0
    then show ?thesis using Ticking by (cases r) auto
  qed auto
qed auto

lemma run_can_step:
  assumes "groups_inv loops s" and "pr_fate s = Alive" and "pr_cancelled s" and "pr_run s \<notin> {NoRun, RunEnded}"
  shows "\<exists>a t. proc_step loops bound freed s a t"
proof (cases "pr_run s = AwaitLoops \<and> pr_run_group s \<noteq> 0")
  case True
  then obtain l where "l \<in> set (pr_loops s)" "l \<noteq> Ended"
    using assms(1) no_loop_runs unfolding groups_inv_def by metis
  then obtain i where i: "i < length (pr_loops s)" "pr_loops s ! i \<noteq> Ended" by (auto simp: in_set_conv_nth)
  obtain k l' where "loop_step (pr_cancelled s) (pr_loops s ! i) k l' \<or> (\<exists>p. pr_loops s ! i = Ticking 0 (Crashed p))"
    using loop_can_step [OF i(2)] assms(3) by auto
  then show ?thesis using by_loop [OF assms(2) i(1)] panic [OF assms(2) i(1)] by blast
next
  case False
  then have "\<exists>t. run_step loops s t"
    using assms(4) by (cases "pr_run s") (auto intro: run_step.intros)
  then show ?thesis using assms(2) by (auto intro: by_runner)
qed

lemma returning_can_step:
  assumes "pools_inv s" and "pr_main s = Returning" and "pr_fate s = Alive"
    and "\<And>s. list_all resting (pr_conns s) \<Longrightarrow> freed s"
  shows "\<exists>a t. proc_step loops bound freed s a t"
proof (cases "list_all resting (pr_conns s)")
  case True
  then have "freed s" by (rule assms(4))
  then have "\<exists>t. main_step freed s t"
    using assms(1,2) by (cases "pr_service s"; cases "pr_user s") (auto simp: pools_inv_def start_deferred_def intro: main_step.intros)
  then show ?thesis using assms(3) by (auto intro: by_main)
next
  case False
  then obtain i where i: "i < length (pr_conns s)" "\<not> resting (pr_conns s ! i)" by (auto simp: list_all_length)
  then obtain n where "pr_conns s ! i = Serving (Suc n)" by (auto elim: resting.elims)
  then have "conn_step bound (pr_closing s) (pr_conns s ! i) 1 (Serving n)" by simp
  then show ?thesis using i(1) assms(3) by (blast intro: by_conn)
qed

lemma cancelled_can_step:
  assumes "proc_inv loops s" and "pr_cancelled s" and "pr_fate s = Alive"
    and "\<And>s. list_all resting (pr_conns s) \<Longrightarrow> freed s"
  shows "\<exists>a t. proc_step loops bound freed s a t"
proof -
  have inv: "groups_inv loops s" "stage_inv s" "pools_inv s" using assms(1) by (simp_all add: proc_inv_def)
  show ?thesis
  proof (cases "pr_main s = Returning")
    case True
    then show ?thesis using returning_can_step [OF inv(3) _ assms(3)] assms(4) by blast
  next
    case False
    then have m: "pr_main s = AwaitGroup" using inv(2) assms(2) by (simp add: stage_inv_def stage_simps)
    consider "group_size s = 0" | "pr_run s \<notin> {NoRun, RunEnded}" | "pr_server s \<notin> {NoServer, Stopped}"
      unfolding group_empty by blast
    then show ?thesis
    proof cases
      case 1
      then have "pr_group s = 0" using inv(1) by (simp add: groups_inv_def)
      then show ?thesis using by_main [OF assms(3) main_step.waited [OF m]] by blast
    next
      case 2
      then show ?thesis using run_can_step [OF inv(1) assms(3,2)] by blast
    next
      case 3
      then have "pr_server s = Starting \<or> pr_server s = Accepting" by (cases "pr_server s") simp_all
      then show ?thesis using by_listener [OF assms(3) server_step.stopped] by blast
    qed
  qed
qed

text \<open>
  C16: the shutdown ends: once the root context is cancelled, however the goroutines are
  scheduled, only so many more steps are possible (the weight of the state), and the process
  does not get stuck before it has exited, if \<open>Close\<close> returns when no request holds a
  connection; the only other end is a panic of a worker.
\<close>

theorem shutdown_ends:
  assumes "\<And>s. list_all resting (pr_conns s) \<Longrightarrow> freed s" and "proc_reachable loops bound freed s"
    and "pr_cancelled s" and "proc_run loops bound freed s as t"
  shows "length as \<le> weight loops bound s \<and>
    ((\<nexists>a u. proc_step loops bound freed t a u) \<longrightarrow> pr_fate t = Exited \<or> (\<exists>p. pr_fate t = Panicked p))"
proof -
  have inv: "proc_inv loops s" by (rule proc_inv_reachable [OF assms(2)])
  note w = weight_run [OF assms(4) inv assms(3)]
  have t: "proc_inv loops t" by (rule proc_inv_run [OF assms(4) inv])
  have c: "pr_cancelled t" using w by (rule conjunct2)
  have "stage_inv t" using t by (simp add: proc_inv_def)
  then have "6 \<le> stage (pr_main t)" "pr_fate t = Killed \<longrightarrow> stage (pr_main t) < 3"
    using c unfolding stage_inv_def by simp_all
  then have "pr_fate t \<noteq> Killed" by linarith
  moreover have "\<exists>a u. proc_step loops bound freed t a u" if "pr_fate t = Alive"
  proof (rule cancelled_can_step [OF t c that])
    show "freed s" if "list_all resting (pr_conns s)" for s using that by (rule assms(1))
  qed
  moreover have "length as \<le> weight loops bound s" using w by linarith
  ultimately show ?thesis by (cases "pr_fate t") blast+
qed

lemma proc_run_step: "proc_step loops bound freed s a t \<Longrightarrow> proc_run loops bound freed s [a] t"
  by (rule there [OF _ here])

lemma cancel_run:
  assumes "pr_fate s = Alive" and "pr_main s = CancelRoot"
  shows "\<exists>t. proc_run loops bound freed s [(Main, 0)] t \<and> pr_cancelled t"
  using proc_run_step [OF by_main [OF assms(1) main_step.cancel [OF assms(2)]]] by fastforce

lemma drain_run:
  assumes "pr_fate s = Alive" and "pr_main s = Draining"
  shows "\<exists>as t. proc_run loops bound freed s as t \<and> length as \<le> 3 \<and> set as \<subseteq> {(Main, 0), (Listener, 0)} \<and> pr_cancelled t"
proof -
  have free: "\<exists>t. proc_run loops bound freed u [(Main, 0), (Main, 0)] t \<and> pr_cancelled t"
    if u: "pr_fate u = Alive" "pr_main u = Draining" "pr_server u \<noteq> Accepting" for u
  proof -
    let ?v = "u\<lparr>pr_main := CancelRoot, pr_timed_out := True\<rparr>"
    have "pr_fate ?v = Alive" "pr_main ?v = CancelRoot" using u(1) by simp_all
    then obtain t where "proc_run loops bound freed ?v [(Main, 0)] t" "pr_cancelled t" using cancel_run by blast
    then show ?thesis using there [OF by_main [OF u(1) main_step.time_out [OF u(2,3)]]] by blast
  qed
  show ?thesis
  proof (cases "pr_server s = Accepting")
    case False
    then show ?thesis using free [OF assms] by fastforce
  next
    case True
    let ?u = "s\<lparr>pr_server := Stopped, pr_group := pr_group s - 1\<rparr>"
    obtain t where "proc_run loops bound freed ?u [(Main, 0), (Main, 0)] t" "pr_cancelled t"
      using free [of ?u] assms by auto
    moreover have "proc_step loops bound freed s (Listener, 0) ?u"
      using True assms(1) by (intro by_listener server_step.stopped) simp_all
    ultimately have "proc_run loops bound freed s [(Listener, 0), (Main, 0), (Main, 0)] t" by (blast intro: there)
    with \<open>pr_cancelled t\<close> show ?thesis by fastforce
  qed
qed

text \<open>
  A signal always leads to the shutdown: once it is in the channel, four steps of the main
  goroutine and the listener alone cancel the root context, whatever the requests and workers
  are doing.
\<close>

theorem signal_starts_shutdown:
  assumes "proc_reachable loops bound freed s" and "pr_fate s = Alive" and "pr_signal s \<or> pr_closing s"
  shows "\<exists>as t. proc_run loops bound freed s as t \<and> length as \<le> 4 \<and> set as \<subseteq> {(Main, 0), (Listener, 0)} \<and> pr_cancelled t"
proof -
  have "stage_inv s" using proc_inv_reachable [OF assms(1)] by (simp add: proc_inv_def)
  then consider "pr_main s = AwaitSignal" "pr_signal s" | "pr_main s = Draining" | "pr_main s = CancelRoot" | "pr_cancelled s"
    using assms(3) by (cases "pr_main s") (auto simp: stage_inv_def)
  then show ?thesis
  proof cases
    case 1
    let ?u = "s\<lparr>pr_main := Draining, pr_signal := False, pr_closing := True, pr_deferred := CancelShutdown # pr_deferred s\<rparr>"
    obtain as t where run: "proc_run loops bound freed ?u as t" "length as \<le> 3" "set as \<subseteq> {(Main, 0), (Listener, 0)}" "pr_cancelled t"
      using drain_run [of ?u loops bound freed] assms(2) by auto
    have "proc_run loops bound freed s ((Main, 0) # as) t"
      by (rule there [OF by_main [OF assms(2) main_step.receive [OF 1]] run(1)])
    then show ?thesis using run(2-4) by (intro exI [of _ "(Main, 0) # as"] exI [of _ t]) simp
  next
    case 2
    then show ?thesis using drain_run [OF assms(2), of loops bound freed] by fastforce
  next
    case 3
    then show ?thesis using cancel_run [OF assms(2)] by fastforce
  next
    case 4
    then show ?thesis by (intro exI [of _ "[]"] exI [of _ s]) (simp add: here)
  qed
qed

lemma lingering_step:
  assumes "proc_step loops bound freed s (x, k) t" and "x \<noteq> Outside" and "pr_server s = Stopped"
    and "pr_main s = AwaitSignal" and "\<not> pr_signal s" and "pr_fate s \<notin> {Exited, Killed}"
  shows "pr_server t = Stopped \<and> pr_main t = AwaitSignal \<and> \<not> pr_signal t \<and> pr_fate t \<notin> {Exited, Killed} \<and>
    length (pr_conns t) = length (pr_conns s)"
  using assms by (cases rule: proc_step.cases) (auto elim!: main_step.cases server_step.cases run_step.cases)

text \<open>
  C21: a failed listener does not stop the process: if \<open>ListenAndServe\<close> has returned (say because the
  port is taken) and no signal comes, the main goroutine waits for ever and no connection is
  accepted any more, while the workers go on; nothing but a panic of a worker ends it.
\<close>

theorem failed_listener_lingers:
  assumes "proc_run loops bound freed s as t" and "\<forall>k. (Outside, k) \<notin> set as" and "pr_server s = Stopped"
    and "pr_main s = AwaitSignal" and "\<not> pr_signal s" and "pr_fate s = Alive"
  shows "pr_main t = AwaitSignal \<and> pr_fate t \<notin> {Exited, Killed} \<and> length (pr_conns t) = length (pr_conns s)"
proof -
  have "pr_fate s \<notin> {Exited, Killed}" using assms(6) by simp
  with assms(1-5) show ?thesis
  proof (induction rule: proc_run.induct)
    case (there s a t as u)
    obtain x k where a: "a = (x, k)" by fastforce
    have "x \<noteq> Outside" using there.prems(1) a by auto
    from lingering_step [OF there.hyps(1) [unfolded a] this there.prems(2-5)] there.IH there.prems(1)
    show ?case by simp
  qed simp
qed

section \<open>The loop is that of the worker\<close>

text \<open>
  The loop by itself, from one number of transactions to another; \<open>can\<close> says from which number
  on the context is seen cancelled.
\<close>

inductive loop_run :: "(nat \<Rightarrow> bool) \<Rightarrow> nat \<Rightarrow> loop_pc \<Rightarrow> nat \<Rightarrow> loop_pc \<Rightarrow> bool" for can where
  loop_here: "loop_run can c l c l"
| loop_there: "loop_step (can c) l k l' \<Longrightarrow> loop_run can (c + k) l' c'' l'' \<Longrightarrow> loop_run can c l c'' l''"

fun rows_processed :: "(int \<times> gerror option) run \<Rightarrow> int run" where
  "rows_processed (Ran (k, e)) = Ran k"
| "rows_processed (Crashed p) = Crashed p"

lemma loop_run_step: "loop_step (can c) l 0 l' \<Longrightarrow> loop_run can c l' c'' l'' \<Longrightarrow> loop_run can c l c'' l''"
  using loop_there [of can c l 0 l'] by simp

lemma loop_run_tick:
  "loop_run can (c + n) (Ticking 0 r) c'' l'' \<Longrightarrow> loop_run can c (Ticking n r) c'' l''"
proof (induction n arbitrary: c)
  case (Suc n)
  have "loop_run can (c + 1) (Ticking n r) c'' l''" by (rule Suc.IH) (use Suc.prems in simp)
  then show ?case by (rule loop_there [OF loop_step.transact])
qed simp

lemma loop_run_after_tick: "loop_run can c Polling c'' l'' \<Longrightarrow> loop_run can c (Ticking 0 (Ran k)) c'' l''"
proof (cases "k = 0")
  case True
  assume run: "loop_run can c Polling c'' l''"
  have "loop_run can c Idling c'' l''" by (rule loop_run_step [OF loop_step.wake run])
  then show ?thesis unfolding True by (rule loop_run_step [OF loop_step.rest])
next
  case False
  assume "loop_run can c Polling c'' l''"
  then show ?thesis by (rule loop_run_step [OF loop_step.again [OF False]])
qed

lemma loop_run_stop: "can c \<Longrightarrow> loop_run can c Polling c Ended"
  by (rule loop_run_step [OF loop_step.stop loop_here])

lemma tick_is_loop_step:
  assumes "tick env cfg send ws = (r, ws')" and "\<not> can (st_count (ws_store ws))"
    and "loop_run can (st_count (ws_store ws')) (Ticking 0 (rows_processed r)) c'' l''"
  shows "loop_run can (st_count (ws_store ws)) Polling c'' l''"
proof -
  let ?c = "st_count (ws_store ws)" and ?c' = "st_count (ws_store ws')"
  note n = tick_count(1,2) [OF assms(1)]
  have "loop_step (can ?c) Polling 0 (Ticking (?c' - ?c) (rows_processed r))"
    by (rule loop_step.tick [OF assms(2)]) (use n in linarith)+
  moreover have "loop_run can ?c (Ticking (?c' - ?c) (rows_processed r)) c'' l''"
    by (rule loop_run_tick) (use n assms(3) in simp)
  ultimately show ?thesis by (rule loop_run_step)
qed

text \<open>
  What the worker of theory \<open>Worker\<close> does, with its database, its provider and its clock,
  the loop of the process does: the same number of transactions, and it stands at the top of
  the loop or has returned, if the context is cancelled, or it has panicked.
\<close>

theorem worker_loop_is_process_loop:
  assumes "worker_loop n env cfg send ws = (res, ws')"
  shows "loop_run (we_cancelled env) (st_count (ws_store ws)) Polling (st_count (ws_store ws'))
    (case res of Crashed p \<Rightarrow> Ticking 0 (Crashed p)
     | Ran u \<Rightarrow> if we_cancelled env (st_count (ws_store ws')) then Ended else Polling)"
  using assms
proof (induction n arbitrary: ws)
  case 0
  then show ?case by (auto intro: loop_here loop_run_stop)
next
  case (Suc n)
  show ?case
  proof (cases "we_cancelled env (st_count (ws_store ws))")
    case True
    then show ?thesis using Suc.prems by (auto intro: loop_here loop_run_stop)
  next
    case False
    obtain r ws1 where t: "tick env cfg send ws = (r, ws1)" by fastforce
    show ?thesis
    proof (cases r)
      case (Ran x)
      then have "worker_loop n env cfg send ws1 = (res, ws')" using Suc.prems False t by simp
      note rest = loop_run_after_tick [OF Suc.IH [OF this], of "fst x"]
      have "rows_processed r = Ran (fst x)" using Ran by (cases x) simp
      then show ?thesis
        using tick_is_loop_step [where can = "we_cancelled env", OF t False] rest by simp
    next
      case (Crashed p)
      then have "ws' = ws1" "res = Crashed p" using Suc.prems False t by simp_all
      then show ?thesis
        using tick_is_loop_step [where can = "we_cancelled env", OF t False] Crashed by (simp add: loop_here)
    qed
  qed
qed

section \<open>The configured worker does not panic\<close>

lemma dispatch_never_panics:
  assumes "we_key env = Some key" and "wc_max_attempts cfg \<le> 28" and "0 \<le> cl_attempts row"
    and "\<And>m s. \<exists>r. fst (send m s) = Inr r"
  shows "\<exists>ws'. dispatch env cfg send row ws = (Ran (), ws')"
proof (cases "build_message (we_uuid_text env) row")
  case (Inl e)
  then show ?thesis
    using hash_with_key [OF assms(1), of row]
    by (auto simp: dispatch_def mark_failed_def after_settling_def split: prod.splits)
next
  case (Inr msg)
  obtain r s where send: "send msg (ws_sender ws) = (Inr r, s)" using assms(4) by (metis prod.collapse)
  let ?ws = "ws\<lparr>ws_sender := s\<rparr>"
  have step: "dispatch env cfg send row ws = after_send env cfg row (Inr r) ?ws"
    by (rule dispatch_unfold [where send = send, OF assms(1) Inr send])
  show ?thesis
  proof (cases "cl_attempts row < wc_max_attempts cfg")
    case True
    then have "cl_attempts row \<le> 28" using assms(2) by simp
    from after_send_settles [OF assms(1,3) this, of ?ws cfg r] show ?thesis unfolding step by blast
  next
    case False
    then show ?thesis
      unfolding step using hash_with_key(1) [OF assms(1)]
      by (auto simp: after_send_def mark_sent_def mark_dead_def after_settling_def split: sum.splits prod.splits)
  qed
qed

lemma dispatch_all_never_panics:
  assumes "we_key env = Some key" and "wc_max_attempts cfg \<le> 28" and "\<And>m s. \<exists>r. fst (send m s) = Inr r"
    and "list_all (\<lambda>row. 0 \<le> cl_attempts row) rows"
  shows "\<exists>e ws'. dispatch_all env cfg send rows ws = (Ran e, ws')"
  using assms(4)
proof (induction rows arbitrary: ws)
  case (Cons row rows)
  obtain ws' where "dispatch env cfg send row ws = (Ran (), ws')"
    using dispatch_never_panics [where send = send, OF assms(1,2) _ assms(3)] Cons.prems by auto
  then show ?case using Cons.IH [of ws'] Cons.prems by (auto split: option.splits)
qed simp

lemma claimed_attempts:
  assumes "with_tx (we_io env) (claim_txn env cfg n) st = (Inr rows, st')" and "db_ok pg (st_db st)"
  shows "list_all (\<lambda>row. 0 \<le> cl_attempts row) rows"
proof -
  obtain q where "claim_due_notifications q (we_locked env n) claim_limit (lease_seconds cfg) (st_db st) =
      Inr (rows, st_db st')"
    using with_tx_ok [OF assms(1)] by (auto simp: claim_txn_def)
  note rows = claim_effect(3) [OF this]
  have "0 \<le> n_attempts r" if "r \<in> set (due_rows (q_now q) (we_locked env n) claim_limit (st_db st))" for r
    using due_rows_basic(2) [OF that] assms(2) by (simp add: db_ok_def)
  then show ?thesis by (fastforce simp: rows list_all_iff claimed_of_def row_simps)
qed

lemma tick_never_panics:
  assumes "we_key env = Some key" and "wc_max_attempts cfg \<le> 28" and "\<And>m s. \<exists>r. fst (send m s) = Inr r"
    and "db_ok pg (st_db (ws_store ws))"
  shows "\<exists>r ws'. tick env cfg send ws = (Ran r, ws')"
proof -
  obtain c st where cap: "over_cap env cfg (ws_store ws) = (c, st)" by fastforce
  obtain cl st' where tx: "with_tx (we_io env) (claim_txn env cfg (st_count st)) st = (cl, st')" by fastforce
  show ?thesis
  proof (cases "c = Inr False \<and> (\<exists>rows. cl = Inr rows)")
    case False
    then show ?thesis using cap tx by (auto simp: tick_def split: sum.splits bool.splits)
  next
    case True
    then obtain rows where rows: "cl = Inr rows" by blast
    have "list_all (\<lambda>row. 0 \<le> cl_attempts row) rows"
      using claimed_attempts [OF tx [unfolded rows]] over_cap_keeps_db [OF cap] assms(4) by simp
    then show ?thesis
      using dispatch_all_never_panics [where send = send, OF assms(1-3), of rows "ws\<lparr>ws_store := st'\<rparr>"] True cap tx rows
      by (auto simp: tick_def split: option.splits)
  qed
qed

lemma mailers_never_panic: "\<exists>r. fst (fake_send m f) = Inr r" "\<exists>r. fst (resend_send (\<lambda>e. Inr (h e)) http_do rs m s) = Inr r"
proof -
  show "\<exists>r. fst (fake_send m f) = Inr r" by (simp add: fake_send_def split: option.splits)
  obtain n log where s: "s = (n, log)" by fastforce
  show "\<exists>r. fst (resend_send (\<lambda>e. Inr (h e)) http_do rs m s) = Inr r"
    by (auto simp: s resend_send_def Let_def split: prod.splits sum.splits)
qed


section \<open>What the shutdown leaves behind\<close>

lemma with_tx_cancelled:
  "io_fault io (st_count st) = Some (BeginFault e) \<Longrightarrow> with_tx io fn st = (Inl e, st\<lparr>st_count := st_count st + 1\<rparr>)"
  by (simp add: with_tx_def run_txn_def Let_def)

lemma settle_cancelled:
  assumes "io_fault (we_io env) (st_count st) = Some (BeginFault e)" and "we_cancelled env (st_count st + 1)"
  shows "settle env txn st = (Some e, st\<lparr>st_count := st_count st + 1\<rparr>)"
  using assms by (simp add: settle_def numeral_eq_Suc with_tx_cancelled)

lemma abandoned_for_good:
  assumes "sys_inv pg m \<lparr>sy_db = d, sy_flight = (w, row) # F\<rparr>" and "0 < m"
    and "fault_steps lossy pg m \<lparr>sy_db = d, sy_flight = F\<rparr> s'"
  shows "\<exists>r\<in>set (db_notifications (sy_db s')). n_id r = cl_id row \<and> n_status r = NSending \<and>
    log_of (db_email_log (sy_db s')) (n_id r) = []"
proof -
  let ?s = "\<lparr>sy_db = d, sy_flight = (w, row) # F\<rparr>" and ?t = "\<lparr>sy_db = d, sy_flight = F\<rparr>"
  have "sys_step pg m ?s ?t" using sys_step.drop [of w row "(w, row) # F" pg m d] by simp
  then have "sys_steps pg m ?s ?t" by (rule r_into_rtranclp)
  then have inv: "sys_inv pg m ?t" by (rule sys_inv_steps [OF _ assms(1,2)])
  obtain r where r: "lookup_row n_id (cl_id row) (db_notifications d) = Some r" "n_status r = NSending"
    using assms(1) by (auto simp: sys_inv_def owned_def)
  then have mem: "r \<in> set (db_notifications d)" "n_id r = cl_id row" by (auto dest: lookup_row_Some)
  have "cl_id row \<notin> set (flight_ids ?t)" using assms(1) by (simp add: sys_inv_def flight_ids_def)
  then have "out_of_reach ?t r" using mem r(2) by (simp add: out_of_reach_def)
  note reach = fault_reach_steps [OF assms(3) exact_fault_inv [OF inv] this]
  have "row_inv m (db_email_log d) r" using inv mem(1) by (simp add: sys_inv_def)
  then have "log_of (db_email_log (sy_db s')) (n_id r) = []" using reach r(2) by (simp add: row_inv_def)
  then show ?thesis using reach mem(2) r(2) by (intro bexI [of _ r]) (simp_all add: out_of_reach_def)
qed

text \<open>
  C19: A shutdown in the middle of a send loses track of the notification: if the root context is
  cancelled before the answer of the provider is recorded, the settlement fails at its first
  try (no transaction begins under a cancelled context) and is not tried again. Whether the mail
  went out or not, the row stays in "sending" without a log entry for ever, whatever the next
  process does, also if answers to later commits get lost.
\<close>

theorem shutdown_strands_notification:
  assumes "we_key env = Some key" and "0 \<le> cl_attempts row" and "cl_attempts row \<le> 28"
    and "build_message (we_uuid_text env) row = Inr msg" and "send msg (ws_sender ws) = (Inr res, n)"
    and "\<And>c. st_count (ws_store ws) \<le> c \<Longrightarrow> we_cancelled env c \<and> io_fault (we_io env) c = Some (BeginFault e)"
    and "sys_inv pg m \<lparr>sy_db = st_db (ws_store ws), sy_flight = (w, row) # F\<rparr>" and "0 < m"
    and "dispatch env cfg send row ws = (out, ws')"
    and "fault_steps lossy pg m \<lparr>sy_db = st_db (ws_store ws'), sy_flight = F\<rparr> s'"
  shows "out = Ran () \<and> ws_sender ws' = n \<and> st_db (ws_store ws') = st_db (ws_store ws) \<and>
    (\<exists>r\<in>set (db_notifications (sy_db s')). n_id r = cl_id row \<and> n_status r = NSending \<and>
       log_of (db_email_log (sy_db s')) (n_id r) = [])"
proof -
  let ?st = "ws_store ws" and ?ws = "ws\<lparr>ws_sender := n\<rparr>"
  have fault: "io_fault (we_io env) (st_count ?st) = Some (BeginFault e)" "we_cancelled env (st_count ?st + 1)"
    using assms(6) by simp_all
  have "dispatch env cfg send row ws = after_send env cfg row (Inr res) ?ws"
    by (rule dispatch_unfold [where send = send, OF assms(1,4,5)])
  then have "out = Ran ()" "ws' = ?ws\<lparr>ws_store := ?st\<lparr>st_count := st_count ?st + 1\<rparr>\<rparr>"
    using after_send_settles [OF assms(1-3), of ?ws cfg res] assms(9) by (auto simp: settle_cancelled [OF fault])
  with abandoned_for_good [OF assms(7,8)] assms(10) show ?thesis by simp
qed

section \<open>Sample runs\<close>

lemma run_ex_here: "P s \<Longrightarrow> \<exists>t. proc_run loops bound freed s [] t \<and> P t"
  using here by blast

lemma run_ex_there:
  "proc_step loops bound freed s a u \<Longrightarrow> \<exists>t. proc_run loops bound freed u as t \<and> P t \<Longrightarrow>
     \<exists>t. proc_run loops bound freed s (a # as) t \<and> P t"
  using there by blast

lemmas run_main = run_ex_there [OF by_main]
lemmas run_runner = run_ex_there [OF by_runner]
lemmas run_loop = run_ex_there [OF by_loop [where i = 0]]

definition all_resting :: "proc \<Rightarrow> bool" where
  "all_resting s \<longleftrightarrow> list_all resting (pr_conns s)"

text \<open>A worker in the middle of a tick; a failed listener; and a process whose root is cancelled.\<close>

definition sample_ticking :: proc where
  "sample_ticking = launched\<lparr>pr_main := LaunchServer, pr_group := 1, pr_run := Spawning 1, pr_run_group := 1,
     pr_loops := [Ticking 1 (Ran 0)]\<rparr>"

definition sample_awaiting :: proc where
  "sample_awaiting = launched\<lparr>pr_main := AwaitSignal, pr_group := 1, pr_run := Spawning 0, pr_server := Stopped\<rparr>"

definition sample_signalled :: proc where
  "sample_signalled = sample_awaiting\<lparr>pr_signal := True\<rparr>"

definition sample_cancelled :: proc where
  "sample_cancelled = sample_awaiting\<lparr>pr_main := AwaitGroup, pr_closing := True, pr_cancelled := True,
     pr_deferred := CancelShutdown # start_deferred\<rparr>"

lemmas sample_states = sample_cancelled_def sample_signalled_def sample_awaiting_def sample_ticking_def launched_def

lemma run_append: "proc_run loops bound freed s as t \<Longrightarrow> proc_run loops bound freed t bs u \<Longrightarrow>
    proc_run loops bound freed s (as @ bs) u"
  by (induction rule: proc_run.induct) (auto intro: there)

lemma reachable_run:
  "proc_reachable loops bound freed s \<Longrightarrow> \<exists>t. proc_run loops bound freed s as t \<and> t = u \<Longrightarrow> proc_reachable loops bound freed u"
  unfolding proc_reachable_def using run_append by blast

lemma launched_reachable: "proc_reachable loops bound freed launched"
  unfolding proc_reachable_def using here by blast

lemma ticking_reachable: "proc_reachable 1 3 all_resting sample_ticking"
  apply (rule reachable_run [OF launched_reachable, where as = "[(Main, 0), (Runner, 0), (Loop 0, 0)]"])
  apply (rule run_main [OF _ main_step.launch_worker], simp add: launched_def, simp add: launched_def)
  apply (rule run_runner [OF _ run_step.spawn], simp add: launched_def, simp, simp)
  apply (rule run_loop [where l = "Ticking 1 (Ran 0)"], simp add: launched_def, simp add: launched_def, simp add: launched_def)
  apply (rule run_ex_here, simp add: sample_states)
  done

lemma awaiting_reachable: "proc_reachable 1 3 all_resting sample_awaiting"
  apply (rule reachable_run [OF launched_reachable, where as = "[(Main, 0), (Main, 0), (Main, 0), (Listener, 0)]"])
  apply (rule run_main [OF _ main_step.launch_worker], simp add: launched_def, simp add: launched_def)
  apply (rule run_main [OF _ main_step.launch_server], simp add: launched_def, simp)
  apply (rule run_main [OF _ main_step.notify], simp add: launched_def, simp)
  apply (rule run_ex_there [OF by_listener [OF _ server_step.stopped]], simp add: launched_def, simp)
  apply (rule run_ex_here, simp add: sample_states)
  done

lemma signalled_reachable: "proc_reachable 1 3 all_resting sample_signalled"
  apply (rule reachable_run [OF awaiting_reachable, where as = "[(Outside, 0)]"])
  apply (rule run_ex_there [OF signal], simp add: sample_states, simp add: sample_states, simp add: sample_states)
  apply (rule run_ex_here, simp add: sample_states)
  done

lemma cancelled_reachable: "proc_reachable 1 3 all_resting sample_cancelled"
  apply (rule reachable_run [OF signalled_reachable, where as = "[(Main, 0), (Main, 0), (Main, 0)]"])
  apply (rule run_main [OF _ main_step.receive], simp add: sample_states, simp add: sample_states, simp add: sample_states)
  apply (rule run_main [OF _ main_step.drained], simp add: sample_states, simp, simp add: sample_states, simp add: sample_states)
  apply (rule run_main [OF _ main_step.cancel], simp add: sample_states, simp)
  apply (rule run_ex_here, simp add: sample_states)
  done

text \<open>From there to the exit: the loop is spawned, sees the cancelled context and returns.\<close>

lemma cancelled_exits:
  "\<exists>t. proc_run 1 3 all_resting sample_cancelled
     ([(Runner, 0), (Runner, 0), (Loop 0, 0), (Runner, 0)] @ replicate 8 (Main, 0)) t \<and> pr_fate t = Exited"
  apply (simp add: numeral_eq_Suc)
  apply (rule run_runner [OF _ run_step.spawn], simp add: sample_states, simp add: sample_states, simp)
  apply (rule run_runner [OF _ run_step.spawned], simp add: sample_states, simp, simp)
  apply (rule run_loop [where l = Ended], simp add: sample_states, simp add: sample_states, simp add: sample_states)
  apply (rule run_runner [OF _ run_step.all_done], simp add: sample_states, simp, simp add: sample_states)
  apply (rule run_main [OF _ main_step.waited], simp add: sample_states, simp add: sample_states, simp add: sample_states)
  apply (rule run_main [OF _ main_step.cancel_shutdown], simp add: sample_states, simp, simp add: sample_states)
  apply (rule run_main [OF _ main_step.close_service], simp add: sample_states, simp, simp add: start_deferred_def, simp add: sample_states)
  apply (rule run_main [OF _ main_step.service_closed], simp add: sample_states, simp, simp add: start_deferred_def, simp, simp add: all_resting_def sample_states)
  apply (rule run_main [OF _ main_step.close_user], simp add: sample_states, simp, simp, simp add: sample_states)
  apply (rule run_main [OF _ main_step.user_closed], simp add: sample_states, simp, simp, simp, simp add: all_resting_def sample_states)
  apply (rule run_main [OF _ main_step.cancel_again], simp add: sample_states, simp, simp)
  apply (rule run_main [OF _ main_step.exit], simp add: sample_states, simp, simp)
  apply (rule run_ex_here, simp)
  done

lemma exited_reachable: "\<exists>t. proc_reachable 1 3 all_resting t \<and> pr_fate t = Exited"
  using cancelled_exits cancelled_reachable run_append unfolding proc_reachable_def by blast

lemma pools_outlive_their_users_witness:
  "(\<exists>s'. proc_step 1 3 all_resting sample_ticking (Loop 0, 1) s' \<and> pr_service sample_ticking = Open) \<and>
   (\<exists>t. proc_reachable 1 3 all_resting t \<and> pr_fate t = Exited \<and> pr_service t = Closed \<and> pr_user t = Closed)"
proof
  have "loop_step (pr_cancelled sample_ticking) (pr_loops sample_ticking ! 0) 1 (Ticking 0 (Ran 0))"
    by (simp add: sample_states)
  then obtain s' where step: "proc_step 1 3 all_resting sample_ticking (Loop 0, 1) s'"
    using by_loop [where s = sample_ticking and i = 0] by (fastforce simp: sample_states)
  then have "pr_service sample_ticking = Open"
    using pools_outlive_their_users [OF ticking_reachable, THEN conjunct1] by blast
  with step show "\<exists>s'. proc_step 1 3 all_resting sample_ticking (Loop 0, 1) s' \<and> pr_service sample_ticking = Open" by blast
  obtain t where t: "proc_reachable 1 3 all_resting t" "pr_fate t = Exited" using exited_reachable by blast
  then have "exit_status (Started sample_system) (pr_fate t) = Some 0" by simp
  then have "pr_service t = Closed \<and> pr_user t = Closed"
    using pools_outlive_their_users [OF t(1), where up = "Started sample_system"] by simp
  with t show "\<exists>t. proc_reachable 1 3 all_resting t \<and> pr_fate t = Exited \<and> pr_service t = Closed \<and> pr_user t = Closed"
    by blast
qed

lemma shutdown_ends_witness:
  "\<exists>t. proc_run 1 3 all_resting sample_cancelled
     ([(Runner, 0), (Runner, 0), (Loop 0, 0), (Runner, 0)] @ replicate 8 (Main, 0)) t \<and> 12 \<le> weight 1 3 sample_cancelled"
proof -
  obtain t where t: "proc_run 1 3 all_resting sample_cancelled
      ([(Runner, 0), (Runner, 0), (Loop 0, 0), (Runner, 0)] @ replicate 8 (Main, 0)) t"
    using cancelled_exits by blast
  have "all_resting s" if "list_all resting (pr_conns s)" for s using that by (simp add: all_resting_def)
  from shutdown_ends [OF this cancelled_reachable _ t] show ?thesis using t by (auto simp: sample_cancelled_def)
qed

lemma signal_starts_shutdown_witness:
  "\<exists>as t. proc_run 1 3 all_resting sample_signalled as t \<and> length as \<le> 4 \<and> pr_cancelled t"
  using signal_starts_shutdown [OF signalled_reachable] by (fastforce simp: sample_states)

lemma failed_listener_lingers_witness:
  "\<exists>t. proc_run 1 3 all_resting sample_awaiting [(Runner, 0)] t \<and> pr_main t = AwaitSignal"
proof -
  have step: "run_step 1 sample_awaiting (sample_awaiting\<lparr>pr_run := Spawning (0 + 1),
      pr_run_group := pr_run_group sample_awaiting + 1, pr_loops := pr_loops sample_awaiting @ [Polling]\<rparr>)"
    by (rule run_step.spawn) (simp_all add: sample_states)
  have "pr_fate sample_awaiting = Alive" by (simp add: sample_states)
  from proc_run_step [OF by_runner [OF this step]]
  obtain t where t: "proc_run 1 3 all_resting sample_awaiting [(Runner, 0)] t" by blast
  show ?thesis using failed_listener_lingers [OF t] t by (auto simp: sample_states)
qed

lemma worker_loop_is_process_loop_witness:
  "\<exists>res ws'. worker_loop 2 sample_env sample_cfg (resend_send (\<lambda>e. Inr ''h'') sample_transport (new_resend ''k'' ''f''))
       (sample_ws (200 :: int, [])) = (res, ws') \<and>
     loop_run (we_cancelled sample_env) (st_count (ws_store (sample_ws (200 :: int, [] :: http_post list)))) Polling (st_count (ws_store ws'))
       (case res of Crashed p \<Rightarrow> Ticking 0 (Crashed p)
        | Ran u \<Rightarrow> if we_cancelled sample_env (st_count (ws_store ws')) then Ended else Polling)"
proof -
  obtain res ws' where run: "worker_loop 2 sample_env sample_cfg (resend_send (\<lambda>e. Inr ''h'') sample_transport (new_resend ''k'' ''f''))
      (sample_ws (200 :: int, [])) = (res, ws')" by (rule prod.exhaust)
  with worker_loop_is_process_loop [OF run] show ?thesis by blast
qed


definition cancelled_env :: worker_env where
  "cancelled_env = sample_env\<lparr>we_cancelled := (\<lambda>c. True),
     we_io := sample_io\<lparr>io_fault := (\<lambda>c. Some (BeginFault (Msg ''context canceled'')))\<rparr>\<rparr>"

definition claimed_ws :: "fake worker_state" where
  "claimed_ws = \<lparr>ws_store = \<lparr>st_db = sy_db run_claimed, st_count = 2\<rparr>, ws_sender = new_fake (\<lambda>n. [])\<rparr>"

text \<open>The mail is in the fake's outbox, and its row is still "sending".\<close>

lemma shutdown_strands_notification_witness:
  "\<exists>ws'. dispatch cancelled_env sample_cfg fake_send (claimed_of sample_sending) claimed_ws = (Ran (), ws') \<and>
     length (fk_sent (ws_sender ws')) = 1 \<and>
     (\<exists>r\<in>set (db_notifications (st_db (ws_store ws'))). n_id r = 1 \<and> n_status r = NSending)"
proof -
  obtain out ws' where run: "dispatch cancelled_env sample_cfg fake_send (claimed_of sample_sending) claimed_ws = (out, ws')"
    by fastforce
  have key: "we_key cancelled_env = Some [1]" by (simp add: cancelled_env_def sample_env_def)
  have attempts: "0 \<le> cl_attempts (claimed_of sample_sending)" "cl_attempts (claimed_of sample_sending) \<le> 28"
    by (simp_all add: sample_row_facts)
  obtain msg where msg: "build_message (we_uuid_text cancelled_env) (claimed_of sample_sending) = Inr msg"
    using build_confirm [OF sample_row_facts(2,3)] by blast
  obtain pid n where send: "fake_send msg (ws_sender claimed_ws) = (Inr (Inr pid), n)" "length (fk_sent n) = 1"
    by (simp add: fake_send_def claimed_ws_def new_fake_def)
  have fault: "we_cancelled cancelled_env c \<and>
      io_fault (we_io cancelled_env) c = Some (BeginFault (Msg ''context canceled''))" for c
    by (simp add: cancelled_env_def)
  have "sys_inv sample_pg 6 run_claimed" by (rule sys_inv_steps [OF run_to(1) sys_inv_start]) simp
  then have inv: "sys_inv sample_pg 6 \<lparr>sy_db = st_db (ws_store claimed_ws), sy_flight = [(0, claimed_of sample_sending)]\<rparr>"
    by (simp add: claimed_ws_def run_claimed_def)
  from shutdown_strands_notification [where m = 6, OF key attempts msg send(1) fault inv _ run rtranclp.rtrancl_refl]
  show ?thesis using run send(2) by (auto simp: sample_row_facts)
qed

end
