(* ===== verification/Running.thy ===== *)
theory Running
  imports Shutdown
begin

text \<open>
  The processes of theory \<open>Shutdown\<close> at work on the database of theory \<open>Workers\<close>: the goroutines of
  one process interleave step by step, each transaction of a worker loop or of a request acts
  on the tables, and when a process has ended, in whatever way, another one may be started on
  the tables it left. A notification is in flight with the number of the loop that claimed it. The
  parameter \<open>lossy\<close> says whether the answer to a commit may be lost (theory \<open>Faults\<close>).
\<close>

section \<open>The joint steps\<close>

text \<open>
  One transaction of loop \<open>w\<close>: a claim, a settlement, or one without effect (it failed, or only
  counted). If the answer to a commit is lost, the rows claimed are not known to anybody, and
  \<open>withRetry\<close> goes on with a notification that is already settled.
\<close>

inductive worker_txn :: "bool \<Rightarrow> pg_ops \<Rightarrow> int \<Rightarrow> nat \<Rightarrow> sys \<Rightarrow> sys \<Rightarrow> bool" for lossy pg max_attempts w where
  claims: "claim_due_notifications q skip claim_limit lease d = Inr (rows, d') \<Longrightarrow> q_pg q = pg \<Longrightarrow>
     worker_txn lossy pg max_attempts w \<lparr>sy_db = d, sy_flight = F\<rparr> \<lparr>sy_db = d', sy_flight = map (Pair w) rows @ F\<rparr>"
| settles: "(w, row) \<in> set F \<Longrightarrow> verdict_allowed max_attempts row v \<Longrightarrow>
     verdict_txn next_at row hash v q k d = Inr (u, d') \<Longrightarrow> q_pg q = pg \<Longrightarrow>
     worker_txn lossy pg max_attempts w \<lparr>sy_db = d, sy_flight = F\<rparr> \<lparr>sy_db = d', sy_flight = remove1 (w, row) F\<rparr>"
| claim_lost: "lossy \<Longrightarrow> claim_due_notifications q skip claim_limit lease d = Inr (rows, d') \<Longrightarrow> q_pg q = pg \<Longrightarrow>
     worker_txn lossy pg max_attempts w \<lparr>sy_db = d, sy_flight = F\<rparr> \<lparr>sy_db = d', sy_flight = F\<rparr>"
| settlement_lost: "lossy \<Longrightarrow> (w, row) \<in> set F \<Longrightarrow> verdict_allowed max_attempts row v \<Longrightarrow>
     verdict_txn next_at row hash v q k d = Inr (u, d') \<Longrightarrow> q_pg q = pg \<Longrightarrow>
     worker_txn lossy pg max_attempts w \<lparr>sy_db = d, sy_flight = F\<rparr> \<lparr>sy_db = d', sy_flight = F\<rparr>"
| idles: "worker_txn lossy pg max_attempts w s s"

text \<open>One transaction of a request, which has an effect only while a pool accepts it.\<close>

inductive request_txn :: "pg_ops \<Rightarrow> proc \<Rightarrow> sys \<Rightarrow> sys \<Rightarrow> bool" for pg p where
  runs: "pr_service p = Open \<or> pr_user p = Open \<Longrightarrow> other_step q d d' \<Longrightarrow> q_pg q = pg \<Longrightarrow>
     request_txn pg p \<lparr>sy_db = d, sy_flight = F\<rparr> \<lparr>sy_db = d', sy_flight = F\<rparr>"
| reads: "request_txn pg p s s"

text \<open>Between its transactions a loop that ends its tick forgets the rows it could not settle.\<close>

fun forget :: "actor \<Rightarrow> (nat \<times> claimed) list \<Rightarrow> (nat \<times> claimed) list" where
  "forget (Loop i) F = filter (\<lambda>f. fst f \<noteq> i) F"
| "forget x F = F"

inductive joint_step ::
  "bool \<Rightarrow> pg_ops \<Rightarrow> int \<Rightarrow> nat \<Rightarrow> nat \<Rightarrow> (proc \<Rightarrow> bool) \<Rightarrow> proc \<times> sys \<Rightarrow> proc \<times> sys \<Rightarrow> bool"
  for lossy pg max_attempts loops bound freed where
  moves: "proc_step loops bound freed p (x, 0) p' \<Longrightarrow>
     joint_step lossy pg max_attempts loops bound freed (p, s) (p', s\<lparr>sy_flight := forget x (sy_flight s)\<rparr>)"
| works: "proc_step loops bound freed p (Loop i, 1) p' \<Longrightarrow> worker_txn lossy pg max_attempts i s s' \<Longrightarrow>
     joint_step lossy pg max_attempts loops bound freed (p, s) (p', s')"
| serves: "proc_step loops bound freed p (Conn j, 1) p' \<Longrightarrow> request_txn pg p s s' \<Longrightarrow>
     joint_step lossy pg max_attempts loops bound freed (p, s) (p', s')"
| restarts: "pr_fate p \<noteq> Alive \<Longrightarrow>
     joint_step lossy pg max_attempts loops bound freed (p, s) (launched, s\<lparr>sy_flight := []\<rparr>)"

abbreviation joint_steps ::
  "bool \<Rightarrow> pg_ops \<Rightarrow> int \<Rightarrow> nat \<Rightarrow> nat \<Rightarrow> (proc \<Rightarrow> bool) \<Rightarrow> proc \<times> sys \<Rightarrow> proc \<times> sys \<Rightarrow> bool" where
  "joint_steps lossy pg max_attempts loops bound freed \<equiv> (joint_step lossy pg max_attempts loops bound freed)\<^sup>*\<^sup>*"

section \<open>Seen from the database\<close>

lemma drop_filtered:
  "list_all P G \<Longrightarrow> sys_steps pg m \<lparr>sy_db = d, sy_flight = G @ F\<rparr> \<lparr>sy_db = d, sy_flight = G @ filter P F\<rparr>"
proof (induction F arbitrary: G)
  case (Cons f F)
  show ?case
  proof (cases "P f")
    case True
    then show ?thesis using Cons.IH [of "G @ [f]"] Cons.prems by simp
  next
    case False
    then have "f \<notin> set G" using Cons.prems by (auto simp: list_all_iff)
    then have "remove1 f (G @ f # F) = G @ F" by (simp add: remove1_append)
    moreover obtain w row where "f = (w, row)" by fastforce
    ultimately have "sys_step pg m \<lparr>sy_db = d, sy_flight = G @ f # F\<rparr> \<lparr>sy_db = d, sy_flight = G @ F\<rparr>"
      using sys_step.drop [of w row "G @ f # F" pg m d] by simp
    then show ?thesis using Cons.IH [OF Cons.prems] False by (simp add: converse_rtranclp_into_rtranclp)
  qed
qed simp

lemma drop_where: "sys_steps pg m s (s\<lparr>sy_flight := filter P (sy_flight s)\<rparr>)"
  by (cases s) (use drop_filtered [of P "[]"] in simp)

lemma forget_steps: "sys_steps pg m s (s\<lparr>sy_flight := forget x (sy_flight s)\<rparr>)"
  by (cases x) (simp_all add: drop_where)

lemma worker_txn_steps: "worker_txn lossy pg m w s s' \<Longrightarrow> fault_steps lossy pg m s s'"
proof (erule worker_txn.cases)
  fix q skip lease d rows d' F
  assume eq: "s = \<lparr>sy_db = d, sy_flight = F\<rparr>" "s' = \<lparr>sy_db = d', sy_flight = F\<rparr>"
    and claim: "claim_due_notifications q skip claim_limit lease d = Inr (rows, d')" "q_pg q = pg"
  from converse_rtranclp_into_rtranclp [OF sys_step.claim [OF claim, where w = w and F = F] drop_all]
  show ?thesis unfolding eq by (rule sys_steps_fault)
qed (auto intro: fault_step.plain fault_step.loses sys_step.claim sys_step.settle)

lemma request_txn_steps: "request_txn pg p s s' \<Longrightarrow> fault_steps lossy pg m s s'"
  by (erule request_txn.cases) (auto intro: fault_step.plain sys_step.other)

lemma joint_step_steps:
  assumes "joint_step lossy pg m loops bound freed ps ps'"
  shows "fault_steps lossy pg m (snd ps) (snd ps')"
  using assms
proof (cases rule: joint_step.cases)
  case (restarts p s)
  then show ?thesis using sys_steps_fault [OF drop_where [of pg m s "\<lambda>f. False"]] by simp
qed (auto simp: sys_steps_fault [OF forget_steps] worker_txn_steps request_txn_steps)

lemma joint_steps_steps:
  "joint_steps lossy pg m loops bound freed ps ps' \<Longrightarrow> fault_steps lossy pg m (snd ps) (snd ps')"
  by (induction rule: rtranclp_induct) (auto dest: joint_step_steps)

section \<open>Seen from the process\<close>

lemma proc_run_snoc:
  "proc_run loops bound freed s as t \<Longrightarrow> proc_step loops bound freed t a u \<Longrightarrow> proc_run loops bound freed s (as @ [a]) u"
  by (rule run_append [OF _ proc_run_step])

lemma reachable_step:
  "proc_reachable loops bound freed p \<Longrightarrow> proc_step loops bound freed p a p' \<Longrightarrow> proc_reachable loops bound freed p'"
  unfolding proc_reachable_def using proc_run_snoc by blast

lemma joint_reachable:
  assumes "joint_steps lossy pg m loops bound freed (launched, s0) ps"
  shows "proc_reachable loops bound freed (fst ps)"
  using assms
proof (induction rule: rtranclp_induct)
  case base
  then show ?case by (simp add: launched_reachable)
next
  case (step ps ps')
  from step.hyps(2) show ?case
    by cases (use step.IH in \<open>auto intro: reachable_step launched_reachable\<close>)
qed

lemma step_counts: "proc_step loops bound freed p (x, k) p' \<Longrightarrow> k = 0 \<or> k = 1 \<and> (\<exists>i. x = Loop i \<or> x = Conn i)"
  by (erule proc_step.cases) (auto elim: conn_step.cases loop_step.cases)

text \<open>The database stops no goroutine: every step of the process is a joint step.\<close>

lemma process_steps_are_joint:
  assumes "proc_step loops bound freed p a p'"
  shows "\<exists>s'. joint_step lossy pg m loops bound freed (p, s) (p', s')"
proof -
  obtain x k where a: "a = (x, k)" by fastforce
  from step_counts [OF assms [unfolded a]] consider "k = 0" | i where "k = 1" "x = Loop i" | i where "k = 1" "x = Conn i"
    by blast
  then show ?thesis
  proof cases
    case 1
    show ?thesis using joint_step.moves [OF assms [unfolded a 1]] by blast
  next
    case 2
    show ?thesis using joint_step.works [OF assms [unfolded a 2] worker_txn.idles] by blast
  next
    case 3
    show ?thesis using joint_step.serves [OF assms [unfolded a 3] request_txn.reads] by blast
  qed
qed

section \<open>Who works on what\<close>

text \<open>A notification is in flight only while its loop is inside a tick.\<close>

fun mid_tick :: "loop_pc \<Rightarrow> bool" where
  "mid_tick (Ticking n r) \<longleftrightarrow> True"
| "mid_tick l \<longleftrightarrow> False"

definition in_tick :: "proc \<Rightarrow> nat \<Rightarrow> bool" where
  "in_tick p i \<longleftrightarrow> i < length (pr_loops p) \<and> mid_tick (pr_loops p ! i)"

definition flight_owned :: "proc \<Rightarrow> sys \<Rightarrow> bool" where
  "flight_owned p s \<longleftrightarrow> list_all (\<lambda>f. in_tick p (fst f)) (sy_flight s)"

lemma in_tick_cong: "pr_loops p' = pr_loops p \<Longrightarrow> in_tick p' i = in_tick p i"
  by (simp add: in_tick_def)

lemma main_keeps_loops: "main_step freed p p' \<Longrightarrow> pr_loops p' = pr_loops p"
  by (erule main_step.cases) simp_all

lemma server_keeps_loops: "server_step p p' \<Longrightarrow> pr_loops p' = pr_loops p"
  by (erule server_step.cases) simp_all

lemma run_keeps_ticks: "run_step loops p p' \<Longrightarrow> in_tick p i \<Longrightarrow> in_tick p' i"
  by (erule run_step.cases) (auto simp: in_tick_def nth_append)

lemma transaction_mid_tick: "loop_step c l 1 l' \<Longrightarrow> mid_tick l'"
  by (erule loop_step.cases) simp_all

text \<open>A loop leaves its tick by a step of its own that makes no transaction.\<close>

lemma in_tick_step:
  assumes "proc_step loops bound freed p (x, k) p'" and "in_tick p i" and "x \<noteq> Loop i \<or> k = 1"
  shows "in_tick p' i"
  using assms(1)
proof (cases rule: proc_step.cases)
  case by_main
  then show ?thesis using assms(2) in_tick_cong [OF main_keeps_loops] by blast
next
  case by_listener
  then show ?thesis using assms(2) in_tick_cong [OF server_keeps_loops] by blast
next
  case by_runner
  then show ?thesis using assms(2) run_keeps_ticks by blast
next
  case (by_loop j l)
  then show ?thesis using assms(2,3) transaction_mid_tick by (auto simp: in_tick_def nth_list_update)
qed (use assms(2) in \<open>simp_all add: in_tick_def\<close>)

lemma transaction_in_tick:
  assumes "proc_step loops bound freed p (Loop i, 1) p'"
  shows "in_tick p' i"
proof -
  have "in_tick p i" using txn_steps [OF assms] by (auto simp: in_tick_def)
  then show ?thesis using in_tick_step [OF assms] by simp
qed

lemma flight_owned_forget:
  assumes "proc_step loops bound freed p (x, k) p'" and "flight_owned p s"
  shows "flight_owned p' (s\<lparr>sy_flight := forget x (sy_flight s)\<rparr>)"
  using assms(2) in_tick_step [OF assms(1)] by (cases x) (auto simp: flight_owned_def list_all_iff)

lemma flight_owned_worker:
  assumes "worker_txn lossy pg m i s s'" and "in_tick p i" and "flight_owned p s"
  shows "flight_owned p s'"
  using assms(1)
  by cases (use assms(2,3) in \<open>auto simp: flight_owned_def list_all_iff dest: set_remove1_subset [THEN subsetD]\<close>)

lemma request_keeps_flight: "request_txn pg p s s' \<Longrightarrow> sy_flight s' = sy_flight s"
  by (erule request_txn.cases) simp_all

lemma flight_owned_step:
  assumes "joint_step lossy pg m loops bound freed ps ps'" and "flight_owned (fst ps) (snd ps)"
  shows "flight_owned (fst ps') (snd ps')"
  using assms(1)
proof (cases rule: joint_step.cases)
  case (moves p x p' s)
  then show ?thesis using assms(2) flight_owned_forget [OF moves(3)] by simp
next
  case (works p i p' s s')
  have "flight_owned p' s"
    using assms(2) in_tick_step [OF works(3)] works(1) by (auto simp: flight_owned_def list_all_iff)
  then show ?thesis using works(2) flight_owned_worker [OF works(4) transaction_in_tick [OF works(3)]] by simp
next
  case (serves p j p' s s')
  then show ?thesis
    using assms(2) in_tick_step [OF serves(3)] request_keeps_flight [OF serves(4)]
    by (auto simp: flight_owned_def list_all_iff)
qed (simp add: flight_owned_def)

lemma flight_owned_steps:
  "joint_steps lossy pg m loops bound freed (launched, sys_start users) ps \<Longrightarrow> flight_owned (fst ps) (snd ps)"
  by (induction rule: rtranclp_induct) (auto simp: flight_owned_def sys_start_def dest: flight_owned_step)

section \<open>What holds at every moment\<close>

lemma joint_fault_inv:
  "joint_steps lossy pg m loops bound freed (launched, sys_start users) (p, s) \<Longrightarrow> fault_inv pg s"
  using joint_steps_steps fault_inv_steps [OF _ fault_inv_start] by fastforce

lemma joint_inv:
  "joint_steps False pg m loops bound freed (launched, sys_start users) (p, s) \<Longrightarrow> 0 < m \<Longrightarrow> sys_inv pg m s"
  using joint_steps_steps lossless_steps sys_inv_steps [OF _ sys_inv_start] by fastforce

text \<open>
  C3: Over the whole life of the installation, with its processes started, stopped and crashed,
  their goroutines interleaved and their transactions acting on the database: the tables satisfy
  their constraints; what is in flight belongs to a worker loop that exists and is inside a tick; and
  the log of a notification ends with the entry its status asks for. That holds also if the
  answers to commits get lost. As long as none is lost, no notification is in flight twice, and one in
  flight is marked "sending"; every notification has exactly the log entries of its status; and none
  has used more than the maximum of attempts. (A lost answer makes the worker settle again, which
  writes a second log entry.)
\<close>

theorem running_system_is_consistent:
  assumes "joint_steps lossy pg m loops bound freed (launched, sys_start users) (p, s)" and "0 < m"
  shows "db_ok pg (sy_db s) \<and>
    (\<forall>(i, row)\<in>set (sy_flight s). i < length (pr_loops p) \<and> mid_tick (pr_loops p ! i)) \<and>
    (\<forall>r\<in>set (db_notifications (sy_db s)).
       suffix (expected_log (n_status r)) (log_of (db_email_log (sy_db s)) (n_id r))) \<and>
    (\<not> lossy \<longrightarrow> distinct (flight_ids s) \<and>
      (\<forall>r\<in>set (db_notifications (sy_db s)). (n_id r \<in> set (flight_ids s) \<longrightarrow> n_status r = NSending) \<and>
         n_attempts r \<le> m \<and> log_of (db_email_log (sy_db s)) (n_id r) = expected_log (n_status r)))"
proof (intro conjI impI)
  note inv = joint_fault_inv [OF assms(1)]
  then show "db_ok pg (sy_db s)"
    "\<forall>r\<in>set (db_notifications (sy_db s)). suffix (expected_log (n_status r)) (log_of (db_email_log (sy_db s)) (n_id r))"
    by (simp_all add: fault_inv_def)
  have "flight_owned p s" using flight_owned_steps [OF assms(1)] by simp
  then show "\<forall>(i, row)\<in>set (sy_flight s). i < length (pr_loops p) \<and> mid_tick (pr_loops p ! i)"
    by (auto simp: flight_owned_def in_tick_def list_all_iff)
  assume "\<not> lossy"
  then have exact: "sys_inv pg m s" using joint_inv assms by simp
  then show "distinct (flight_ids s)" by (simp add: sys_inv_def)
  show "\<forall>r\<in>set (db_notifications (sy_db s)). (n_id r \<in> set (flight_ids s) \<longrightarrow> n_status r = NSending) \<and>
      n_attempts r \<le> m \<and> log_of (db_email_log (sy_db s)) (n_id r) = expected_log (n_status r)"
    using exact in_flight_sending [OF exact] by (simp add: sys_inv_def row_inv_def)
qed

section \<open>From one process to the next\<close>

lemma ended_flight_empty:
  assumes "flight_owned p s" and "\<forall>l\<in>set (pr_loops p). l = Ended"
  shows "sy_flight s = []"
proof (rule ccontr)
  assume "sy_flight s \<noteq> []"
  then obtain f where "in_tick p (fst f)"
    using assms(1) by (cases "sy_flight s") (auto simp: flight_owned_def)
  then have "fst f < length (pr_loops p)" "pr_loops p ! fst f \<noteq> Ended" by (auto simp: in_tick_def)
  then show False using assms(2) by simp
qed

lemma launched_or_exited:
  assumes "proc_reachable loops bound freed p" and "p = launched \<or> pr_fate p = Exited"
  shows "\<forall>l\<in>set (pr_loops p). l = Ended"
  using assms(2) returning_alone(1) [OF proc_inv_reachable [OF assms(1)]] by (auto simp: launched_def)

text \<open>
  C32: what a process leaves behind is final: when it has exited gracefully, or when the next
  one is launched after a crash, nothing is in flight, and every notification that is not pending
  then, a stranded one in "sending" included, keeps its row and its log whatever later processes
  do. The log is the one its status asks for, unless an answer to a commit got lost.
\<close>

theorem only_pending_outlives_a_process:
  assumes "joint_steps lossy pg m loops bound freed (launched, sys_start users) (p, s)"
    and "joint_steps lossy pg m loops bound freed (p, s) (p', s')" and "0 < m"
    and "p = launched \<or> pr_fate p = Exited"
    and "r \<in> set (db_notifications (sy_db s))" and "n_status r \<noteq> NPending"
  shows "sy_flight s = [] \<and> r \<in> set (db_notifications (sy_db s')) \<and> n_id r \<notin> set (flight_ids s') \<and>
    log_of (db_email_log (sy_db s')) (n_id r) = log_of (db_email_log (sy_db s)) (n_id r) \<and>
    (\<not> lossy \<longrightarrow> log_of (db_email_log (sy_db s')) (n_id r) = expected_log (n_status r))"
proof -
  have "proc_reachable loops bound freed p" using joint_reachable [OF assms(1)] by simp
  then have idle: "sy_flight s = []"
    using ended_flight_empty flight_owned_steps [OF assms(1)] launched_or_exited assms(4) by simp
  then have "out_of_reach s r" using assms(5,6) by (simp add: out_of_reach_def flight_ids_def)
  note reach = fault_reach_steps [OF joint_steps_steps [OF assms(2), unfolded snd_conv] joint_fault_inv [OF assms(1)] this]
  have "log_of (db_email_log (sy_db s)) (n_id r) = expected_log (n_status r)" if "\<not> lossy"
    using joint_inv [of pg m loops bound freed users p s] assms(1,3,5) that by (simp add: sys_inv_def row_inv_def)
  then show ?thesis using idle reach by (simp add: out_of_reach_def)
qed

text \<open>A process whose first worker loop is inside a tick.\<close>

definition first_tick :: proc where
  "first_tick = launched\<lparr>pr_main := LaunchServer, pr_group := 1, pr_run := Spawning 1, pr_run_group := 1,
     pr_loops := [Ticking 2 (Ran 1)]\<rparr>"

text \<open>The first worker loop of a process at its top.\<close>

definition first_loop :: proc where
  "first_loop = launched\<lparr>pr_main := LaunchServer, pr_group := 1, pr_run := Spawning 1, pr_run_group := 1,
     pr_loops := [Polling]\<rparr>"

lemma first_loop_run:
  "0 < loops \<Longrightarrow> \<exists>t. proc_run loops bound freed launched [(Main, 0), (Runner, 0)] t \<and> t = first_loop"
  apply (rule run_main [OF _ main_step.launch_worker], simp add: launched_def, simp add: launched_def)
  apply (rule run_runner [OF _ run_step.spawn], simp add: launched_def, simp, simp)
  apply (rule run_ex_here, simp add: first_loop_def launched_def)
  done

text \<open>Steps of the process without a transaction, while nothing is in flight, leave the database alone.\<close>

lemma quiet_run_is_joint:
  assumes "proc_run loops bound freed p as t" and "\<forall>a\<in>set as. snd a = 0" and "sy_flight s = []"
  shows "joint_steps lossy pg m loops bound freed (p, s) (t, s)"
  using assms(1,2)
proof (induction rule: proc_run.induct)
  case (there p a t as u)
  obtain x where a: "a = (x, 0)" using there.prems by (cases a) simp
  have "s\<lparr>sy_flight := forget x (sy_flight s)\<rparr> = s" using assms(3) by (cases x; cases s) simp_all
  then have "joint_step lossy pg m loops bound freed (p, s) (t, s)"
    using joint_step.moves [OF there.hyps(1) [unfolded a], of lossy pg m s] by simp
  then show ?case using there.IH there.prems by (simp add: converse_rtranclp_into_rtranclp)
qed simp

section \<open>A sample life\<close>

text \<open>A process with a request under way while its worker ticks; and one killed right after a claim.\<close>

definition sample_serving :: proc where
  "sample_serving = first_tick\<lparr>pr_main := NotifySignals, pr_group := 2, pr_server := Accepting, pr_conns := [Serving 1]\<rparr>"

definition sample_served :: proc where
  "sample_served = sample_serving\<lparr>pr_conns := [Serving 0]\<rparr>"

definition sample_claimed :: proc where
  "sample_claimed = sample_served\<lparr>pr_loops := [Ticking 1 (Ran 1)]\<rparr>"

lemmas sample_life = sample_claimed_def sample_served_def sample_serving_def first_tick_def launched_def

lemma serving_run:
  "\<exists>t. proc_run 1 3 all_resting launched
     [(Main, 0), (Runner, 0), (Loop 0, 0), (Main, 0), (Listener, 0), (Listener, 0), (Conn 0, 0)] t \<and> t = sample_serving"
  apply (rule run_main [OF _ main_step.launch_worker], simp add: launched_def, simp add: launched_def)
  apply (rule run_runner [OF _ run_step.spawn], simp add: launched_def, simp, simp)
  apply (rule run_loop [where l = "Ticking 2 (Ran 1)"], simp add: launched_def, simp add: launched_def, simp add: launched_def)
  apply (rule run_main [OF _ main_step.launch_server], simp add: launched_def, simp)
  apply (rule run_ex_there [OF by_listener [OF _ server_step.listen]], simp add: launched_def, simp, simp add: launched_def)
  apply (rule run_ex_there [OF by_listener [OF _ server_step.accept]], simp add: launched_def, simp)
  apply (rule run_ex_there [OF by_conn [where i = 0 and c = "Serving 1"]], simp add: launched_def, simp add: launched_def, simp add: launched_def)
  apply (rule run_ex_here, simp add: sample_life)
  done

lemma sample_life_steps:
  "joint_steps False sample_pg 6 1 3 all_resting (launched, sys_start [7]) (sample_serving, sys_start [7])"
  "joint_step False sample_pg 6 1 3 all_resting (sample_serving, sys_start [7]) (sample_served, run_queued)"
  "joint_step False sample_pg 6 1 3 all_resting (sample_served, run_queued) (sample_claimed, run_claimed)"
  "joint_step False sample_pg 6 1 3 all_resting (sample_claimed, run_claimed) (sample_claimed\<lparr>pr_fate := Killed\<rparr>, run_claimed)"
  "joint_step False sample_pg 6 1 3 all_resting (sample_claimed\<lparr>pr_fate := Killed\<rparr>, run_claimed) (launched, run_dropped)"
proof -
  show "joint_steps False sample_pg 6 1 3 all_resting (launched, sys_start [7]) (sample_serving, sys_start [7])"
    using serving_run quiet_run_is_joint [where s = "sys_start [7]"] by (fastforce simp: sys_start_def)
  have "request_txn sample_pg sample_serving (sys_start [7]) run_queued"
    using request_txn.runs [OF _ run_transactions(1,4), of sample_serving "[]"]
    by (simp add: sys_start_def run_queued_def) (simp add: sample_life)
  moreover have "proc_step 1 3 all_resting sample_serving (Conn 0, 1) sample_served"
    using by_conn [where s = sample_serving and i = 0 and k = 1 and c = "Serving 0" and loops = 1 and bound = 3 and freed = all_resting]
    by (simp add: sample_life)
  ultimately show "joint_step False sample_pg 6 1 3 all_resting (sample_serving, sys_start [7]) (sample_served, run_queued)"
    by (rule joint_step.serves [rotated])
  have "worker_txn False sample_pg 6 0 run_queued run_claimed"
    using worker_txn.claims [OF run_transactions(2,4), of False 6 0 "[]"] by (simp add: run_queued_def run_claimed_def)
  moreover have "proc_step 1 3 all_resting sample_served (Loop 0, 1) sample_claimed"
    using by_loop [where s = sample_served and i = 0 and k = 1 and l = "Ticking 1 (Ran 1)" and loops = 1 and bound = 3 and freed = all_resting]
    by (simp add: sample_life numeral_2_eq_2)
  ultimately show "joint_step False sample_pg 6 1 3 all_resting (sample_served, run_queued) (sample_claimed, run_claimed)"
    by (rule joint_step.works [rotated])
  have "proc_step 1 3 all_resting sample_claimed (Outside, 0) (sample_claimed\<lparr>pr_fate := Killed\<rparr>)"
    by (rule kill) (simp_all add: sample_life)
  from joint_step.moves [OF this, of False sample_pg 6 run_claimed]
  show "joint_step False sample_pg 6 1 3 all_resting (sample_claimed, run_claimed) (sample_claimed\<lparr>pr_fate := Killed\<rparr>, run_claimed)"
    by (simp add: run_claimed_def)
  show "joint_step False sample_pg 6 1 3 all_resting (sample_claimed\<lparr>pr_fate := Killed\<rparr>, run_claimed) (launched, run_dropped)"
    using joint_step.restarts [of "sample_claimed\<lparr>pr_fate := Killed\<rparr>" False sample_pg 6 1 3 all_resting run_claimed]
    by (simp add: run_claimed_def run_dropped_def)
qed

lemma sample_life_to:
  "joint_steps False sample_pg 6 1 3 all_resting (launched, sys_start [7]) (sample_claimed, run_claimed)"
  "joint_steps False sample_pg 6 1 3 all_resting (launched, sys_start [7]) (launched, run_dropped)"
  using sample_life_steps by (meson rtranclp.rtrancl_into_rtrancl)+

text \<open>The notification that loop 0 has claimed is in flight, and the loop is inside its tick.\<close>

lemma running_system_is_consistent_witness:
  "\<exists>(i, row)\<in>set (sy_flight run_claimed). cl_id row = 1 \<and> mid_tick (pr_loops sample_claimed ! i)"
  using running_system_is_consistent [OF sample_life_to(1)] by (simp add: run_claimed_def sample_row_facts)

text \<open>After the kill it is stranded.\<close>

lemma only_pending_outlives_a_process_witness:
  "sample_sending \<in> set (db_notifications (sy_db run_dropped)) \<and> log_of (db_email_log (sy_db run_dropped)) 1 = []"
proof -
  have "sample_sending \<in> set (db_notifications (sy_db run_dropped))" "n_status sample_sending = NSending" "n_id sample_sending = 1"
    by (simp_all add: run_dropped_def sample_sending_def row_simps sample_queued_def fresh_notification_def)
  then show ?thesis
    using only_pending_outlives_a_process [OF sample_life_to(2) rtranclp.rtrancl_refl, of sample_sending] by simp
qed

end
