(* ===== verification/Refinement.thy ===== *)
theory Refinement
  imports Running "HOL-Library.Multiset"
begin

text \<open>
  The detailed programs of the other theories implement the joint system of theory \<open>Running\<close>: a tick of
  \<open>Worker\<close> is a run of one worker loop, a request to the server of \<open>Server\<close> is a run of one
  connection, transaction by transaction, with the same effect on the tables.
\<close>

section \<open>The worker's tick is a run of its loop\<close>

lemma idle_txns: "(worker_txn lossy pg m w ^^ n) s s"
  by (induction n) (auto intro: worker_txn.idles)

lemma then_txns:
  assumes "worker_txn lossy pg m w s s1" and "(worker_txn lossy pg m w ^^ n) s1 s2" and "k = Suc n"
  shows "(worker_txn lossy pg m w ^^ k) s s2"
  unfolding assms(3) by (rule relpowp_Suc_I2 [OF assms(1,2)])

text \<open>
  What one transaction of the worker is in the joint system, also when it fails and when the
  answer to its commit is lost.
\<close>

lemma settlement_is_txn:
  assumes "lossy \<or> no_lost_commit io" and "with_tx io (verdict_txn next_at row hash v) st = (res, st')"
    and "(w, row) \<in> set F" and "verdict_allowed m row v"
  shows "worker_txn lossy (io_pg io) m w \<lparr>sy_db = st_db st, sy_flight = F\<rparr>
    \<lparr>sy_db = st_db st', sy_flight = (if isl res then F else remove1 (w, row) F)\<rparr>"
  using assms(2) [unfolded with_tx_def]
proof (cases rule: run_txn_cases)
  case (failed e)
  then show ?thesis by (simp add: worker_txn.idles)
next
  case (committed i x)
  show ?thesis using worker_txn.settles [OF assms(3,4) committed(4)] committed(2) by simp
next
  case (lost i x e)
  then have lossy using assms(1) by (auto simp: no_lost_commit_def)
  then show ?thesis using worker_txn.settlement_lost [OF _ assms(3,4) lost(4)] lost(2) by simp
qed

lemma claim_is_txn:
  assumes "lossy \<or> no_lost_commit io" and "with_tx io (claim_txn env cfg n) st = (res, st')"
  shows "worker_txn lossy (io_pg io) m w \<lparr>sy_db = st_db st, sy_flight = F\<rparr>
    \<lparr>sy_db = st_db st', sy_flight = (case res of Inl e \<Rightarrow> F | Inr rows \<Rightarrow> map (Pair w) rows @ F)\<rparr>"
  using assms(2) [unfolded with_tx_def]
proof (cases rule: run_txn_cases)
  case (failed e)
  then show ?thesis by (simp add: worker_txn.idles)
next
  case (committed i rows)
  show ?thesis using worker_txn.claims [OF committed(4) [unfolded claim_txn_def]] committed(2) by simp
next
  case (lost i rows e)
  then have lossy using assms(1) by (auto simp: no_lost_commit_def)
  then show ?thesis using worker_txn.claim_lost [OF _ lost(4) [unfolded claim_txn_def]] lost(2) by simp
qed

text \<open>A settlement with its retries: the notification stays in flight until a try is answered.\<close>

lemma retries_are_txns:
  assumes "lossy \<or> no_lost_commit io" and "(w, row) \<in> set F" and "verdict_allowed m row v"
    and "with_retry can n (with_tx io (verdict_txn next_at row hash v)) err st = (res, st')"
  shows "\<exists>F'. (worker_txn lossy (io_pg io) m w ^^ (st_count st' - st_count st))
      \<lparr>sy_db = st_db st, sy_flight = F\<rparr> \<lparr>sy_db = st_db st', sy_flight = F'\<rparr> \<and>
    (F' = F \<or> F' = remove1 (w, row) F)"
  using assms(4)
proof (induction n arbitrary: err st)
  case 0
  then show ?case using idle_txns by fastforce
next
  case (Suc n)
  obtain r st1 where t: "with_tx io (verdict_txn next_at row hash v) st = (r, st1)" by fastforce
  note one = settlement_is_txn [OF assms(1) t assms(2,3)] and count = with_tx_count [OF t]
  consider "st' = st1" | e where "r = Inl e"
      "with_retry can n (with_tx io (verdict_txn next_at row hash v)) (Some e) st1 = (res, st')"
    using Suc.prems t by (auto split: sum.splits if_splits)
  then show ?case
  proof cases
    case 1
    then show ?thesis using then_txns [OF one idle_txns [where n = 0]] count by (auto split: if_splits)
  next
    case (2 e)
    from Suc.IH [OF 2(2)] obtain F' where F':
      "(worker_txn lossy (io_pg io) m w ^^ (st_count st' - st_count st1))
         \<lparr>sy_db = st_db st1, sy_flight = F\<rparr> \<lparr>sy_db = st_db st', sy_flight = F'\<rparr>" "F' = F \<or> F' = remove1 (w, row) F" by blast
    have "st_count st1 \<le> st_count st'" using with_retry_count [OF _ 2(2)] with_tx_count by blast
    then have "st_count st' - st_count st = Suc (st_count st' - st_count st1)" using count by simp
    with then_txns [OF one [unfolded 2(1)]] F' show ?thesis by (simp del: relpowp.simps) blast
  qed
qed

lemma dispatch_txns:
  assumes "lossy \<or> no_lost_commit (we_io env)" and "dispatch env cfg send row ws = (r, ws')" and "(w, row) \<in> set F"
  shows "\<exists>F'. (worker_txn lossy (io_pg (we_io env)) (wc_max_attempts cfg) w ^^ (st_count (ws_store ws') - st_count (ws_store ws)))
      \<lparr>sy_db = st_db (ws_store ws), sy_flight = F\<rparr> \<lparr>sy_db = st_db (ws_store ws'), sy_flight = F'\<rparr> \<and>
    (F' = F \<or> F' = remove1 (w, row) F)"
  using dispatch_settles_by [of env cfg row ws send] unfolding assms(2) snd_conv settles_by_def
proof (elim disjE exE conjE)
  show ?thesis if "ws_store ws' = ws_store ws" using that idle_txns by fastforce
next
  fix next_at hash v
  assume v: "verdict_allowed (wc_max_attempts cfg) row v"
    and st: "ws_store ws' = snd (settle env (verdict_txn next_at row hash v) (ws_store ws))"
  obtain res where "settle env (verdict_txn next_at row hash v) (ws_store ws) = (res, ws_store ws')"
    unfolding st by (metis prod.collapse)
  then show ?thesis using retries_are_txns [OF assms(1,3) v] by (simp add: settle_def)
qed

lemma forget_remove: "forget (Loop w) (remove1 (w, row) F) = forget (Loop w) F"
  by (simp add: filter_remove1 remove1_idem)

lemma dispatch_all_txns:
  assumes "lossy \<or> no_lost_commit (we_io env)" and "dispatch_all env cfg send rows ws = (r, ws')"
    and "mset (map (Pair w) rows) \<subseteq># mset F"
  shows "\<exists>F'. (worker_txn lossy (io_pg (we_io env)) (wc_max_attempts cfg) w ^^ (st_count (ws_store ws') - st_count (ws_store ws)))
      \<lparr>sy_db = st_db (ws_store ws), sy_flight = F\<rparr> \<lparr>sy_db = st_db (ws_store ws'), sy_flight = F'\<rparr> \<and>
    forget (Loop w) F' = forget (Loop w) F"
  using assms(2,3)
proof (induction rows arbitrary: ws F)
  case Nil
  then show ?case using idle_txns by fastforce
next
  case (Cons row rows)
  show ?case
  proof (cases "we_limiter env (st_count (ws_store ws))")
    case (Some e)
    then show ?thesis using Cons.prems(1) idle_txns by fastforce
  next
    case None
    obtain r1 ws1 where d: "dispatch env cfg send row ws = (r1, ws1)" by fastforce
    have "(w, row) \<in> set F" using Cons.prems(2) by (metis insert_subset_eq_iff list.simps(9) mset.simps(2) set_mset_mset)
    from dispatch_txns [OF assms(1) d this] obtain F1 where F1:
      "(worker_txn lossy (io_pg (we_io env)) (wc_max_attempts cfg) w ^^ (st_count (ws_store ws1) - st_count (ws_store ws)))
         \<lparr>sy_db = st_db (ws_store ws), sy_flight = F\<rparr> \<lparr>sy_db = st_db (ws_store ws1), sy_flight = F1\<rparr>"
      "F1 = F \<or> F1 = remove1 (w, row) F" by blast
    have left: "mset (map (Pair w) rows) \<subseteq># mset F1"
      using F1(2) Cons.prems(2) by (auto simp: insert_subset_eq_iff dest: subset_mset.order_trans [OF _ diff_subset_eq_self])
    have same: "forget (Loop w) F1 = forget (Loop w) F" using F1(2) forget_remove by auto
    show ?thesis
    proof (cases r1)
      case (Ran u)
      then have rest: "dispatch_all env cfg send rows ws1 = (r, ws')" using Cons.prems(1) None d by simp
      from Cons.IH [OF rest left] obtain F' where
        "(worker_txn lossy (io_pg (we_io env)) (wc_max_attempts cfg) w ^^ (st_count (ws_store ws') - st_count (ws_store ws1)))
           \<lparr>sy_db = st_db (ws_store ws1), sy_flight = F1\<rparr> \<lparr>sy_db = st_db (ws_store ws'), sy_flight = F'\<rparr>"
        "forget (Loop w) F' = forget (Loop w) F1" by blast
      with txns_append [OF F1(1) this(1)] dispatch_count [OF d] dispatch_all_count [OF rest] same
      show ?thesis by auto
    next
      case (Crashed p)
      then have "ws' = ws1" using Cons.prems(1) None d by simp
      then show ?thesis using F1(1) same by blast
    qed
  qed
qed

lemma tick_txns:
  assumes "lossy \<or> no_lost_commit (we_io env)" and "tick env cfg send ws = (res, ws')"
  shows "\<exists>F'. (worker_txn lossy (io_pg (we_io env)) (wc_max_attempts cfg) w ^^ (st_count (ws_store ws') - st_count (ws_store ws)))
      \<lparr>sy_db = st_db (ws_store ws), sy_flight = F\<rparr> \<lparr>sy_db = st_db (ws_store ws'), sy_flight = F'\<rparr> \<and>
    forget (Loop w) F' = forget (Loop w) F"
proof -
  let ?W = "worker_txn lossy (io_pg (we_io env)) (wc_max_attempts cfg) w"
  let ?s = "\<lparr>sy_db = st_db (ws_store ws), sy_flight = F\<rparr>"
  obtain c st where cap: "over_cap env cfg (ws_store ws) = (c, st)" by fastforce
  have db: "st_db st = st_db (ws_store ws)" by (rule over_cap_keeps_db [OF cap])
  have up: "st_count (ws_store ws) \<le> st_count st" using over_cap_count [OF cap] by simp
  obtain cl st1 where claim: "with_tx (we_io env) (claim_txn env cfg (st_count st)) st = (cl, st1)" by fastforce
  define F1 where "F1 = (case cl of Inl e \<Rightarrow> F | Inr rows \<Rightarrow> map (Pair w) rows @ F)"
  have "?W ?s \<lparr>sy_db = st_db st1, sy_flight = F1\<rparr>"
    using claim_is_txn [OF assms(1) claim, of "wc_max_attempts cfg" w F] db by (simp add: F1_def)
  then have counted: "(?W ^^ (st_count st1 - st_count (ws_store ws))) ?s \<lparr>sy_db = st_db st1, sy_flight = F1\<rparr>"
    using relpowp_Suc_I [OF idle_txns [where n = "st_count st - st_count (ws_store ws)"]] with_tx_count [OF claim] up
    by (metis Suc_diff_le Suc_eq_plus1)
  consider "c \<noteq> Inr False" | e where "c = Inr False" "cl = Inl e" | rows where "c = Inr False" "cl = Inr rows"
    by (cases cl) auto
  then show ?thesis
  proof cases
    case 1
    then have "ws_store ws' = st" using cap assms(2) by (auto simp: tick_def split: sum.splits bool.splits)
    then show ?thesis using db idle_txns by fastforce
  next
    case (2 e)
    then have "ws_store ws' = st1" using cap claim assms(2) by (auto simp: tick_def)
    then show ?thesis using counted 2(2) by (auto simp: F1_def)
  next
    case (3 rows)
    obtain r2 ws2 where all: "dispatch_all env cfg send rows (ws\<lparr>ws_store := st1\<rparr>) = (r2, ws2)" by fastforce
    have "ws_store ws' = ws_store ws2"
      using cap claim 3 all assms(2) by (cases rows) (auto simp: tick_def split: run.splits option.splits)
    moreover obtain F' where "(?W ^^ (st_count (ws_store ws2) - st_count st1))
        \<lparr>sy_db = st_db st1, sy_flight = F1\<rparr> \<lparr>sy_db = st_db (ws_store ws2), sy_flight = F'\<rparr>"
      "forget (Loop w) F' = forget (Loop w) F1"
      using dispatch_all_txns [OF assms(1) all, of w F1] 3(2) by (auto simp: F1_def)
    moreover have "forget (Loop w) F1 = forget (Loop w) F" using 3(2) by (simp add: F1_def)
    ultimately show ?thesis
      using txns_append [OF counted] with_tx_count [OF claim] up dispatch_all_count [OF all] by fastforce
  qed
qed

text \<open>Seen from the database alone, with nothing in flight before and after.\<close>

lemma txns_are_fault_steps: "(worker_txn lossy pg m w ^^ n) s s' \<Longrightarrow> fault_steps lossy pg m s s'"
proof (induction n arbitrary: s')
  case (Suc n)
  from Suc.prems obtain s1 where "(worker_txn lossy pg m w ^^ n) s s1" "worker_txn lossy pg m w s1 s'"
    by (rule relpowp_Suc_E)
  then show ?case using Suc.IH worker_txn_steps by (meson rtranclp_trans)
qed simp

lemma tick_is_fault_steps:
  assumes "lossy \<or> no_lost_commit (we_io env)"
  shows "fault_steps lossy (io_pg (we_io env)) (wc_max_attempts cfg) \<lparr>sy_db = st_db (ws_store ws), sy_flight = []\<rparr>
    \<lparr>sy_db = st_db (ws_store (snd (tick env cfg send ws))), sy_flight = []\<rparr>"
proof -
  obtain res ws' where t: "tick env cfg send ws = (res, ws')" by fastforce
  obtain n F' where "(worker_txn lossy (io_pg (we_io env)) (wc_max_attempts cfg) 0 ^^ n)
      \<lparr>sy_db = st_db (ws_store ws), sy_flight = []\<rparr> \<lparr>sy_db = st_db (ws_store ws'), sy_flight = F'\<rparr>"
    "forget (Loop 0) F' = []"
    using tick_txns [OF assms t, of 0 "[]"] by auto
  then show ?thesis
    using txns_are_fault_steps sys_steps_fault [OF forget_steps [of _ _ "\<lparr>sy_db = st_db (ws_store ws'), sy_flight = F'\<rparr>" "Loop 0"]] t
    by (fastforce intro: rtranclp_trans)
qed

text \<open>A loop inside a tick makes its transactions, whatever they are.\<close>

definition set_loop :: "nat \<Rightarrow> loop_pc \<Rightarrow> proc \<Rightarrow> proc" where
  "set_loop i l p = p\<lparr>pr_loops := (pr_loops p)[i := l]\<rparr>"

definition loop_at :: "proc \<Rightarrow> nat \<Rightarrow> loop_pc \<Rightarrow> bool" where
  "loop_at p i l \<longleftrightarrow> i < length (pr_loops p) \<and> pr_loops p ! i = l"

lemma set_loop_simps [simp]:
  "pr_fate (set_loop i l p) = pr_fate p" "pr_cancelled (set_loop i l p) = pr_cancelled p"
  "set_loop i l (set_loop i l' p) = set_loop i l p" "loop_at p i l'' \<Longrightarrow> loop_at (set_loop i l p) i l"
  by (simp_all add: set_loop_def loop_at_def)

lemma set_loop_same: "loop_at p i l \<Longrightarrow> set_loop i l p = p"
  by (cases p) (auto simp: set_loop_def loop_at_def)

lemma loop_moves:
  assumes "pr_fate p = Alive" and "loop_at p i l" and "loop_step (pr_cancelled p) l k l'" and "l' \<noteq> Ended"
  shows "proc_step loops bound freed p (Loop i, k) (set_loop i l' p)"
  using by_loop [OF assms(1), of i k l'] assms(2-4) by (simp add: loop_at_def set_loop_def)

lemma loop_makes_txns:
  assumes "(worker_txn lossy pg m i ^^ n) s s'" and "pr_fate p = Alive" and "loop_at p i (Ticking n r)"
  shows "joint_steps lossy pg m loops bound freed (p, s) (set_loop i (Ticking 0 r) p, s')"
  using assms
proof (induction n arbitrary: p s)
  case 0
  then show ?case by (simp add: set_loop_same)
next
  case (Suc n)
  obtain s1 where s1: "worker_txn lossy pg m i s s1" "(worker_txn lossy pg m i ^^ n) s1 s'"
    using Suc.prems(1) by (rule relpowp_Suc_E2)
  let ?p = "set_loop i (Ticking n r) p"
  have "proc_step loops bound freed p (Loop i, 1) ?p"
    by (rule loop_moves [OF Suc.prems(2,3)]) simp_all
  from joint_step.works [OF this s1(1)]
  have "joint_step lossy pg m loops bound freed (p, s) (?p, s1)" .
  moreover have "joint_steps lossy pg m loops bound freed (?p, s1) (set_loop i (Ticking 0 r) p, s')"
    using Suc.IH [OF s1(2), of ?p] Suc.prems(2,3) by simp
  ultimately show ?case by (rule converse_rtranclp_into_rtranclp)
qed

text \<open>Where a tick leaves its loop, and, if it panicked, the process.\<close>

fun after_tick :: "(int \<times> gerror option) run \<Rightarrow> nat \<Rightarrow> proc \<Rightarrow> proc" where
  "after_tick (Ran (k, e)) i p = set_loop i (if k = 0 then Idling else Polling) p"
| "after_tick (Crashed c) i p = (set_loop i (Ticking 0 (Crashed c)) p)\<lparr>pr_fate := Panicked c\<rparr>"

lemma ends_tick:
  assumes "pr_fate p = Alive" and "loop_at p i (Ticking 0 (rows_processed res))"
  shows "proc_step loops bound freed p (Loop i, 0) (after_tick res i p)"
proof (cases res)
  case (Ran x)
  then show ?thesis using loop_moves [OF assms(1,2)] by (cases x) auto
next
  case (Crashed c)
  have "set_loop i (Ticking 0 (Crashed c)) p = p" using assms(2) Crashed by (simp add: set_loop_same)
  then show ?thesis using panic [OF assms(1), of i c] assms(2) Crashed by (simp add: loop_at_def)
qed

lemma tick_runs:
  assumes "lossy \<or> no_lost_commit (we_io env)" and "tick env cfg send ws = (res, ws')"
    and "pr_fate p = Alive" and "\<not> pr_cancelled p" and "loop_at p i Polling" and "\<forall>f\<in>set F. fst f \<noteq> i"
  shows "joint_steps lossy (io_pg (we_io env)) (wc_max_attempts cfg) loops bound freed
    (p, \<lparr>sy_db = st_db (ws_store ws), sy_flight = F\<rparr>)
    (after_tick res i p, \<lparr>sy_db = st_db (ws_store ws'), sy_flight = F\<rparr>)"
proof -
  let ?n = "st_count (ws_store ws') - st_count (ws_store ws)" and ?r = "rows_processed res"
  let ?J = "joint_steps lossy (io_pg (we_io env)) (wc_max_attempts cfg) loops bound freed"
  let ?J1 = "joint_step lossy (io_pg (we_io env)) (wc_max_attempts cfg) loops bound freed"
  let ?s = "\<lparr>sy_db = st_db (ws_store ws), sy_flight = F\<rparr>"
  obtain F' where F': "(worker_txn lossy (io_pg (we_io env)) (wc_max_attempts cfg) i ^^ ?n) ?s
      \<lparr>sy_db = st_db (ws_store ws'), sy_flight = F'\<rparr>" "forget (Loop i) F' = forget (Loop i) F"
    using tick_txns [OF assms(1,2), of i F] by blast
  have F: "forget (Loop i) F = F" using assms(6) by (simp add: filter_id_conv)
  note at = assms(5)
  have "loop_step (pr_cancelled p) Polling 0 (Ticking ?n ?r)"
    by (rule loop_step.tick [OF assms(4)]) (use tick_count(1,2) [OF assms(2)] in linarith)+
  from joint_step.moves [OF loop_moves [OF assms(3) at this], of lossy "io_pg (we_io env)" "wc_max_attempts cfg" loops bound freed ?s]
  have "?J1 (p, ?s) (set_loop i (Ticking ?n ?r) p, ?s)" using F by simp
  moreover have "?J (set_loop i (Ticking ?n ?r) p, ?s) (set_loop i (Ticking 0 ?r) p, \<lparr>sy_db = st_db (ws_store ws'), sy_flight = F'\<rparr>)"
    using loop_makes_txns [OF F'(1), of "set_loop i (Ticking ?n ?r) p"] assms(3) at by simp
  moreover have "proc_step loops bound freed (set_loop i (Ticking 0 ?r) p) (Loop i, 0) (after_tick res i (set_loop i (Ticking 0 ?r) p))"
    by (rule ends_tick) (use assms(3) at in simp_all)
  then have "?J1 (set_loop i (Ticking 0 ?r) p, \<lparr>sy_db = st_db (ws_store ws'), sy_flight = F'\<rparr>)
      (after_tick res i p, \<lparr>sy_db = st_db (ws_store ws'), sy_flight = F\<rparr>)"
    using joint_step.moves [where x = "Loop i" and s = "\<lparr>sy_db = st_db (ws_store ws'), sy_flight = F'\<rparr>"] F F'(2)
    by (cases res) (fastforce split: prod.splits)+
  ultimately show ?thesis by (meson converse_rtranclp_into_rtranclp rtranclp.rtrancl_into_rtrancl)
qed

text \<open>
  C4: a tick of \<open>Worker\<close>, whatever the provider, the limiter and the database answer, is a run of
  the joint system in which only that worker's loop moves: from the top of the loop, over exactly the
  transactions the tick makes, each one acting on the tables as the tick does, back to the top,
  into the idle sleep, or into the panic. If no answer to a commit of the tick is lost, no step of
  that run loses one.
\<close>

theorem tick_is_joint_run:
  assumes "lossy \<or> no_lost_commit (we_io env)" and "tick env cfg send ws = (res, ws')"
    and "pr_fate p = Alive" and "\<not> pr_cancelled p" and "i < length (pr_loops p)" and "pr_loops p ! i = Polling"
    and "\<forall>f\<in>set F. fst f \<noteq> i"
  shows "joint_steps lossy (io_pg (we_io env)) (wc_max_attempts cfg) loops bound freed
    (p, \<lparr>sy_db = st_db (ws_store ws), sy_flight = F\<rparr>)
    (after_tick res i p, \<lparr>sy_db = st_db (ws_store ws'), sy_flight = F\<rparr>)"
  using tick_runs [OF assms(1-4) _ assms(7)] assms(5,6) by (simp add: loop_at_def)

section \<open>A request is a run of its connection\<close>

definition set_conn :: "nat \<Rightarrow> conn_pc \<Rightarrow> proc \<Rightarrow> proc" where
  "set_conn j c p = p\<lparr>pr_conns := (pr_conns p)[j := c]\<rparr>"

definition conn_at :: "proc \<Rightarrow> nat \<Rightarrow> conn_pc \<Rightarrow> bool" where
  "conn_at p j c \<longleftrightarrow> j < length (pr_conns p) \<and> pr_conns p ! j = c"

definition serving_pools :: "proc \<Rightarrow> bool" where
  "serving_pools p \<longleftrightarrow> pr_service p = Open \<and> pr_user p = Open"

lemma set_conn_simps [simp]:
  "pr_fate (set_conn j c p) = pr_fate p" "pr_closing (set_conn j c p) = pr_closing p"
  "serving_pools (set_conn j c p) = serving_pools p"
  "set_conn j c (set_conn j c' p) = set_conn j c p" "conn_at p j c'' \<Longrightarrow> conn_at (set_conn j c p) j c"
  by (simp_all add: set_conn_def conn_at_def serving_pools_def)

lemma set_conn_same: "conn_at p j c \<Longrightarrow> set_conn j c p = p"
  by (cases p) (auto simp: set_conn_def conn_at_def)

lemma conn_moves:
  assumes "pr_fate p = Alive" and "conn_at p j c" and "conn_step bound (pr_closing p) c k c'"
  shows "proc_step loops bound freed p (Conn j, k) (set_conn j c' p)"
  using by_conn [OF assms(1), of j bound k c'] assms(2,3) by (simp add: conn_at_def set_conn_def)

lemma conn_makes_txns:
  assumes "(one_txn pg ^^ n) d d'" and "pr_fate p = Alive" and "serving_pools p" and "conn_at p j (Serving n)"
  shows "joint_steps lossy pg m loops bound freed (p, \<lparr>sy_db = d, sy_flight = F\<rparr>)
    (set_conn j (Serving 0) p, \<lparr>sy_db = d', sy_flight = F\<rparr>)"
  using assms
proof (induction n arbitrary: p d)
  case 0
  then show ?case by (simp add: set_conn_same)
next
  case (Suc n)
  obtain d1 where d1: "one_txn pg d d1" "(one_txn pg ^^ n) d1 d'" using Suc.prems(1) by (rule relpowp_Suc_E2)
  let ?p = "set_conn j (Serving n) p"
  have "proc_step loops bound freed p (Conn j, 1) ?p" by (rule conn_moves [OF Suc.prems(2,4)]) simp
  moreover have "request_txn pg p \<lparr>sy_db = d, sy_flight = F\<rparr> \<lparr>sy_db = d1, sy_flight = F\<rparr>"
    using d1(1) Suc.prems(3) unfolding one_txn_def serving_pools_def by (metis request_txn.intros)
  ultimately have "joint_step lossy pg m loops bound freed (p, \<lparr>sy_db = d, sy_flight = F\<rparr>) (?p, \<lparr>sy_db = d1, sy_flight = F\<rparr>)"
    by (rule joint_step.serves)
  moreover have "joint_steps lossy pg m loops bound freed (?p, \<lparr>sy_db = d1, sy_flight = F\<rparr>)
      (set_conn j (Serving 0) p, \<lparr>sy_db = d', sy_flight = F\<rparr>)"
    using Suc.IH [OF d1(2), of ?p] Suc.prems(2-4) by simp
  ultimately show ?case by (rule converse_rtranclp_into_rtranclp)
qed

lemma conn_move_joint:
  assumes "pr_fate p = Alive" and "conn_at p j c" and "conn_step bound (pr_closing p) c 0 c'"
  shows "joint_step lossy pg m loops bound freed (p, s) (set_conn j c' p, s)"
  using joint_step.moves [OF conn_moves [OF assms], of lossy pg m loops freed s] by (cases s) simp

lemma request_runs:
  assumes "env_ok env" and "serve sys env r (wd, new_rw) = Done (wd', w')" and "3 \<le> bound"
    and "pr_fate p = Alive" and "serving_pools p" and "conn_at p j c" and "c = Fresh \<or> c = KeptAlive"
  shows "joint_steps lossy (io_pg (rv_io env)) m loops bound freed
    (p, \<lparr>sy_db = st_db (w_store wd), sy_flight = F\<rparr>)
    (set_conn j (if pr_closing p then Gone else KeptAlive) p, \<lparr>sy_db = st_db (w_store wd'), sy_flight = F\<rparr>)"
proof -
  let ?n = "st_count (w_store wd') - st_count (w_store wd)" and ?after = "if pr_closing p then Gone else KeptAlive"
  let ?s = "\<lparr>sy_db = st_db (w_store wd), sy_flight = F\<rparr>" and ?s' = "\<lparr>sy_db = st_db (w_store wd'), sy_flight = F\<rparr>"
  let ?J1 = "joint_step lossy (io_pg (rv_io env)) m loops bound freed"
  have trace: "?n \<le> 3" "(one_txn (io_pg (rv_io env)) ^^ ?n) (st_db (w_store wd)) (st_db (w_store wd'))"
    using serve_within [OF assms(1,2)] by (auto simp: within_def)
  note pools = assms(5) and at = assms(6)
  have "?J1 (p, ?s) (set_conn j (Serving ?n) p, ?s)"
    by (rule conn_move_joint [OF assms(4) at conn_step.request]) (use assms(3,7) trace(1) in auto)
  moreover have "joint_steps lossy (io_pg (rv_io env)) m loops bound freed (set_conn j (Serving ?n) p, ?s) (set_conn j (Serving 0) p, ?s')"
    using conn_makes_txns [OF trace(2), where p = "set_conn j (Serving ?n) p" and j = j] assms(4) at pools by simp
  moreover have "?J1 (set_conn j (Serving 0) p, ?s') (set_conn j ?after p, ?s')"
    using conn_move_joint [of "set_conn j (Serving 0) p" j "Serving 0" bound ?after] assms(4) at by simp
  ultimately show ?thesis
    by (meson converse_rtranclp_into_rtranclp rtranclp.rtrancl_into_rtrancl)
qed

text \<open>
  C5: a request to the server of theory \<open>Server\<close>, whatever it is, whatever it meets and however it is
  answered, is a run of the joint system in which only its connection moves: over exactly the
  transactions the request makes, three at most, each one acting on the tables as the request does,
  to a connection that is kept alive, or closed if the shutdown has begun.
\<close>

theorem request_is_joint_run:
  assumes "env_ok env" and "serve sys env r (wd, new_rw) = Done (wd', w')" and "3 \<le> bound"
    and "pr_fate p = Alive" and "pr_service p = Open" and "pr_user p = Open"
    and "j < length (pr_conns p)" and "pr_conns p ! j = Fresh \<or> pr_conns p ! j = KeptAlive"
  shows "joint_steps lossy (io_pg (rv_io env)) m loops bound freed
    (p, \<lparr>sy_db = st_db (w_store wd), sy_flight = F\<rparr>)
    (p\<lparr>pr_conns := (pr_conns p)[j := if pr_closing p then Gone else KeptAlive]\<rparr>,
     \<lparr>sy_db = st_db (w_store wd'), sy_flight = F\<rparr>)"
  using request_runs [OF assms(1-4) _ _ assms(8)] assms(5-7) by (simp add: serving_pools_def conn_at_def set_conn_def)

section \<open>Sample runs of a tick and of a request\<close>

text \<open>One tick with a notification to settle, and one subscription.\<close>

lemma tick_is_joint_run_witness:
  "\<exists>res ws'. tick sample_env sample_cfg (resend_send (\<lambda>e. Inr ''h'') sample_transport (new_resend ''k'' ''f''))
       (sample_ws (200 :: int, [])) = (res, ws') \<and>
     joint_steps False sample_pg 6 1 3 all_resting
       (launched\<lparr>pr_loops := [Polling]\<rparr>, \<lparr>sy_db = (sample_db [])\<lparr>db_notifications := [sample_sending]\<rparr>, sy_flight = []\<rparr>)
       (after_tick res 0 (launched\<lparr>pr_loops := [Polling]\<rparr>), \<lparr>sy_db = st_db (ws_store ws'), sy_flight = []\<rparr>)"
proof -
  obtain res ws' where run: "tick sample_env sample_cfg (resend_send (\<lambda>e. Inr ''h'') sample_transport (new_resend ''k'' ''f''))
      (sample_ws (200 :: int, [])) = (res, ws')" by fastforce
  have cfg: "wc_max_attempts sample_cfg = 6" "io_pg (we_io sample_env) = sample_pg"
    by (simp_all add: sample_cfg_def new_worker_def sample_env_simps) (simp add: sample_io_def)
  have start: "st_db (ws_store (sample_ws s)) = (sample_db [])\<lparr>db_notifications := [sample_sending]\<rparr>" for s :: 's
    by (simp add: sample_ws_def)
  have "False \<or> no_lost_commit (we_io sample_env)" by (simp add: no_lost_commit_def sample_env_simps)
  from tick_is_joint_run [OF this run, of "launched\<lparr>pr_loops := [Polling]\<rparr>" 0 "[]" 1 3 all_resting]
  show ?thesis using run by (simp add: cfg start launched_def)
qed

lemma request_is_joint_run_witness:
  "\<exists>wd' w'. serve sample_system sample_server_env (sample_get ''GET'' ''/v1/admin/subscribers'') (sample_wd [sample_linked], new_rw) = Done (wd', w') \<and>
     joint_steps False sample_pg 6 1 3 all_resting
       (launched\<lparr>pr_conns := [Fresh]\<rparr>, \<lparr>sy_db = st_db (w_store (sample_wd [sample_linked])), sy_flight = []\<rparr>)
       (launched\<lparr>pr_conns := [KeptAlive]\<rparr>, \<lparr>sy_db = st_db (w_store wd'), sy_flight = []\<rparr>)"
proof -
  obtain wd' w' where run: "serve sample_system sample_server_env (sample_get ''GET'' ''/v1/admin/subscribers'')
      (sample_wd [sample_linked], new_rw) = Done (wd', w')"
    by (rule serve_unfold [OF sample_env_ok])
  have pg: "io_pg (rv_io sample_server_env) = sample_pg" by (simp add: sample_server_env_def sample_io_def)
  from request_is_joint_run [OF sample_env_ok run order_refl, of "launched\<lparr>pr_conns := [Fresh]\<rparr>" 0 False 6 1 all_resting "[]"]
  show ?thesis using run by (simp add: pg launched_def)
qed

end
