(* ===== verification/Recovery.thy ===== *)
theory Recovery
  imports Refinement
begin

text \<open>
  What becomes of a notification that is due: a tick that reaches its claim, with a provider that
  accepts and a database that answers, sends it, also if other notifications of the same tick
  fail; so the first tick of the process started after a crash sends what the crash left pending.
\<close>

section \<open>What a dispatch changes\<close>

lemma settle_changes:
  assumes "no_lost_commit io" and "with_retry can n (with_tx io (verdict_txn next_at row hash v)) err st = (res, st')"
  shows "st_db st' = st_db st \<or> (\<exists>i. st_count st \<le> i \<and> i < st_count st' \<and>
    st_db st' = verdict_db (txn_ctx io IdService i) (io_uuid io i) next_at row hash v (st_db st))"
  using assms(2)
proof (induction n arbitrary: err st)
  case (Suc n)
  obtain r st1 where t: "with_tx io (verdict_txn next_at row hash v) st = (r, st1)" by fastforce
  note count = with_tx_count [OF t]
  show ?case
  proof (cases r)
    case (Inl e)
    note db = with_tx_error_keeps_db [OF assms(1) t [unfolded Inl]]
    consider "st' = st1" | "with_retry can n (with_tx io (verdict_txn next_at row hash v)) (Some e) st1 = (res, st')"
      using Suc.prems t Inl by (auto split: if_splits)
    then show ?thesis
    proof cases
      case 1
      then show ?thesis using db by simp
    next
      case 2
      from Suc.IH [OF this] show ?thesis using db count by (auto intro: Suc_leD)
    qed
  next
    case (Inr u)
    have "verdict_txn next_at row hash v (txn_ctx io IdService (st_count st)) (io_uuid io (st_count st)) (st_db st) =
        Inr (u, st_db st1)"
      using t [unfolded with_tx_def] by (cases rule: run_txn_cases) (auto simp: Inr)
    from verdict_txn_effect(1) [OF this] show ?thesis using Suc.prems t Inr count by auto
  qed
qed simp

lemma dispatch_changes:
  assumes "no_lost_commit (we_io env)" and "dispatch env cfg send row ws = (x, ws')"
  shows "st_db (ws_store ws') = st_db (ws_store ws) \<or>
    (\<exists>i next_at hash v. st_count (ws_store ws) \<le> i \<and> i < st_count (ws_store ws') \<and>
       st_db (ws_store ws') = verdict_db (txn_ctx (we_io env) IdService i) (io_uuid (we_io env) i) next_at row hash v
         (st_db (ws_store ws)))"
  using dispatch_settles_by [of env cfg row ws send] unfolding assms(2) snd_conv settles_by_def
proof (elim disjE exE conjE)
  fix next_at hash v
  assume st: "ws_store ws' = snd (settle env (verdict_txn next_at row hash v) (ws_store ws))"
  obtain res where "settle env (verdict_txn next_at row hash v) (ws_store ws) = (res, ws_store ws')"
    unfolding st by (metis prod.collapse)
  from settle_changes [OF assms(1) this [unfolded settle_def]] show ?thesis by blast
qed simp

text \<open>The row and the log of another notification stay as they are.\<close>

definition stands :: "db \<Rightarrow> notification \<Rightarrow> log_status list \<Rightarrow> bool" where
  "stands d r ls \<longleftrightarrow> r \<in> set (db_notifications d) \<and> log_of (db_email_log d) (n_id r) = ls"

lemma stands_verdict: "stands d r ls \<Longrightarrow> n_id r \<noteq> cl_id row \<Longrightarrow> stands (verdict_db q k next_at row hash v d) r ls"
  by (auto simp: stands_def verdict_db_def log_of_append log_of_verdict intro: update_where_keeps)

lemma stands_dispatch:
  assumes "no_lost_commit (we_io env)" and "dispatch env cfg send row ws = (x, ws')" and "n_id r \<noteq> cl_id row"
    and "stands (st_db (ws_store ws)) r ls"
  shows "stands (st_db (ws_store ws')) r ls"
  using dispatch_changes [OF assms(1,2)] stands_verdict [OF assms(4,3)] assms(4) by auto

lemma stands_dispatch_all:
  assumes "no_lost_commit (we_io env)" and "n_id r \<notin> cl_id ` set rows" and "stands (st_db (ws_store ws)) r ls"
  shows "stands (st_db (ws_store (snd (dispatch_all env cfg send rows ws)))) r ls"
  using assms(2,3)
proof (induction rows arbitrary: ws)
  case (Cons row rows)
  obtain x ws1 where d: "dispatch env cfg send row ws = (x, ws1)" by fastforce
  have "stands (st_db (ws_store ws1)) r ls"
    using stands_dispatch [OF assms(1) d] Cons.prems by simp
  then show ?case using Cons d by (auto split: option.splits run.splits)
qed simp

section \<open>Unused ids for the log\<close>

definition unused_ids :: "io \<Rightarrow> nat \<Rightarrow> nat \<Rightarrow> db \<Rightarrow> bool" where
  "unused_ids io n k d \<longleftrightarrow> inj_on (io_uuid io) {n..<n + k} \<and> io_uuid io ` {n..<n + k} \<inter> l_id ` set (db_email_log d) = {}"

lemma unused_ids_mono: "unused_ids io n k d \<Longrightarrow> n \<le> n' \<Longrightarrow> n' + k' \<le> n + k \<Longrightarrow> unused_ids io n' k' d"
proof -
  assume old: "unused_ids io n k d" and le: "n \<le> n'" "n' + k' \<le> n + k"
  have sub: "{n'..<n' + k'} \<subseteq> {n..<n + k}" using le by auto
  show "unused_ids io n' k' d"
    using old inj_on_subset [OF _ sub] image_mono [OF sub, of "io_uuid io"] by (auto simp: unused_ids_def)
qed

lemma unused_id: "unused_ids io n k d \<Longrightarrow> 0 < k \<Longrightarrow> io_uuid io n \<notin> l_id ` set (db_email_log d)"
  by (simp add: unused_ids_def disjoint_iff)

lemma unused_ids_dispatch:
  assumes "no_lost_commit (we_io env)" and "dispatch env cfg send row ws = (x, ws')"
    and "unused_ids (we_io env) (st_count (ws_store ws)) k (st_db (ws_store ws))"
    and "st_count (ws_store ws') + k' \<le> st_count (ws_store ws) + k"
  shows "unused_ids (we_io env) (st_count (ws_store ws')) k' (st_db (ws_store ws'))"
proof -
  let ?n = "st_count (ws_store ws)" and ?n' = "st_count (ws_store ws')" and ?u = "io_uuid (we_io env)"
  have up: "?n \<le> ?n'" using dispatch_count [OF assms(2)] by simp
  note old = unused_ids_mono [OF assms(3) up assms(4)]
  from dispatch_changes [OF assms(1,2)] show ?thesis
  proof (elim disjE exE conjE)
    fix i next_at hash v
    assume i: "?n \<le> i" "i < ?n'"
      and db: "st_db (ws_store ws') = verdict_db (txn_ctx (we_io env) IdService i) (?u i) next_at row hash v (st_db (ws_store ws))"
    have "?u i \<notin> ?u ` {?n'..<?n' + k'}"
    proof
      assume "?u i \<in> ?u ` {?n'..<?n' + k'}"
      then obtain j where j: "?n' \<le> j" "j < ?n' + k'" "?u i = ?u j" by auto
      have "inj_on ?u {?n..<?n + k}" using assms(3) by (simp add: unused_ids_def)
      from inj_onD [OF this j(3)] i j(1,2) assms(4) show False by simp
    qed
    then show ?thesis using old by (auto simp: unused_ids_def db verdict_db_log_ids)
  qed (use old in simp)
qed

section \<open>A due notification is sent\<close>

lemma dispatch_delivers:
  assumes "we_key env = Some key" and "build_message (we_uuid_text env) row = Inr msg"
    and "send msg (ws_sender ws) = (Inr (Inr pid), x)" and "pg_text pid" and "n = st_count (ws_store ws)"
    and "d = st_db (ws_store ws)" and "io_fault (we_io env) n = None"
    and "io_uuid (we_io env) n \<notin> l_id ` set (db_email_log d)" and "cl_id row \<in> n_id ` set (db_notifications d)"
  shows "dispatch env cfg send row ws =
    (Ran (), \<lparr>ws_store = \<lparr>st_db = verdict_db (txn_ctx (we_io env) IdService n) (io_uuid (we_io env) n) 0 row
                (row_hash env key row) (Delivered pid) d, st_count = n + 1\<rparr>, ws_sender = x\<rparr>)"
proof -
  let ?v = "Delivered pid" and ?q = "txn_ctx (we_io env) IdService n" and ?hash = "row_hash env key row"
  have "verdict_txn 0 row ?hash ?v ?q (io_uuid (we_io env) n) d =
      Inr ((), verdict_db ?q (io_uuid (we_io env) n) 0 row ?hash ?v d)"
    by (rule verdict_txn_succeeds) (use assms in auto)
  then have "with_tx (we_io env) (sent_txn row ?hash pid) (ws_store ws) =
      (Inr (), \<lparr>st_db = verdict_db ?q (io_uuid (we_io env) n) 0 row ?hash ?v d, st_count = n + 1\<rparr>)"
    using assms(5-7) by (subst with_tx_no_fault) simp_all
  then have "settle env (sent_txn row ?hash pid) (ws_store ws) =
      (None, \<lparr>st_db = verdict_db ?q (io_uuid (we_io env) n) 0 row ?hash ?v d, st_count = n + 1\<rparr>)"
    by (simp add: settle_def numeral_3_eq_3)
  then show ?thesis
    using dispatch_unfold [of env key row msg send ws _ x cfg, OF assms(1-3)] hash_with_key(1) [OF assms(1), of row]
    by (simp add: after_send_def mark_sent_def after_settling_def)
qed

lemma stands_delivered:
  assumes "stands d r ls" and "n_id r = cl_id row"
  shows "stands (verdict_db q k 0 row hash (Delivered pid) d) (sent_row (q_now q) r) (ls @ [LSent])"
proof -
  have "sent_row (q_now q) r \<in> set (update_where (\<lambda>r. n_id r = cl_id row) (sent_row (q_now q)) (db_notifications d))"
    using assms by (auto simp: stands_def update_where_def)
  then show ?thesis
    using assms
    by (auto simp: stands_def verdict_db_def log_of_append log_of_verdict row_simps simp del: verdict_log.simps)
qed

lemma dispatch_all_delivers:
  assumes "\<And>i. io_fault (we_io env) i = None" and "\<And>i. we_limiter env i = None" and "we_key env = Some key"
    and "wc_max_attempts cfg \<le> 28" and "\<And>m s. \<exists>x. fst (send m s) = Inr x" and "list_all (\<lambda>row. 0 \<le> cl_attempts row) rows"
    and "distinct (map cl_id rows)" and "row \<in> set rows" and "n_id r = cl_id row"
    and "build_message (we_uuid_text env) row = Inr msg"
    and "\<And>s. \<exists>pid. fst (send msg s) = Inr (Inr pid) \<and> pg_text pid"
    and "unused_ids (we_io env) (st_count (ws_store ws)) (3 * length rows) (st_db (ws_store ws))"
    and "stands (st_db (ws_store ws)) r ls"
  shows "\<exists>now. stands (st_db (ws_store (snd (dispatch_all env cfg send rows ws)))) (sent_row now r) (ls @ [LSent])"
  using assms(6-8,12,13)
proof (induction rows arbitrary: ws)
  case (Cons row1 rows)
  have nlc: "no_lost_commit (we_io env)" using assms(1) by (simp add: no_lost_commit_def)
  let ?n = "st_count (ws_store ws)" and ?d = "st_db (ws_store ws)"
  show ?case
  proof (cases "row1 = row")
    case True
    obtain pid x where send: "send msg (ws_sender ws) = (Inr (Inr pid), x)" "pg_text pid"
      using assms(11) by (metis prod.collapse)
    have "io_uuid (we_io env) ?n \<notin> l_id ` set (db_email_log ?d)"
      using unused_id [OF Cons.prems(4)] by simp
    moreover have "cl_id row1 \<in> n_id ` set (db_notifications ?d)"
      using Cons.prems(5) assms(9) True by (force simp: stands_def)
    ultimately have d: "dispatch env cfg send row1 ws =
        (Ran (), \<lparr>ws_store = \<lparr>st_db = verdict_db (txn_ctx (we_io env) IdService ?n) (io_uuid (we_io env) ?n) 0 row1
           (row_hash env key row1) (Delivered pid) ?d, st_count = ?n + 1\<rparr>, ws_sender = x\<rparr>)" (is "_ = (_, ?ws)")
      using dispatch_delivers [where send = send, OF assms(3) _ send(1,2) refl refl assms(1)] assms(10) True by blast
    have "stands (st_db (ws_store ?ws)) (sent_row (io_now (we_io env) ?n) r) (ls @ [LSent])"
      using stands_delivered [OF Cons.prems(5), of row1 "txn_ctx (we_io env) IdService ?n"] assms(9) True by simp
    moreover have "n_id (sent_row (io_now (we_io env) ?n) r) \<notin> cl_id ` set rows"
      using Cons.prems(2) assms(9) True by (auto simp: row_simps)
    ultimately have "stands (st_db (ws_store (snd (dispatch_all env cfg send rows ?ws))))
        (sent_row (io_now (we_io env) ?n) r) (ls @ [LSent])"
      by (rule stands_dispatch_all [OF nlc, rotated])
    then show ?thesis using d assms(2) by auto
  next
    case False
    then have row: "row \<in> set rows" "n_id r \<noteq> cl_id row1" using Cons.prems(2,3) assms(9) by force+
    obtain ws1 where d: "dispatch env cfg send row1 ws = (Ran (), ws1)"
      using dispatch_never_panics [where send = send, OF assms(3,4) _ assms(5)] Cons.prems(1) by auto
    have "unused_ids (we_io env) (st_count (ws_store ws1)) (3 * length rows) (st_db (ws_store ws1))"
      using unused_ids_dispatch [OF nlc d Cons.prems(4)] dispatch_count [OF d] by simp
    from Cons.IH [OF _ _ row(1) this stands_dispatch [OF nlc d row(2) Cons.prems(5)]] Cons.prems(1,2) d assms(2)
    show ?thesis by auto
  qed
qed simp

lemma build_leased: "build_message u (claimed_of (leased_row now lease r)) = build_message u (claimed_of r)"
proof -
  have msg: "message_of u (row\<lparr>cl_attempts := x\<rparr>) = message_of u row" for row x
    by (intro ext) (simp add: message_of_def)
  have "build_message u (row\<lparr>cl_attempts := x\<rparr>) = build_message u row" for row x
    unfolding build_message_def msg by simp
  from this [where row = "claimed_of r" and x = "n_attempts r + 1"] show ?thesis by (simp add: claimed_of_def leased_row_def)
qed

text \<open>A claim without a fault takes the rows that are due.\<close>

lemma claim_without_fault:
  assumes "io_fault (we_io env) (st_count st) = None"
  shows "\<exists>rows st'. with_tx (we_io env) (claim_txn env cfg k) st = (Inr rows, st') \<and>
    claim_due_notifications (txn_ctx (we_io env) IdService (st_count st)) (we_locked env k) claim_limit
      (lease_seconds cfg) (st_db st) = Inr (rows, st_db st')"
proof -
  obtain rows d where "claim_due_notifications (txn_ctx (we_io env) IdService (st_count st)) (we_locked env k) claim_limit
      (lease_seconds cfg) (st_db st) = Inr (rows, d)"
    by (simp add: claim_due_notifications_def service_only_def claim_limit_def Let_def)
  then show ?thesis using with_tx_no_fault [OF assms, of "claim_txn env cfg k"] by (simp add: claim_txn_def)
qed

text \<open>
  A tick under the daily cap, of a worker whose database and limiter answer, sends each of the rows that
  are due at its claim, if the provider takes the message.
\<close>

lemma tick_sends_due:
  assumes "\<And>i. io_fault (we_io env) i = None" and "\<And>i. we_limiter env i = None" and "we_key env = Some key"
    and "wc_max_attempts cfg \<le> 28" and "\<And>m s. \<exists>x. fst (send m s) = Inr x"
    and "unused_ids (we_io env) (st_count (ws_store ws)) 17 (st_db (ws_store ws))" and "db_ok pg (st_db (ws_store ws))"
    and "over_cap env cfg (ws_store ws) = (Inr False, st)"
    and "r \<in> set (due_rows (io_now (we_io env) (st_count st)) (we_locked env (st_count st)) claim_limit (st_db (ws_store ws)))"
    and "build_message (we_uuid_text env) (claimed_of r) = Inr msg"
    and "\<And>s. \<exists>pid. fst (send msg s) = Inr (Inr pid) \<and> pg_text pid"
  shows "\<exists>r'. stands (st_db (ws_store (snd (tick env cfg send ws)))) r'
      (log_of (db_email_log (st_db (ws_store ws))) (n_id r) @ [LSent]) \<and>
    n_id r' = n_id r \<and> n_status r' = NSent \<and> n_attempts r' = n_attempts r + 1"
proof -
  let ?now = "io_now (we_io env) (st_count st)" and ?skip = "we_locked env (st_count st)"
  let ?due = "due_rows ?now ?skip claim_limit (st_db st)" and ?r = "leased_row ?now (lease_seconds cfg) r"
  have db: "st_db st = st_db (ws_store ws)" by (rule over_cap_keeps_db [OF assms(8)])
  note keys = db_ok_dest(4) [OF assms(7)]
  have due: "r \<in> set ?due" "r \<in> set (db_notifications (st_db st))"
    using assms(9) due_rows_basic(2) [OF assms(9)] db by simp_all
  obtain rows st1 where claim: "with_tx (we_io env) (claim_txn env cfg (st_count st)) st = (Inr rows, st1)"
    "claim_due_notifications (txn_ctx (we_io env) IdService (st_count st)) ?skip claim_limit (lease_seconds cfg) (st_db st) =
       Inr (rows, st_db st1)"
    using claim_without_fault [OF assms(1)] by blast
  note eff = claim_effect(3,4) [OF claim(2), simplified] and five = claimed_rows(1) [OF claim(1)]
  have mine: "claimed_of ?r \<in> set rows" "n_id ?r = cl_id (claimed_of ?r)"
    using due(1) by (simp_all add: eff(1) claimed_of_def)
  have "distinct (map cl_id rows)" using claim_ids [OF claim(2)] due_rows_facts(1) [OF keys] db by simp
  moreover have "unused_ids (we_io env) (st_count st1) (3 * length rows) (st_db st1)"
  proof -
    have "unused_ids (we_io env) (st_count st1) (3 * length rows) (st_db (ws_store ws))"
      by (rule unused_ids_mono [OF assms(6)]) (use over_cap_count [OF assms(8)] with_tx_count [OF claim(1)] five in simp_all)
    then show ?thesis by (simp add: unused_ids_def eff(2) db)
  qed
  moreover have "stands (st_db st1) ?r (log_of (db_email_log (st_db (ws_store ws))) (n_id r))"
    using due by (auto simp: stands_def eff(2) db update_where_def row_simps)
  ultimately obtain now where
    "stands (st_db (ws_store (snd (dispatch_all env cfg send rows (ws\<lparr>ws_store := st1\<rparr>)))))
       (sent_row now ?r) (log_of (db_email_log (st_db (ws_store ws))) (n_id r) @ [LSent])"
    using dispatch_all_delivers [where send = send and rows = rows and row = "claimed_of ?r" and r = ?r and
        ws = "ws\<lparr>ws_store := st1\<rparr>", OF assms(1-5) claimed_attempts [OF claim(1)] _ mine _ assms(11)]
      assms(7,10) db by (auto simp: build_leased)
  moreover have "ws_store (snd (tick env cfg send ws)) = ws_store (snd (dispatch_all env cfg send rows (ws\<lparr>ws_store := st1\<rparr>)))"
    using assms(8) claim(1) mine(1) by (auto simp: tick_def split: prod.splits run.splits option.splits)
  ultimately show ?thesis by (intro exI [of _ "sent_row now ?r"]) (simp add: row_simps)
qed

section \<open>After a crash\<close>

text \<open>
  C33: what a process that exited, was killed or panicked left pending is sent by the process that
  comes next. Take the first tick of its first worker loop, with the hash key installed, a limit of at
  most 28 attempts (main configures 6), a clock, a database and a limiter that answer, a provider that takes the notification's message and panics at none, and unused
  ids for the log. If the count of the daily cap, which comes first when a cap is configured, lets the
  tick pass, then every notification that is due when the tick then claims (pending, its time
  come, not locked, among the first five by that time) ends up "sent" in this very tick, with one attempt and
  one log entry more. The new process gets from its launch to the end of that tick by steps of the
  joint system, whatever the old one did and left behind.
\<close>

theorem restart_sends_pending:
  assumes "joint_steps lossy pg m loops bound freed (launched, sys_start users) (p, s)"
    and "pr_fate p \<noteq> Alive" and "0 < loops" and "io_pg (we_io env) = pg" and "wc_max_attempts cfg = m" and "m \<le> 28"
    and "st_db (ws_store ws) = sy_db s" and "unused_ids (we_io env) (st_count (ws_store ws)) 17 (sy_db s)"
    and "\<And>i. io_fault (we_io env) i = None" and "\<And>i. we_limiter env i = None" and "we_key env = Some key"
    and "\<And>msg x. \<exists>res. fst (send msg x) = Inr res"
    and "over_cap env cfg (ws_store ws) = (Inr False, st)"
    and "r \<in> set (due_rows (io_now (we_io env) (st_count st)) (we_locked env (st_count st)) claim_limit (sy_db s))"
    and "build_message (we_uuid_text env) (claimed_of r) = Inr msg"
    and "\<And>x. \<exists>pid. fst (send msg x) = Inr (Inr pid) \<and> pg_text pid"
  shows "\<exists>p' d. d = st_db (ws_store (snd (tick env cfg send ws))) \<and> pr_fate p' = Alive \<and>
    joint_steps lossy pg m loops bound freed (launched, \<lparr>sy_db = sy_db s, sy_flight = []\<rparr>) (p', \<lparr>sy_db = d, sy_flight = []\<rparr>) \<and>
    joint_steps lossy pg m loops bound freed (p, s) (p', \<lparr>sy_db = d, sy_flight = []\<rparr>) \<and>
    (\<exists>r'\<in>set (db_notifications d). n_id r' = n_id r \<and> n_status r' = NSent \<and> n_attempts r' = n_attempts r + 1 \<and>
       log_of (db_email_log d) (n_id r) = log_of (db_email_log (sy_db s)) (n_id r) @ [LSent])"
proof -
  let ?s = "\<lparr>sy_db = sy_db s, sy_flight = []\<rparr>" and ?d = "st_db (ws_store (snd (tick env cfg send ws)))"
  let ?J = "joint_steps lossy pg m loops bound freed"
  have ok: "db_ok pg (st_db (ws_store ws))" using joint_fault_inv [OF assms(1)] assms(7) by (simp add: fault_inv_def)
  note max = assms(6) [folded assms(5)]
  obtain r' where r': "stands ?d r' (log_of (db_email_log (sy_db s)) (n_id r) @ [LSent])"
    "n_id r' = n_id r" "n_status r' = NSent" "n_attempts r' = n_attempts r + 1"
    using tick_sends_due [where send = send and ws = ws, OF assms(9-11) max assms(12) _ ok assms(13) _ assms(15,16)]
      assms(7,8,14) by auto
  obtain k e ws' where t: "tick env cfg send ws = (Ran (k, e), ws')"
    using tick_never_panics [where send = send, OF assms(11) max assms(12) ok] by auto
  obtain t0 where "proc_run loops bound freed launched [(Main, 0), (Runner, 0)] t0" "t0 = first_loop"
    using first_loop_run [OF assms(3)] by blast
  then have first: "?J (launched, ?s) (first_loop, ?s)" using quiet_run_is_joint [where s = ?s] by fastforce
  have at: "pr_fate first_loop = Alive" "\<not> pr_cancelled first_loop" "loop_at first_loop 0 Polling"
    by (simp_all add: first_loop_def launched_def loop_at_def)
  have nlc: "lossy \<or> no_lost_commit (we_io env)" using assms(9) by (simp add: no_lost_commit_def)
  let ?p = "after_tick (Ran (k, e)) 0 first_loop"
  have "?J (first_loop, ?s) (?p, \<lparr>sy_db = ?d, sy_flight = []\<rparr>)"
    using tick_runs [OF nlc t at, of "[]"] assms(4,5,7) t by simp
  with first have run: "?J (launched, ?s) (?p, \<lparr>sy_db = ?d, sy_flight = []\<rparr>)" by (rule rtranclp_trans)
  have "joint_step lossy pg m loops bound freed (p, s) (launched, ?s)"
    using joint_step.restarts [OF assms(2), of lossy pg m loops bound freed s] by (cases s) simp
  from converse_rtranclp_into_rtranclp [OF this run] run r' at(1) show ?thesis
    by (intro exI [of _ ?p] exI [of _ ?d]) (auto simp: stands_def)
qed

section \<open>A sample restart\<close>

text \<open>The process that accepted a subscription is killed before a worker has seen it.\<close>

definition sample_killed :: proc where
  "sample_killed = sample_served\<lparr>pr_fate := Killed\<rparr>"

definition restarted_ws :: "unit worker_state" where
  "restarted_ws = \<lparr>ws_store = \<lparr>st_db = sy_db run_queued, st_count = 3\<rparr>, ws_sender = ()\<rparr>"

lemma sample_killed_steps: "joint_steps False sample_pg 6 1 3 all_resting (launched, sys_start [7]) (sample_killed, run_queued)"
proof -
  have "proc_step 1 3 all_resting sample_served (Outside, 0) sample_killed"
    unfolding sample_killed_def by (rule kill) (simp_all add: sample_life)
  from joint_step.moves [OF this, of False sample_pg 6 run_queued]
  have "joint_step False sample_pg 6 1 3 all_resting (sample_served, run_queued) (sample_killed, run_queued)"
    by (simp add: run_queued_def)
  with sample_life_steps(1,2) show ?thesis by (meson rtranclp.rtrancl_into_rtrancl)
qed

lemma word_ids_unused:
  assumes "n + k \<le> 2 ^ 128" and "db_email_log d = []" and "\<And>i. io_uuid io i = word_of_nat i"
  shows "unused_ids io n k d"
proof -
  have "unat (word_of_nat i :: uuid) = i" if "i < n + k" for i
    using that assms(1) by (simp add: unsigned_of_nat take_bit_eq_mod)
  then have "inj_on (\<lambda>i. word_of_nat i :: uuid) {n..<n + k}" by (metis atLeastLessThan_iff inj_onI)
  moreover have "io_uuid io = word_of_nat" using assms(3) by blast
  ultimately show ?thesis using assms(2) by (simp add: unused_ids_def)
qed

lemma passes_cap:
  assumes "\<And>i. io_fault (we_io env) i = None" and "\<forall>r\<in>set (db_notifications (st_db before)). n_status r \<noteq> NSent"
  shows "\<exists>st. over_cap env cfg before = (Inr False, st)"
proof -
  have "filter (sent_last_day now) (db_notifications (st_db before)) = []" for now
    using assms(2) by (auto simp: filter_empty_conv sent_last_day_def)
  then show ?thesis
    using with_tx_no_fault [OF assms(1), of "\<lambda>q k. count_sends_last_day q" before]
    by (auto simp: over_cap_def count_sends_service)
qed

lemma sample_delivery:
  "0 \<le> now \<Longrightarrow> sample_queued \<in> set (due_rows now {} claim_limit (sy_db run_queued))"
  "build_message u (claimed_of sample_queued) = Inr (confirm_message u 1 ''ann@example.org'' sample_payload)"
  "n_id sample_queued = 1" "pg_text ''p''"
proof -
  show "sample_queued \<in> set (due_rows now {} claim_limit (sy_db run_queued))" if "0 \<le> now"
    using that by (simp add: due_rows_def claim_due_pred_def claim_limit_def sample_queued_def fresh_notification_def
        run_queued_def sample_q_def)
  show "build_message u (claimed_of sample_queued) = Inr (confirm_message u 1 ''ann@example.org'' sample_payload)"
    using build_confirm [of "claimed_of sample_queued" sample_payload u]
    by (simp add: claimed_of_def sample_queued_def fresh_notification_def)
  show "n_id sample_queued = 1" by (simp add: sample_queued_def fresh_notification_def)
  show "pg_text ''p''" by code_simp
qed

lemma restart_sends_pending_witness:
  "\<exists>p' d. joint_steps False sample_pg 6 1 3 all_resting (sample_killed, run_queued) (p', \<lparr>sy_db = d, sy_flight = []\<rparr>) \<and>
     d = st_db (ws_store (snd (tick sample_env sample_cfg (\<lambda>m s. (Inr (Inr ''p''), s)) restarted_ws))) \<and>
     (\<exists>r\<in>set (db_notifications d). n_id r = 1 \<and> n_status r = NSent) \<and> log_of (db_email_log d) 1 = [LSent]"
proof -
  let ?send = "\<lambda>m s. (Inr (Inr ''p''), s) :: send_result \<times> unit"
  have ws: "st_db (ws_store restarted_ws) = sy_db run_queued" "st_count (ws_store restarted_ws) = 3"
    by (simp_all add: restarted_ws_def)
  have env: "\<And>i. io_fault (we_io sample_env) i = None" "\<And>i. we_limiter sample_env i = None" "we_locked sample_env i = {}"
    "io_pg (we_io sample_env) = sample_pg" "0 \<le> io_now (we_io sample_env) i" "wc_max_attempts sample_cfg = 6" for i
    by (simp_all add: sample_env_simps) (simp_all add: sample_env_def sample_io_def sample_cfg_def new_worker_def second_def)
  have empty: "db_email_log (sy_db run_queued) = []" by (simp add: run_queued_def empty_db_def)
  have "unused_ids (we_io sample_env) 3 17 (sy_db run_queued)"
    by (rule word_ids_unused) (simp_all add: empty sample_env_simps)
  note ids = this [folded ws(2)]
  obtain st where cap: "over_cap sample_env sample_cfg (ws_store restarted_ws) = (Inr False, st)"
    using passes_cap [where env = sample_env and before = "ws_store restarted_ws"] env(1) ws(1)
    by (auto simp: run_queued_def sample_queued_def fresh_notification_def)
  have due: "sample_queued \<in> set (due_rows (io_now (we_io sample_env) (st_count st)) (we_locked sample_env (st_count st))
      claim_limit (sy_db run_queued))"
    using sample_delivery(1) env(3,5) by simp
  have "pr_fate sample_killed \<noteq> Alive" by (simp add: sample_killed_def)
  from restart_sends_pending [where send = ?send, OF sample_killed_steps this _ env(4,6) _ ws(1) ids env(1,2)
      sample_env_simps(1) _ cap due sample_delivery(2)]
  show ?thesis using sample_delivery(3,4) empty by (fastforce simp: log_of_def)
qed

end
