(* ===== verification/Spec2Isabelle.thy ===== *)
theory Spec2Isabelle
  imports Recovery
begin

text \<open>
  The backend of a mailing list: visitors subscribe an address over HTTP, confirm it by a link
  in a mail, and unsubscribe by another; admins look at the lists and resend confirmations; a
  worker sends the queued mail.

  \<^bold>\<open>The program and its theories.\<close> A request enters \<open>cmd/server/main.go\<close> (theory \<open>Server\<close>), passes
  the global middleware of \<open>internal/httpx\<close> (\<open>Http\<close>: request id, panic recovery, access log,
  security headers, CORS), the rate limit and the authentication of \<open>internal/auth\<close> (\<open>Auth\<close>), and
  reaches a handler of \<open>internal/subscribers/service.go\<close> (\<open>Subscribers\<close>) or
  \<open>internal/admins/service.go\<close> (\<open>Admins\<close>). Handlers sign and check links by
  \<open>internal/tokens\<close> (\<open>Tokens\<close>, over \<open>Base64\<close>), run transactions through the two pools of
  \<open>internal/db/pools.go\<close> (\<open>Pools\<close>), whose statements are \<open>internal/db/dbq\<close> (\<open>Queries\<close>) on the
  tables of the migrations (\<open>Tables\<close>) under their grants and policies (\<open>Access\<close>), and queue mail.
  The worker of \<open>internal/notifications\<close> (\<open>Worker\<close>) claims queued rows, builds messages, sends them by
  an implementation of \<open>Sender\<close> of \<open>internal/email\<close> (\<open>Mail\<close>, with \<open>JsonDecode\<close> for decoded
  structs) and settles the rows. Errors are those of \<open>internal/apperr\<close> (\<open>AppErr\<close>); the
  configuration is \<open>internal/config\<close> (\<open>Config\<close>). \<open>Requests\<close> counts what a request costs; \<open>Shutdown\<close> is the life of
  the process: the goroutines of \<open>main.go\<close> and of \<open>Worker.Run\<close>, the signal, the graceful shutdown and the
  exit; \<open>Workers\<close> and \<open>Faults\<close> are the queue under any number of workers, without and with commits whose answer
  is lost; \<open>Running\<close> puts the processes and the database together, with their restarts, \<open>Refinement\<close>
  relates the detailed handlers and the worker to that, and \<open>Recovery\<close> follows a due notification. \<open>Prelude\<close> holds Go's string and integer helpers and
  the interfaces \<open>codec\<close> and \<open>row_update\<close>.

  \<^bold>\<open>State.\<close> The database is a record of row lists (\<open>db\<close>). A query maps it to an error or a value
  and the new database; a transaction (\<open>run_txn\<close>) commits it exactly if its function succeeds. The
  server's state (\<open>world\<close>) is the store (database and number of transactions so far), the cache of
  admin checks, the time slept and the access log. A handler maps a request, the state and the
  response writer to an outcome, which may be a panic; errors are values of a sum type. The
  process (\<open>proc\<close>) is where each goroutine stands, with the wait groups, the contexts and the pools. The
  joint system pairs a process with the tables and the notifications in flight (\<open>sys\<close>); its steps
  (\<open>joint_step\<close>) are the moves of one goroutine, with the effect of its transaction if it makes one, and
  the start of a new process after the end of the old one.

  \<^bold>\<open>What is outside.\<close> Arguments of the definitions, each documented where it is declared: HMAC-SHA256
  and SHA-256, the clock and the random bytes, PostgreSQL's \<open>lower\<close> and uuid parsing, faults of
  transactions (\<open>io_fault\<close>), the JWT and JWKS libraries, \<open>net.ParseIP\<close>, address and URL parsing, the
  JSON scanner, the HTTP transport to the mail provider, \<open>httprate\<close>, chi's matching of a path with the
  registered patterns. What a theorem relies on of these is a named hypothesis: \<open>codec\<close> (the text
  of a uuid scans back), \<open>jwt_contract\<close> (an accepted token was signed under the key and meets the
  options), \<open>limiter_ok\<close> and \<open>env_ok\<close> (libraries only add headers of their own), \<open>no_lost_commit\<close> (no
  commit of the worker takes effect while its answer is lost).

  \<^bold>\<open>Lost answers.\<close> A commit may take effect although its client sees an error (\<open>LostCommit\<close>). \<open>withRetry\<close> then
  settles a notification again and writes a second log entry (\<open>lost_answer_logs_twice\<close> of \<open>Faults\<close>).
  The joint system has such transactions (\<open>worker_txn\<close>) if its parameter \<open>lossy\<close> holds, and the theorems on it
  and on the whole program hold for either value: what fails if answers get lost (exactly one log entry,
  no notification in flight twice, the limit of attempts) is claimed under \<open>\<not> lossy\<close> only, which for a tick
  of the detailed worker means \<open>no_lost_commit\<close>. The theorems of \<open>Workers\<close> are about runs without lost answers.
  For requests the fault is never excluded, except by theorems that exclude all faults.

  \<^bold>\<open>Interfaces\<close> are locales, interpreted on the model: \<open>codec\<close> on the integer and token encodings,
  \<open>row_update\<close> on every kind of update, \<open>unit_of_work\<close> on both pools, the contract of \<open>Sender\<close> on its
  two implementations, \<open>resender\<close> on \<open>EnqueueConfirm\<close>.

  \<^bold>\<open>What is shown.\<close> \<open>Lifecycle\<close>: every statement keeps the table invariant \<open>db_ok\<close>; a subscription only
  moves forward; what each role can read. \<open>Delivery\<close>: what one worker does with one row is one
  of four verdicts, settled as a whole or not at all; the waiting times; the number of sends.
  \<open>Workers\<close>: with any number of workers interleaved transaction by transaction, no notification is
  handled twice at a time and each settled one has exactly one log entry; a settled row stays as it
  is; what \<open>tick\<close> does are such steps. \<open>Faults\<close>: what remains true when answers to commits are lost: the
  constraints, the last log entry, and the rows out of reach. \<open>Tokens\<close>: which texts verify, for which purpose and how
  long. \<open>Http\<close>: the client address behind proxies, hidden causes. \<open>Subscriptions\<close> and \<open>Links\<close>: the answers and effects of every public handler, from
  subscribing to unsubscribing. \<open>Admins\<close>: paging, and what a resend promises. \<open>Auth\<close>: which tokens
  are accepted, and that an admin verdict is at most a minute old. \<open>Config\<close> and \<open>Server\<close>: a server
  that starts is well configured; every request is answered, with its headers and one log line,
  and protected routes are closed. \<open>Shutdown\<close>: under every interleaving the pools outlive their users
  and the shutdown ends; the worker never panics; its loop is the one of \<open>Worker\<close>; what a shutdown in
  the middle of a send and a listener that fails leave behind. \<open>Requests\<close>: a request makes at most three transactions, of one
  changing statement each. \<open>Running\<close>: under every interleaving of the goroutines, over any number of
  processes that exit, are killed or panic, the queue stays consistent and what is in flight belongs to a
  loop inside a tick; between two processes only pending notifications have a future.
  \<open>Refinement\<close>: a tick and a request are runs of the joint system, transaction by
  transaction. \<open>Recovery\<close>: a tick that gets past the count of the daily cap sends what is due at its claim, so
  the process after a crash sends what the crash left pending. This theory: requests and ticks
  together keep everything, and the whole program is a run of the joint system. In that system a tick
  is any number of transactions up to a bound (\<open>loop_step\<close>), a claim, a settlement or neither; the
  order of the real ones, the count first and then the claim, is in \<open>tick\<close>, and claims that depend on it are about \<open>tick\<close>.

  \<^bold>\<open>Bounds.\<close> Integers of a fixed width are words or cut explicitly (\<open>to_int32\<close>, \<open>duration\<close>,
  \<open>backoff\<close>). The only fuel is the number of rounds of \<open>worker_loop\<close>, whose Go loop runs until
  cancelled; \<open>Delivery\<close> shows that with a cancelled context a fuel above the number of transactions
  left is never used up. In \<open>Shutdown\<close> nothing has fuel: the length of a run after the cancellation
  is bounded by the weight of its first state. The retries of a settlement are the code's own three attempts.

  \<^bold>\<open>Not modelled.\<close> Durations of sleeps and time limits (the idle sleep, the limits of \<open>http.Server\<close>; that of
  \<open>Shutdown\<close> is a step that may happen at any moment); \<open>dbq/db.go\<close>, which only passes a
  connection on; log output except the access log; the byte encoding of JSON responses; of the
  migrations the DDL itself (constraints, grants and policies are in \<open>Tables\<close> and \<open>Access\<close>); tests.
\<close>

section \<open>The whole program\<close>

text \<open>Requests and worker ticks, one after the other, on one store; \<open>'s\<close> is the sender's state.\<close>

datatype 'k event = Request "'k server_env" request | Tick worker_env

fun program ::
  "'k system \<Rightarrow> (message \<Rightarrow> 's \<Rightarrow> send_result \<times> 's) \<Rightarrow> 'k event list \<Rightarrow> world \<times> 's \<Rightarrow> world \<times> 's" where
  "program sys send [] st = st"
| "program sys send (Request env r # es) (wd, n) =
     program sys send es (fst (outcome_value (serve sys env r (wd, new_rw))), n)"
| "program sys send (Tick we # es) (wd, n) =
     (let ws = snd (tick we (sy_worker sys) send \<lparr>ws_store = w_store wd, ws_sender = n\<rparr>)
      in program sys send es (wd\<lparr>w_store := ws_store ws\<rparr>, ws_sender ws))"

text \<open>
  What an event relies on: the libraries' contracts and one database. The answer to a commit of a tick
  may be lost if \<open>lossy\<close> holds; that of a request always may.
\<close>

fun event_ok :: "bool \<Rightarrow> pg_ops \<Rightarrow> 'k event \<Rightarrow> bool" where
  "event_ok lossy pg (Request env r) \<longleftrightarrow> env_ok env \<and> io_pg (rv_io env) = pg"
| "event_ok lossy pg (Tick we) \<longleftrightarrow> (lossy \<or> no_lost_commit (we_io we)) \<and> io_pg (we_io we) = pg"

lemma tick_keeps_steps:
  assumes "event_ok lossy pg (Tick we)"
  shows "fault_steps lossy pg (wc_max_attempts cfg) \<lparr>sy_db = st_db (ws_store ws), sy_flight = []\<rparr>
    \<lparr>sy_db = st_db (ws_store (snd (tick we cfg send ws))), sy_flight = []\<rparr>"
  using assms tick_is_fault_steps [where env = we and cfg = cfg and ws = ws and send = send] by auto

fun is_request :: "'k event \<Rightarrow> bool" where
  "is_request (Request env r) \<longleftrightarrow> True"
| "is_request (Tick we) \<longleftrightarrow> False"

lemma program_steps:
  assumes "list_all (event_ok lossy pg) es" and "program sys send es (wd, n) = (wd', n')"
  shows "fault_steps lossy pg (wc_max_attempts (sy_worker sys)) \<lparr>sy_db = st_db (w_store wd), sy_flight = []\<rparr>
      \<lparr>sy_db = st_db (w_store wd'), sy_flight = []\<rparr> \<and>
    (cache_ok (w_cache wd) \<longrightarrow> cache_ok (w_cache wd')) \<and>
    length (w_access wd') = length (w_access wd) + length (filter is_request es)"
  using assms
proof (induction es arbitrary: wd n)
  case Nil
  then show ?case by simp
next
  case (Cons ev es)
  show ?case
  proof (cases ev)
    case (Request env r)
    let ?wd = "fst (outcome_value (serve sys env r (wd, new_rw)))"
    have ok: "env_ok env" "io_pg (rv_io env) = pg" using Cons.prems(1) Request by simp_all
    note step = serve_step [OF ok(1) refl [of ?wd], unfolded ok(2)]
    from Cons.IH [of ?wd n] Cons.prems Request step(2,3) sys_steps_fault [OF db_runs_sys_steps [OF step(1)]]
    show ?thesis by (auto intro: rtranclp_trans)
  next
    case (Tick we)
    let ?ws = "snd (tick we (sy_worker sys) send \<lparr>ws_store = w_store wd, ws_sender = n\<rparr>)"
    have ok: "event_ok lossy pg (event.Tick we)" using Cons.prems(1) Tick by simp
    from Cons.IH [of "wd\<lparr>w_store := ws_store ?ws\<rparr>" "ws_sender ?ws"] Cons.prems Tick
      tick_keeps_steps [OF ok, of "sy_worker sys" "\<lparr>ws_store = w_store wd, ws_sender = n\<rparr>" send]
    show ?thesis by (auto simp: Let_def intro: rtranclp_trans)
  qed
qed

lemma started_attempts: "start so getenv = Started sys \<Longrightarrow> wc_max_attempts (sy_worker sys) = 6"
  by (erule start_cases) (simp add: worker_setup_def new_worker_def)

text \<open>A database that a life of the program, from empty tables on, may have left.\<close>

definition left_database :: "bool \<Rightarrow> pg_ops \<Rightarrow> uuid list \<Rightarrow> db \<Rightarrow> bool" where
  "left_database lossy pg users d \<longleftrightarrow> fault_steps lossy pg 6 (sys_start users) \<lparr>sy_db = d, sy_flight = []\<rparr>"

text \<open>
  C1: the whole program, from a successful start on a database that is empty or was left by an earlier
  life of the program, through any sequence of requests and worker ticks with any answers of the
  mail provider: the tables satisfy their invariant; the admin cache is bounded; the access log
  has one line per request; and the log of a notification ends with the entry its status asks for,
  whatever faults the database has. As long as no answer to the commit of a worker's transaction
  gets lost, now or in the earlier life, every notification that is sent, failed or dead has exactly
  one log entry, with that status, no other has one, none is tried more than six times, and a
  dead one exactly six times. (A lost answer makes \<open>withRetry\<close> write a second entry.)
\<close>

theorem program_is_consistent:
  assumes "start so getenv = Started sys" and "list_all (event_ok lossy pg) es"
    and "left_database lossy pg users (st_db (w_store wd))" and "cache_ok (w_cache wd)" and "w_access wd = []"
    and "program sys send es (wd, n) = (wd', n')"
  shows "db_ok pg (st_db (w_store wd')) \<and> cache_ok (w_cache wd') \<and>
    length (w_access wd') = length (filter is_request es) \<and>
    (\<forall>x\<in>set (db_notifications (st_db (w_store wd'))).
       suffix (expected_log (n_status x)) (log_of (db_email_log (st_db (w_store wd'))) (n_id x))) \<and>
    (\<not> lossy \<longrightarrow> (\<forall>x\<in>set (db_notifications (st_db (w_store wd'))).
       log_of (db_email_log (st_db (w_store wd'))) (n_id x) = expected_log (n_status x) \<and>
       n_attempts x \<le> 6 \<and> (n_status x = NDead \<longrightarrow> n_attempts x = 6)))"
proof -
  let ?s' = "\<lparr>sy_db = st_db (w_store wd'), sy_flight = []\<rparr>"
  note run = program_steps [OF assms(2,6), unfolded started_attempts [OF assms(1)]]
  have life: "fault_steps lossy pg 6 (sys_start users) ?s'"
    using rtranclp_trans [OF assms(3) [unfolded left_database_def]] run by blast
  have "sys_inv pg 6 ?s'" if "\<not> lossy"
    using sys_inv_steps [OF lossless_steps sys_inv_start] life that by simp
  then show ?thesis
    using fault_inv_steps [OF life fault_inv_start] run assms(4,5) by (auto simp: fault_inv_def sys_inv_def row_inv_def)
qed

section \<open>The whole program is a run of the joint system\<close>

text \<open>A process that serves: one connection is kept alive, and one worker loop is at its top.\<close>

definition ready :: "proc \<Rightarrow> bool" where
  "ready p \<longleftrightarrow> pr_fate p = Alive \<and> \<not> pr_cancelled p \<and> \<not> pr_closing p \<and> serving_pools p \<and>
     conn_at p 0 KeptAlive \<and> loop_at p 0 Polling"

text \<open>The hash key has been installed (\<open>InitEmailHash\<close>) before a tick.\<close>

fun keyed :: "'k event \<Rightarrow> bool" where
  "keyed (Request env r) \<longleftrightarrow> True"
| "keyed (Tick we) \<longleftrightarrow> we_key we \<noteq> None"

lemma back_to_polling:
  assumes "ready p"
  shows "joint_steps lossy pg m loops bound freed (after_tick (Ran (k, e)) 0 p, \<lparr>sy_db = d, sy_flight = []\<rparr>)
    (p, \<lparr>sy_db = d, sy_flight = []\<rparr>)"
proof -
  have at: "pr_fate p = Alive" "loop_at p 0 Polling" using assms by (simp_all add: ready_def)
  have top: "set_loop 0 Polling p = p" using at(2) by (rule set_loop_same)
  show ?thesis
  proof (cases "k = 0")
    case True
    have "proc_step loops bound freed (set_loop 0 Idling p) (Loop 0, 0) (set_loop 0 Polling (set_loop 0 Idling p))"
      by (rule loop_moves [where l = Idling]) (use at in simp_all)
    from joint_step.moves [OF this, of lossy pg m "\<lparr>sy_db = d, sy_flight = []\<rparr>"] show ?thesis
      using True top by simp
  next
    case False
    then show ?thesis using top by simp
  qed
qed

lemma request_event_runs:
  assumes "env_ok env" and "wd' = fst (outcome_value (serve sys env r (wd, new_rw)))" and "3 \<le> bound" and "ready p"
  shows "joint_steps lossy (io_pg (rv_io env)) m loops bound freed (p, \<lparr>sy_db = st_db (w_store wd), sy_flight = []\<rparr>)
    (p, \<lparr>sy_db = st_db (w_store wd'), sy_flight = []\<rparr>)"
proof -
  obtain wd1 w1 where out: "serve sys env r (wd, new_rw) = Done (wd1, w1)" by (rule serve_unfold [OF assms(1)])
  have at: "pr_fate p = Alive" "serving_pools p" "conn_at p 0 KeptAlive" "\<not> pr_closing p"
    using assms(4) by (simp_all add: ready_def)
  show ?thesis
    using request_runs [OF assms(1) out assms(3) at(1,2,3) disjI2 [OF refl]] set_conn_same [OF at(3)] at(4) assms(2) out by simp
qed

lemma tick_event_runs:
  assumes "event_ok lossy pg (Tick we)" and "keyed (Tick we)" and "\<And>m s. \<exists>r. fst (send m s) = Inr r"
    and "wc_max_attempts cfg = 6" and "db_ok pg (st_db (ws_store ws))" and "ready p"
  shows "joint_steps lossy pg 6 loops bound freed (p, \<lparr>sy_db = st_db (ws_store ws), sy_flight = []\<rparr>)
    (p, \<lparr>sy_db = st_db (ws_store (snd (tick we cfg send ws))), sy_flight = []\<rparr>)"
proof -
  obtain key where key: "we_key we = Some key" using assms(2) by auto
  have ok: "lossy \<or> no_lost_commit (we_io we)" "io_pg (we_io we) = pg" using assms(1) by simp_all
  obtain k e ws' where t: "tick we cfg send ws = (Ran (k, e), ws')"
    using tick_never_panics [where send = send and cfg = cfg, OF key _ assms(3,5)] assms(4) by fastforce
  have at: "pr_fate p = Alive" "\<not> pr_cancelled p" "loop_at p 0 Polling" using assms(6) by (simp_all add: ready_def)
  show ?thesis
    using rtranclp_trans [OF tick_runs [OF ok(1) t at, of "[]"] back_to_polling [OF assms(6)]] t ok(2) assms(4) by simp
qed

lemma program_runs:
  assumes "wc_max_attempts (sy_worker sys) = 6" and "list_all (event_ok lossy pg) es" and "list_all keyed es"
    and "\<And>m s. \<exists>r. fst (send m s) = Inr r" and "fault_inv pg \<lparr>sy_db = st_db (w_store wd), sy_flight = []\<rparr>"
    and "3 \<le> bound" and "ready p" and "program sys send es (wd, n) = (wd', n')"
  shows "joint_steps lossy pg 6 loops bound freed
    (p, \<lparr>sy_db = st_db (w_store wd), sy_flight = []\<rparr>) (p, \<lparr>sy_db = st_db (w_store wd'), sy_flight = []\<rparr>)"
  using assms(2,3,5,8)
proof (induction es arbitrary: wd n)
  case (Cons ev es)
  show ?case
  proof (cases ev)
    case (Request env r)
    let ?wd = "fst (outcome_value (serve sys env r (wd, new_rw)))"
    have ok: "env_ok env" "io_pg (rv_io env) = pg" using Cons.prems(1) Request by simp_all
    have "fault_inv pg \<lparr>sy_db = st_db (w_store ?wd), sy_flight = []\<rparr>"
      by (rule fault_inv_steps [OF sys_steps_fault [OF db_runs_sys_steps [OF serve_step(1) [OF ok(1) refl], unfolded ok(2)]]
          Cons.prems(3)])
    then have "joint_steps lossy pg 6 loops bound freed (p, \<lparr>sy_db = st_db (w_store ?wd), sy_flight = []\<rparr>)
        (p, \<lparr>sy_db = st_db (w_store wd'), sy_flight = []\<rparr>)"
      using Cons.IH [of ?wd n] Cons.prems Request by simp
    with request_event_runs [OF ok(1) refl assms(6,7), unfolded ok(2)] show ?thesis by (rule rtranclp_trans)
  next
    case (Tick we)
    let ?ws = "snd (tick we (sy_worker sys) send \<lparr>ws_store = w_store wd, ws_sender = n\<rparr>)"
    have ev: "event_ok lossy pg (event.Tick we)" "keyed (event.Tick we)" using Cons.prems(1,2) Tick by simp_all
    note step = tick_keeps_steps [OF ev(1), of "sy_worker sys" "\<lparr>ws_store = w_store wd, ws_sender = n\<rparr>" send]
    have "fault_inv pg \<lparr>sy_db = st_db (ws_store ?ws), sy_flight = []\<rparr>"
      by (rule fault_inv_steps [OF step]) (use Cons.prems(3) in simp)
    then have "joint_steps lossy pg 6 loops bound freed (p, \<lparr>sy_db = st_db (ws_store ?ws), sy_flight = []\<rparr>)
        (p, \<lparr>sy_db = st_db (w_store wd'), sy_flight = []\<rparr>)"
      using Cons.IH [of "wd\<lparr>w_store := ws_store ?ws\<rparr>" "ws_sender ?ws"] Cons.prems Tick by (simp add: Let_def)
    with tick_event_runs [OF ev assms(4,1), of "\<lparr>ws_store = w_store wd, ws_sender = n\<rparr>"] Cons.prems(3) assms(7)
    show ?thesis by (simp add: fault_inv_def) (meson rtranclp_trans)
  qed
qed simp

text \<open>
  C2: everything the program does, answers to commits that get lost included, is a run of the joint
  system: any sequence of requests and worker ticks, from a successful start on a database that is
  empty or was left by an earlier life of the program, with the hash key installed and any answers
  of the mail provider short of a panic, is a sequence of steps of a serving process, of one
  connection and one worker loop, with the same effect on the tables, after which the process stands
  where it stood. If no answer to the commit of a worker's transaction is lost, no step of that run
  loses one.
\<close>

theorem program_is_joint_run:
  assumes "start so getenv = Started sys" and "list_all (event_ok lossy pg) es" and "list_all keyed es"
    and "\<And>m s. \<exists>r. fst (send m s) = Inr r" and "left_database lossy pg users (st_db (w_store wd))" and "3 \<le> bound" and "ready p"
    and "program sys send es (wd, n) = (wd', n')"
  shows "joint_steps lossy pg 6 loops bound freed
    (p, \<lparr>sy_db = st_db (w_store wd), sy_flight = []\<rparr>) (p, \<lparr>sy_db = st_db (w_store wd'), sy_flight = []\<rparr>)"
proof -
  have "fault_inv pg \<lparr>sy_db = st_db (w_store wd), sy_flight = []\<rparr>"
    using fault_inv_steps [OF _ fault_inv_start] assms(5) by (auto simp: left_database_def)
  with program_runs [OF started_attempts [OF assms(1)] assms(2-4) _ assms(6-8)] show ?thesis by blast
qed

section \<open>A sample life of the program\<close>

text \<open>A worker tick that finds a notification to send, then a request, on a database left by an earlier process.\<close>

definition sample_begin :: world where
  "sample_begin = \<lparr>w_store = \<lparr>st_db = sy_db run_queued, st_count = 3\<rparr>, w_cache = [], w_slept = 0, w_access = []\<rparr>"

abbreviation sample_events :: "unit event list" where
  "sample_events \<equiv> [Tick sample_env, Request sample_server_env (sample_get ''GET'' ''/healthz'')]"

abbreviation accepting :: "message \<Rightarrow> unit \<Rightarrow> send_result \<times> unit" where
  "accepting m s \<equiv> (Inr (Inr ''p''), s)"

lemma sample_events_ok: "list_all (event_ok False sample_pg) sample_events" "list_all keyed sample_events"
proof -
  have "event_ok False sample_pg (Tick sample_env)"
    by (simp add: no_lost_commit_def sample_env_simps) (simp add: sample_io_def)
  moreover have "event_ok False sample_pg (Request sample_server_env (sample_get ''GET'' ''/healthz''))"
    using sample_env_ok by (simp add: sample_server_env_def sample_io_def)
  ultimately show "list_all (event_ok False sample_pg) sample_events" by simp
  show "list_all keyed sample_events" by (simp add: sample_env_simps)
qed

lemma sample_begin_facts:
  "left_database False sample_pg [7] (st_db (w_store sample_begin))" "cache_ok (w_cache sample_begin)" "w_access sample_begin = []"
  using sys_steps_fault [OF run_steps(1)] by (simp_all add: left_database_def sample_begin_def run_queued_def cache_ok_def)

text \<open>The tick sends the notification, and the request leaves it as it is.\<close>

lemma sample_life_of_program:
  "\<exists>sys wd' n'. start sample_start_ops sample_vars = Started sys \<and>
     program sys accepting sample_events (sample_begin, ()) = (wd', n') \<and>
     (\<exists>r\<in>set (db_notifications (st_db (w_store wd'))). n_id r = 1 \<and> n_status r = NSent)"
proof -
  obtain sys where sys: "start sample_start_ops sample_vars = Started sys" using sample_start by blast
  obtain wd' n' where run: "program sys accepting sample_events (sample_begin, ()) = (wd', n')" by (rule prod.exhaust)
  let ?ws = "\<lparr>ws_store = w_store sample_begin, ws_sender = ()\<rparr>"
  let ?wd = "sample_begin\<lparr>w_store := ws_store (snd (tick sample_env (sy_worker sys) accepting ?ws))\<rparr>"
  let ?s = "\<lparr>sy_db = st_db (w_store ?wd), sy_flight = []\<rparr>"
  have rest: "program sys accepting (tl sample_events) (?wd, ()) = (wd', n')" using run by (simp add: Let_def)
  have start: "st_db (w_store sample_begin) = sy_db run_queued" "st_count (w_store sample_begin) = 3"
    "db_email_log (sy_db run_queued) = []"
    by (simp_all add: sample_begin_def) (simp add: run_queued_def empty_db_def)
  have env: "\<And>i. io_fault (we_io sample_env) i = None" "\<And>i. we_limiter sample_env i = None" "we_locked sample_env i = {}"
    "0 \<le> io_now (we_io sample_env) i" for i
    by (simp_all add: sample_env_simps) (simp_all add: sample_env_def sample_io_def second_def)
  have inv: "fault_inv sample_pg \<lparr>sy_db = st_db (ws_store ?ws), sy_flight = []\<rparr>"
    using fault_inv_steps [OF _ fault_inv_start] sample_begin_facts(1) by (auto simp: left_database_def)
  then have ok: "db_ok sample_pg (st_db (ws_store ?ws))" by (simp add: fault_inv_def)
  have ids: "unused_ids (we_io sample_env) (st_count (ws_store ?ws)) 17 (st_db (ws_store ?ws))"
    using word_ids_unused [OF _ start(3), of 3 17 "we_io sample_env"] by (simp add: start sample_env_simps)
  obtain st where cap: "over_cap sample_env (sy_worker sys) (ws_store ?ws) = (Inr False, st)"
    using passes_cap [where env = sample_env and before = "ws_store ?ws"] env(1)
    by (auto simp: start) (auto simp: run_queued_def sample_queued_def fresh_notification_def)
  have due: "sample_queued \<in> set (due_rows (io_now (we_io sample_env) (st_count st)) (we_locked sample_env (st_count st))
      claim_limit (st_db (ws_store ?ws)))"
    using sample_delivery(1) env(3,4) by (simp add: start)
  have six: "wc_max_attempts (sy_worker sys) \<le> 28" by (simp add: started_attempts [OF sys])
  obtain r where r: "stands (st_db (w_store ?wd)) r ([] @ [LSent])" "n_id r = 1" "n_status r = NSent"
    using tick_sends_due [where send = accepting, OF env(1,2) sample_env_simps(1) six _ ids ok cap due sample_delivery(2)]
      sample_delivery(3,4) start(3) by (fastforce simp: start log_of_def)
  have "out_of_reach ?s r" using r by (simp add: stands_def out_of_reach_def flight_ids_def)
  moreover have "fault_inv sample_pg ?s"
    using fault_inv_steps [OF tick_keeps_steps [where cfg = "sy_worker sys" and send = accepting] inv] sample_events_ok(1)
    by simp
  moreover have "fault_steps False sample_pg (wc_max_attempts (sy_worker sys)) ?s \<lparr>sy_db = st_db (w_store wd'), sy_flight = []\<rparr>"
    using program_steps [OF _ rest] sample_events_ok(1) by simp
  ultimately have "r \<in> set (db_notifications (st_db (w_store wd')))"
    using fault_reach_steps by (fastforce simp: out_of_reach_def)
  then show ?thesis using sys run r(2,3) by blast
qed

lemma program_is_consistent_witness:
  "\<exists>sys wd' n'. start sample_start_ops sample_vars = Started sys \<and>
     program sys accepting sample_events (sample_begin, ()) = (wd', n') \<and>
     db_ok sample_pg (st_db (w_store wd')) \<and> length (w_access wd') = 1 \<and>
     (\<exists>r\<in>set (db_notifications (st_db (w_store wd'))). n_id r = 1 \<and> n_status r = NSent) \<and>
     log_of (db_email_log (st_db (w_store wd'))) 1 = [LSent]"
proof -
  obtain sys wd' n' r where run: "start sample_start_ops sample_vars = Started sys"
      "program sys accepting sample_events (sample_begin, ()) = (wd', n')"
    and r: "r \<in> set (db_notifications (st_db (w_store wd')))" "n_id r = 1" "n_status r = NSent"
    using sample_life_of_program by blast
  from program_is_consistent [OF run(1) sample_events_ok(1) sample_begin_facts run(2)]
  show ?thesis using run r by (fastforce intro!: exI [of _ sys] exI [of _ wd'])
qed

text \<open>A process that gets ready: it has served one request without a transaction.\<close>

definition sample_ready :: proc where
  "sample_ready = launched\<lparr>pr_main := NotifySignals, pr_group := 2, pr_server := Accepting, pr_conns := [KeptAlive],
     pr_run := Spawning 1, pr_run_group := 1, pr_loops := [Polling]\<rparr>"

lemma ready_reachable: "proc_reachable 1 3 all_resting sample_ready"
  apply (rule reachable_run [OF launched_reachable, where as =
    "[(Main, 0), (Runner, 0), (Main, 0), (Listener, 0), (Listener, 0), (Conn 0, 0), (Conn 0, 0)]"])
  apply (rule run_main [OF _ main_step.launch_worker], simp add: launched_def, simp add: launched_def)
  apply (rule run_runner [OF _ run_step.spawn], simp add: launched_def, simp, simp)
  apply (rule run_main [OF _ main_step.launch_server], simp add: launched_def, simp)
  apply (rule run_ex_there [OF by_listener [OF _ server_step.listen]], simp add: launched_def, simp, simp add: launched_def)
  apply (rule run_ex_there [OF by_listener [OF _ server_step.accept]], simp add: launched_def, simp)
  apply (rule run_ex_there [OF by_conn [where i = 0 and c = "Serving 0"]], simp add: launched_def, simp add: launched_def, simp add: launched_def)
  apply (rule run_ex_there [OF by_conn [where i = 0 and c = KeptAlive]], simp add: launched_def, simp, simp add: launched_def)
  apply (rule run_ex_here, simp add: sample_ready_def launched_def)
  done

lemma program_is_joint_run_witness:
  "\<exists>sys wd' n'. start sample_start_ops sample_vars = Started sys \<and> proc_reachable 1 3 all_resting sample_ready \<and>
     program sys accepting sample_events (sample_begin, ()) = (wd', n') \<and>
     (\<exists>r\<in>set (db_notifications (st_db (w_store wd'))). n_id r = 1 \<and> n_status r = NSent) \<and>
     joint_steps False sample_pg 6 1 3 all_resting (sample_ready, run_queued)
       (sample_ready, \<lparr>sy_db = st_db (w_store wd'), sy_flight = []\<rparr>)"
proof -
  obtain sys wd' n' where run: "start sample_start_ops sample_vars = Started sys"
      "program sys accepting sample_events (sample_begin, ()) = (wd', n')"
    and sent: "\<exists>r\<in>set (db_notifications (st_db (w_store wd'))). n_id r = 1 \<and> n_status r = NSent"
    using sample_life_of_program by blast
  have "\<exists>r. fst (accepting m s) = Inr r" for m s by simp
  moreover have "ready sample_ready"
    by (simp add: ready_def sample_ready_def launched_def serving_pools_def conn_at_def loop_at_def)
  moreover have "run_queued = \<lparr>sy_db = st_db (w_store sample_begin), sy_flight = []\<rparr>"
    by (simp add: run_queued_def sample_begin_def)
  ultimately have "joint_steps False sample_pg 6 1 3 all_resting (sample_ready, run_queued)
      (sample_ready, \<lparr>sy_db = st_db (w_store wd'), sy_flight = []\<rparr>)"
    using program_is_joint_run [OF run(1) sample_events_ok _ sample_begin_facts(1) order_refl _ run(2), of sample_ready 1 all_resting]
    by simp
  with run sent ready_reachable show ?thesis by blast
qed

end
